(* ===== verification/Lantern_Prelude.thy ===== *)
theory Lantern_Prelude
  imports Main "HOL-Library.Word" "HOL-Library.Signed_Division"
begin

unbundle bit_operations_syntax

text \<open>
  Shared vocabulary of the development: the C integer types of the 32-bit target, bytes of
  string literals, the fault values of code that leaves its arrays or does not return, loops as
  folds, and the interface (a locale) of every operation that keeps an invariant.

  The kernel is compiled without an optimisation flag (src/src/settings.mk), so signed
  arithmetic that overflows is the wrap-around of the machine instruction: an \<open>int\<close> is a
  32 bit word read with \<open>sint\<close>, an \<open>unsigned\<close> the same word read with \<open>unat\<close>.
\<close>

type_synonym u8 = "8 word"
type_synonym u16 = "16 word"
type_synonym u32 = "32 word"
type_synonym u64 = "64 word"

section \<open>Collections of facts\<close>

text \<open>Facts of the form "this operation does not change that field".\<close>
named_theorems frame

text \<open>Facts that an operation keeps the invariant of its component.\<close>
named_theorems keeps

section \<open>Bytes and strings\<close>

text \<open>The byte of a character literal, and the bytes of a string literal without its NUL.\<close>

abbreviation asc :: "char \<Rightarrow> u8" where
  "asc c \<equiv> of_char c"

definition bytes :: "string \<Rightarrow> u8 list" where
  "bytes s = map of_char s"

lemma bytes_simps [simp]:
  "bytes [] = []"
  "bytes (c # cs) = of_char c # bytes cs"
  by (simp_all add: bytes_def)

lemma length_bytes [simp]: "length (bytes s) = length s"
  by (simp add: bytes_def)

text \<open>The bytes a C function sees of a \<open>char *\<close> are those before the first NUL.\<close>

definition cstring :: "u8 list \<Rightarrow> bool" where
  "cstring s \<longleftrightarrow> 0 \<notin> set s"

lemma cstring_simps [simp]:
  "cstring []"
  "cstring (c # cs) \<longleftrightarrow> c \<noteq> 0 \<and> cstring cs"
  "cstring (xs @ ys) \<longleftrightarrow> cstring xs \<and> cstring ys"
  by (auto simp: cstring_def)

section \<open>Words\<close>

lemma low_byte: "(w AND 0xFF :: 'a::len word) = take_bit 8 w"
  by (simp add: take_bit_eq_mask mask_numeral)

lemma ucast_low_byte [simp]: "(ucast (w AND 0xFF :: 'a::len word) :: u8) = ucast w"
  by (simp add: low_byte unsigned_take_bit_eq take_bit_word_eq_self)

lemma byte_and_255 [simp]: "(k :: u8) AND 255 = k"
  using low_byte [of k] by (simp add: take_bit_word_eq_self)

lemma unat_pred_less: "unat x < n \<Longrightarrow> 0 < unat x \<Longrightarrow> unat (x - 1 :: u32) < n"
  by (metis unat_minus_one less_imp_diff_less unat_0 less_irrefl)

section \<open>Faults\<close>

text \<open>
  What the code does where C gives it no meaning: it leaves an array, follows a pointer that was
  never set, waits for input that does not come, or loops forever. A function that can do so returns a value of \<open>fault + 'a\<close>.
\<close>

datatype fault = OutOfBounds | BadPointer | Blocked | Diverges

definition bindR :: "fault + 'a \<Rightarrow> ('a \<Rightarrow> fault + 'b) \<Rightarrow> fault + 'b" where
  "bindR r f = (case r of Inl e \<Rightarrow> Inl e | Inr x \<Rightarrow> f x)"

lemma bindR_simps [simp]:
  "bindR (Inl e) f = Inl e"
  "bindR (Inr x) f = f x"
  by (simp_all add: bindR_def)

lemma bindR_Inr_iff:
  "bindR r f = Inr y \<longleftrightarrow> (\<exists>x. r = Inr x \<and> f x = Inr y)"
  by (cases r) simp_all

section \<open>Counted loops\<close>

text \<open>A loop \<open>for (i = 0; i < n; i++)\<close> whose body does not change \<open>i\<close> is a fold over the indices.\<close>

abbreviation for_to :: "nat \<Rightarrow> (nat \<Rightarrow> 's \<Rightarrow> 's) \<Rightarrow> 's \<Rightarrow> 's" where
  "for_to n body s \<equiv> fold body [0..<n] s"

lemma for_to_0 [simp]: "for_to 0 body s = s"
  by simp

lemma for_to_Suc [simp]: "for_to (Suc n) body s = body n (for_to n body s)"
  by simp

lemma for_to_inv:
  assumes "P 0 s" and "\<And>i t. i < n \<Longrightarrow> P i t \<Longrightarrow> P (Suc i) (body i t)"
  shows "P n (for_to n body s)"
  using assms by (induction n) (auto simp del: upt_Suc simp: upt_Suc_append)

text \<open>Two nested counted loops visit the cells of a table in the order of their number.\<close>

lemma for_to_nested:
  "for_to m (\<lambda>y. for_to n (\<lambda>x. f (y * n + x))) s = for_to (m * n) f s"
proof (induction m)
  case 0
  show ?case by simp
next
  case (Suc m)
  have row: "fold (\<lambda>x. f (m * n + x)) [0..<n] t = fold f [m * n..<Suc m * n] t" for t
  proof -
    have "[m * n..<Suc m * n] = map (\<lambda>x. m * n + x) [0..<n]"
      using map_add_upt [of "m * n" n] by (simp add: add.commute)
    then show ?thesis by (simp add: fold_map o_def del: upt_Suc)
  qed
  have parts: "[0..<Suc m * n] = [0..<m * n] @ [m * n..<Suc m * n]"
    by (metis le_add2 mult_Suc upt_add_eq_append add.commute zero_le)
  show ?case using Suc row by (simp add: parts del: mult_Suc)
qed

section \<open>Operations that keep an invariant\<close>

text \<open>
  The interface of a component whose operation takes an argument and a state: its invariant
  survives any sequence of calls.
\<close>

locale keeps_invariant =
  fixes step :: "'e \<Rightarrow> 's \<Rightarrow> 's"
    and inv :: "'s \<Rightarrow> bool"
  assumes step_keeps: "inv s \<Longrightarrow> inv (step e s)"
begin

lemma fold_keeps: "inv s \<Longrightarrow> inv (fold step es s)"
  by (induction es arbitrary: s) (simp_all add: step_keeps)

end

end
