(* ===== verification/Port_IO.thy ===== *)
theory Port_IO
  imports Lantern_Prelude
begin

text \<open>
  Port input and output (include/io.h). The hardware is not part of the program: it is the
  parameter \<open>dev\<close>, a function that gives the value an \<open>in\<close> instruction reads at a port after a
  history of port accesses. The state of the machine keeps that history, newest access first.
\<close>

datatype event =
    InB u16 u8
  | OutB u16 u8
  | InW u16 u16
  | OutW u16 u16

type_synonym device = "event list \<Rightarrow> u16 \<Rightarrow> u16"

record machine =
  trace :: "event list"

definition outb :: "u16 \<Rightarrow> u8 \<Rightarrow> 'a machine_scheme \<Rightarrow> 'a machine_scheme" where
  "outb port val s = s\<lparr>trace := OutB port val # trace s\<rparr>"

definition inb :: "device \<Rightarrow> u16 \<Rightarrow> 'a machine_scheme \<Rightarrow> u8 \<times> 'a machine_scheme" where
  "inb dev port s =
     (let ret = ucast (dev (trace s) port) in (ret, s\<lparr>trace := InB port ret # trace s\<rparr>))"

definition outw :: "u16 \<Rightarrow> u16 \<Rightarrow> 'a machine_scheme \<Rightarrow> 'a machine_scheme" where
  "outw port data s = s\<lparr>trace := OutW port data # trace s\<rparr>"

definition inw :: "device \<Rightarrow> u16 \<Rightarrow> 'a machine_scheme \<Rightarrow> u16 \<times> 'a machine_scheme" where
  "inw dev port s =
     (let result = dev (trace s) port in (result, s\<lparr>trace := InW port result # trace s\<rparr>))"

text \<open>
  Every access touches the history only: after it, the state is the old one with a longer history.
\<close>

lemma port_io_shape:
  "outb p v s = s\<lparr>trace := OutB p v # trace s\<rparr>"
  "outw p w s = s\<lparr>trace := OutW p w # trace s\<rparr>"
  "inb dev p s = (ucast (dev (trace s) p), s\<lparr>trace := InB p (ucast (dev (trace s) p)) # trace s\<rparr>)"
  "inw dev p s = (dev (trace s) p, s\<lparr>trace := InW p (dev (trace s) p) # trace s\<rparr>)"
  by (simp_all add: outb_def outw_def inb_def inw_def Let_def)

lemma machine_trace_commute [frame]:
  "trace (outb p v s) = OutB p v # trace s"
  "trace (outw p w s) = OutW p w # trace s"
  "trace (snd (inb dev p s)) = InB p (fst (inb dev p s)) # trace s"
  "trace (snd (inw dev p s)) = InW p (fst (inw dev p s)) # trace s"
  by (simp_all add: port_io_shape)

end
