(* ===== verification/Console.thy ===== *)
theory Console
  imports Port_IO
begin

text \<open>
  The VGA text console of src/io.c: scrolling, the hardware cursor, writing a character and a
  string, clearing the screen. \<open>vram a\<close> is the byte at address \<open>0xB8000 + a\<close> (addresses wrap
  at 32 bits, so \<open>a\<close> is the value of a 32 bit offset); the text page is the offsets below 4000.
  The second half gives the console as an abstract terminal (a table of cells and a position)
  and shows that the code implements it.
\<close>

section \<open>State\<close>

record console = machine +
  vram :: "nat \<Rightarrow> u8"
  cursorX :: u32
  cursorY :: u32
  COLOR :: u8

abbreviation VGA_W :: "'a::numeral" where "VGA_W \<equiv> 80"
abbreviation VGA_H :: "'a::numeral" where "VGA_H \<equiv> 25"

datatype VGAColor =
    BLACK | BLUE | GREEN | CYAN | RED | MAGENTA | BROWN | LIGHT_GRAY
  | DARK_GRAY | LIGHT_BLUE | LIGHT_GREEN | LIGHT_CYAN | LIGHT_RED | LIGHT_MAGENTA
  | YELLOW | WHITE

fun color_code :: "VGAColor \<Rightarrow> u8" where
  "color_code BLACK = 0" | "color_code BLUE = 1" | "color_code GREEN = 2"
| "color_code CYAN = 3" | "color_code RED = 4" | "color_code MAGENTA = 5"
| "color_code BROWN = 6" | "color_code LIGHT_GRAY = 7" | "color_code DARK_GRAY = 8"
| "color_code LIGHT_BLUE = 9" | "color_code LIGHT_GREEN = 10" | "color_code LIGHT_CYAN = 11"
| "color_code LIGHT_RED = 12" | "color_code LIGHT_MAGENTA = 13" | "color_code YELLOW = 14"
| "color_code WHITE = 15"

definition vgaColor :: "VGAColor \<Rightarrow> VGAColor \<Rightarrow> u8" where
  "vgaColor fg bg = push_bit 4 (color_code bg) OR (color_code fg AND 0x0F)"

text \<open>The macro \<open>VGA_OFF\<close>: the offset of the cursor's cell, in \<open>unsigned\<close> arithmetic.\<close>

definition VGA_OFF :: "'a console_scheme \<Rightarrow> nat" where
  "VGA_OFF s = unat ((cursorY s * VGA_W + cursorX s) * 2)"

section \<open>Operations\<close>

definition copy_cell :: "nat \<Rightarrow> nat \<Rightarrow> (nat \<Rightarrow> u8) \<Rightarrow> (nat \<Rightarrow> u8)" where
  "copy_cell y x v =
     (let dst = (y * VGA_W + x) * 2;
          src = ((y + 1) * VGA_W + x) * 2;
          v1 = v(dst := v src)
      in v1(dst + 1 := v1 (src + 1)))"

definition clear_cell :: "u8 \<Rightarrow> nat \<Rightarrow> (nat \<Rightarrow> u8) \<Rightarrow> (nat \<Rightarrow> u8)" where
  "clear_cell color i v = v(i * 2 := asc CHR '' '', i * 2 + 1 := color)"

definition scroll :: "'a console_scheme \<Rightarrow> 'a console_scheme" where
  "scroll s =
     (let v1 = for_to (VGA_H - 1) (\<lambda>y. for_to VGA_W (\<lambda>x. copy_cell y x)) (vram s);
          v2 = for_to VGA_W (\<lambda>x. clear_cell (COLOR s) ((VGA_H - 1) * VGA_W + x)) v1
      in s\<lparr>vram := v2, cursorY := VGA_H - 1\<rparr>)"

definition moveCursor :: "u32 \<Rightarrow> u32 \<Rightarrow> 'a machine_scheme \<Rightarrow> 'a machine_scheme" where
  "moveCursor x y s =
     (let pos = ucast (y * VGA_W + x) :: u16;
          s1 = outb 0x3D4 0x0E s;
          s2 = outb 0x3D5 (ucast (drop_bit 8 pos AND 0xFF)) s1;
          s3 = outb 0x3D4 0x0F s2
      in outb 0x3D5 (ucast (pos AND 0xFF)) s3)"

definition enableCursor :: "device \<Rightarrow> u32 \<Rightarrow> u32 \<Rightarrow> 'a machine_scheme \<Rightarrow> 'a machine_scheme" where
  "enableCursor dev cursor_start cursor_end s =
     (let s1 = outb 0x3D4 0x0A s;
          (v, s2) = inb dev 0x3D5 s1;
          s3 = outb 0x3D5 (ucast ((ucast v AND 0xC0) OR cursor_start)) s2;
          s4 = outb 0x3D4 0x0B s3;
          (w, s5) = inb dev 0x3D5 s4
      in outb 0x3D5 (ucast ((ucast w AND 0xE0) OR cursor_end)) s5)"

definition disableCursor :: "'a machine_scheme \<Rightarrow> 'a machine_scheme" where
  "disableCursor s = outb 0x3D5 0x20 (outb 0x3D4 0x0A s)"

definition advanceCursor :: "'a console_scheme \<Rightarrow> 'a console_scheme" where
  "advanceCursor s =
     (let s1 = (if cursorX s \<ge> VGA_W then s\<lparr>cursorY := cursorY s + 1, cursorX := 0\<rparr>
                else if cursorY s \<ge> VGA_H then scroll s
                else s\<lparr>cursorX := cursorX s + 1\<rparr>)
      in moveCursor (cursorX s1) (cursorY s1) s1)"

text \<open>Storing a character and the current attribute at the cursor's cell.\<close>

definition put_cell :: "u8 \<Rightarrow> 'a console_scheme \<Rightarrow> 'a console_scheme" where
  "put_cell c s =
     (let offset = VGA_OFF s in s\<lparr>vram := (vram s)(offset := c, offset + 1 := COLOR s)\<rparr>)"

definition writeChar :: "u8 \<Rightarrow> 'a console_scheme \<Rightarrow> 'a console_scheme" where
  "writeChar c s =
     (let s1 =
        (if c = asc CHR ''\<newline>'' then s\<lparr>cursorX := 0, cursorY := cursorY s + 1\<rparr>
         else if c = 8 then
           (let s' = (if cursorX s > 0 then s\<lparr>cursorX := cursorX s - 1\<rparr>
                      else if cursorY s > 0
                           then s\<lparr>cursorY := cursorY s - 1, cursorX := VGA_W - 1\<rparr>
                      else s)
            in put_cell (asc CHR '' '') s')
         else (let s' = put_cell c s in s'\<lparr>cursorX := cursorX s' + 1\<rparr>));
        s2 = (if cursorX s1 \<ge> VGA_W then s1\<lparr>cursorX := 0, cursorY := cursorY s1 + 1\<rparr> else s1);
        s3 = (if cursorY s2 \<ge> VGA_H then scroll s2 else s2)
      in moveCursor (cursorX s3) (cursorY s3) s3)"

text \<open>The loop of \<open>writeStr\<close> stops at the NUL; the end of the list is the NUL as well.\<close>

fun writeStr :: "u8 list \<Rightarrow> 'a console_scheme \<Rightarrow> 'a console_scheme" where
  "writeStr [] s = s"
| "writeStr (c # cs) s = (if c = 0 then s else writeStr cs (writeChar c s))"

definition clearScreen :: "'a console_scheme \<Rightarrow> 'a console_scheme" where
  "clearScreen s =
     (let s1 = s\<lparr>vram := for_to (VGA_W * VGA_H) (clear_cell (COLOR s)) (vram s)\<rparr>;
          s2 = s1\<lparr>cursorX := 0, cursorY := 0\<rparr>
      in moveCursor 0 0 s2)"


section \<open>What the loops compute\<close>

lemma copy_cell_apply:
  "copy_cell y x v a =
     (if a = (y * 80 + x) * 2 \<or> a = (y * 80 + x) * 2 + 1 then v (a + 160) else v a)"
  by (auto simp: copy_cell_def Let_def ac_simps)

lemma copy_cells:
  "for_to n (\<lambda>k v. v(2 * k := v (2 * k + 160), 2 * k + 1 := v (2 * k + 161))) v =
     (\<lambda>a. if a < 2 * n then v (a + 160) else v a)"
  by (induction n) (auto simp: fun_eq_iff less_Suc_eq ac_simps)

lemma scroll_copies:
  "for_to 24 (\<lambda>y. for_to 80 (\<lambda>x. copy_cell y x)) v =
     (\<lambda>a. if a < 3840 then v (a + 160) else v a)"
proof -
  have "copy_cell y x = (\<lambda>k v. v(2 * k := v (2 * k + 160), 2 * k + 1 := v (2 * k + 161))) (y * 80 + x)"
    for y x
    by (auto simp: copy_cell_apply fun_eq_iff ac_simps)
  then have "for_to 24 (\<lambda>y. for_to 80 (\<lambda>x. copy_cell y x)) v =
      for_to 24 (\<lambda>y. for_to 80 (\<lambda>x. (\<lambda>k v. v(2 * k := v (2 * k + 160), 2 * k + 1 := v (2 * k + 161))) (y * 80 + x))) v"
    by presburger
  also have "\<dots> = for_to (24 * 80) (\<lambda>k v. v(2 * k := v (2 * k + 160), 2 * k + 1 := v (2 * k + 161))) v"
    by (rule for_to_nested)
  also have "\<dots> = (\<lambda>a. if a < 3840 then v (a + 160) else v a)"
    by (simp only: copy_cells) simp
  finally show ?thesis .
qed

lemma clear_cells:
  "for_to n (\<lambda>k. clear_cell col (m + k)) v =
     (\<lambda>a. if 2 * m \<le> a \<and> a < 2 * (m + n) then (if even a then 32 else col) else v a)"
proof (induction n)
  case 0
  show ?case by (auto simp: fun_eq_iff)
next
  case (Suc n)
  show ?case
    by (rule ext) (simp only: for_to_Suc Suc.IH, auto simp: clear_cell_def elim!: oddE evenE; presburger)
qed

text \<open>The two loops of \<open>scroll\<close>: every row is the old next row, the last row is blank.\<close>

lemma vram_scroll:
  "vram (scroll s) =
     (\<lambda>a. if a < 3840 then vram s (a + 160)
          else if a < 4000 then (if even a then 32 else COLOR s) else vram s a)"
proof -
  have "for_to 80 (\<lambda>x. clear_cell (COLOR s) (1920 + x)) v =
      (\<lambda>a. if 3840 \<le> a \<and> a < 4000 then (if even a then 32 else COLOR s) else v a)" for v
    using clear_cells [where n = 80 and col = "COLOR s" and m = 1920 and v = v] by simp
  then show ?thesis
    unfolding scroll_def Let_def
    using scroll_copies [of "vram s"] by (auto simp: fun_eq_iff simp del: upt_Suc)
qed

lemma vram_clearScreen:
  "vram (clearScreen s) = (\<lambda>a. if a < 4000 then (if even a then 32 else COLOR s) else vram s a)"
  using clear_cells [where n = 2000 and col = "COLOR s" and m = 0 and v = "vram s"]
  by (simp add: clearScreen_def moveCursor_def port_io_shape Let_def)


section \<open>Invariant and frame\<close>

text \<open>The cursor is on the screen.\<close>

definition console_inv :: "'a console_scheme \<Rightarrow> bool" where
  "console_inv s \<longleftrightarrow> cursorX s < VGA_W \<and> cursorY s < VGA_H"

lemma moveCursor_frame [frame, simp]:
  "vram (moveCursor x y s) = vram s"
  "cursorX (moveCursor x y s) = cursorX s"
  "cursorY (moveCursor x y s) = cursorY s"
  "COLOR (moveCursor x y s) = COLOR s"
  for s :: "'a console_scheme"
  by (simp_all add: moveCursor_def port_io_shape Let_def)

lemma scroll_frame [frame, simp]:
  "cursorX (scroll s) = cursorX s"
  "cursorY (scroll s) = 24"
  "COLOR (scroll s) = COLOR s"
  "trace (scroll s) = trace s"
  by (simp_all add: scroll_def Let_def)

lemma put_cell_frame [frame, simp]:
  "cursorX (put_cell c s) = cursorX s"
  "cursorY (put_cell c s) = cursorY s"
  "COLOR (put_cell c s) = COLOR s"
  "trace (put_cell c s) = trace s"
  by (simp_all add: put_cell_def Let_def)

lemma clearScreen_frame [frame, simp]:
  "cursorX (clearScreen s) = 0"
  "cursorY (clearScreen s) = 0"
  "COLOR (clearScreen s) = COLOR s"
  by (simp_all add: clearScreen_def moveCursor_def port_io_shape Let_def)

lemma COLOR_writeChar [frame, simp]: "COLOR (writeChar c s) = COLOR s"
  by (simp add: writeChar_def Let_def)

lemma COLOR_writeStr [frame, simp]: "COLOR (writeStr str s) = COLOR s"
  by (induction str s rule: writeStr.induct) simp_all

text \<open>Small additions and subtractions on the cursor do not wrap.\<close>

lemma unat_step:
  fixes x :: u32
  shows "x < 80 \<Longrightarrow> unat (x + 1) = unat x + 1"
    and "x > 0 \<Longrightarrow> unat (x - 1) = unat x - 1"
  by (unat_arith; simp)+

lemma cursor_unat:
  assumes "console_inv s"
  shows "unat (cursorX s) < 80" and "unat (cursorY s) < 25"
  using assms by (simp_all add: console_inv_def word_less_nat_alt)

lemma VGA_OFF_eq:
  assumes "cursorX s < 80" "cursorY s < 25"
  shows "VGA_OFF s = (unat (cursorY s) * 80 + unat (cursorX s)) * 2"
  using assms by (simp add: VGA_OFF_def word_less_nat_alt unat_word_ariths)

lemma writeChar_keeps [keeps]: "console_inv s \<Longrightarrow> console_inv (writeChar c s)"
  unfolding console_inv_def writeChar_def Let_def
  by (auto simp: word_less_nat_alt word_le_nat_alt unat_word_ariths unat_sub_if' split: if_splits)

lemma writeStr_keeps [keeps]: "console_inv s \<Longrightarrow> console_inv (writeStr str s)"
  by (induction str s rule: writeStr.induct) (simp_all add: writeChar_keeps)

lemma clearScreen_keeps [keeps]: "console_inv (clearScreen s)"
  by (simp add: console_inv_def)

interpretation printer: keeps_invariant writeChar console_inv
  by unfold_locales (rule writeChar_keeps)

section \<open>The abstract terminal\<close>

text \<open>
  A terminal is a table of cells (row, column), each a character and an attribute, and the
  position of the next character. Its operation \<open>term_put\<close> is what the console promises.
\<close>

record terminal =
  cells :: "nat \<Rightarrow> nat \<Rightarrow> u8 \<times> u8"
  tx :: nat
  ty :: nat

definition on_screen :: "nat \<Rightarrow> nat \<Rightarrow> bool" where
  "on_screen y x \<longleftrightarrow> y < 25 \<and> x < 80"

definition term_store :: "u8 \<times> u8 \<Rightarrow> terminal \<Rightarrow> terminal" where
  "term_store cell t =
     t\<lparr>cells := (\<lambda>y x. if y = ty t \<and> x = tx t then cell else cells t y x)\<rparr>"

definition term_scroll :: "u8 \<Rightarrow> terminal \<Rightarrow> terminal" where
  "term_scroll col t =
     t\<lparr>cells := (\<lambda>y x. if \<not> on_screen y x then cells t y x
                         else if y = 24 then (32, col) else cells t (y + 1) x), ty := 24\<rparr>"

definition term_back :: "terminal \<Rightarrow> terminal" where
  "term_back t =
     (if tx t > 0 then t\<lparr>tx := tx t - 1\<rparr>
      else if ty t > 0 then t\<lparr>ty := ty t - 1, tx := 79\<rparr> else t)"

definition term_fit :: "u8 \<Rightarrow> terminal \<Rightarrow> terminal" where
  "term_fit col t =
     (let t' = (if tx t = 80 then t\<lparr>tx := 0, ty := ty t + 1\<rparr> else t)
      in if ty t' = 25 then term_scroll col t' else t')"

definition term_put :: "u8 \<Rightarrow> u8 \<Rightarrow> terminal \<Rightarrow> terminal" where
  "term_put col c t =
     term_fit col
       (if c = 10 then t\<lparr>tx := 0, ty := ty t + 1\<rparr>
        else if c = 8 then term_store (32, col) (term_back t)
        else (term_store (c, col) t)\<lparr>tx := tx t + 1\<rparr>)"

definition table_of :: "(nat \<Rightarrow> u8) \<Rightarrow> nat \<Rightarrow> nat \<Rightarrow> u8 \<times> u8" where
  "table_of v y x =
     (if on_screen y x then (v ((y * 80 + x) * 2), v ((y * 80 + x) * 2 + 1)) else (0, 0))"

definition term_view :: "'a console_scheme \<Rightarrow> terminal" where
  "term_view s =
     \<lparr>cells = table_of (vram s), tx = unat (cursorX s), ty = unat (cursorY s)\<rparr>"

section \<open>The console implements the terminal\<close>

lemma cell_index_inj:
  fixes x x' y y' :: nat
  assumes "x < 80" "x' < 80" "y * 80 + x = y' * 80 + x'"
  shows "y = y' \<and> x = x'"
proof -
  have "y = (y * 80 + x) div 80" "x = (y * 80 + x) mod 80"
    "y' = (y' * 80 + x') div 80" "x' = (y' * 80 + x') mod 80"
    using assms(1,2) by simp_all
  with assms(3) show ?thesis by metis
qed

lemma view_moveCursor [simp]: "term_view (moveCursor x y s) = term_view s"
  by (simp add: term_view_def)

lemma view_position [simp]:
  "tx (term_view s) = unat (cursorX s)"
  "ty (term_view s) = unat (cursorY s)"
  by (simp_all add: term_view_def)

lemma view_set_cursor:
  "term_view (s\<lparr>cursorX := x, cursorY := y\<rparr>) = (term_view s)\<lparr>tx := unat x, ty := unat y\<rparr>"
  "term_view (s\<lparr>cursorX := x\<rparr>) = (term_view s)\<lparr>tx := unat x\<rparr>"
  by (simp_all add: term_view_def)

lemma view_put_cell:
  assumes "cursorX s < 80" "cursorY s < 25"
  shows "term_view (put_cell c s) = term_store (c, COLOR s) (term_view s)"
proof -
  have y: "unat (cursorY s) < 25" and x: "unat (cursorX s) < 80"
    using assms by (simp_all add: word_less_nat_alt)
  have "table_of ((vram s)(VGA_OFF s := c, VGA_OFF s + 1 := COLOR s)) j i =
      (if j = unat (cursorY s) \<and> i = unat (cursorX s) then (c, COLOR s)
       else table_of (vram s) j i)" for i j
  proof (cases "on_screen j i")
    case True
    then have "i < 80" by (simp add: on_screen_def)
    from cell_index_inj [OF this x, of j "unat (cursorY s)"] True x y show ?thesis
      unfolding VGA_OFF_eq [OF assms] by (auto simp: table_of_def; presburger)
  next
    case False
    then show ?thesis using x y by (auto simp: table_of_def on_screen_def)
  qed
  then show ?thesis
    by (simp add: put_cell_def term_view_def term_store_def Let_def fun_eq_iff)
qed

lemma table_of_scrolled:
  "table_of (\<lambda>a. if a < 3840 then v (a + 160)
                 else if a < 4000 then (if even a then 32 else col) else v a) y x =
     (if \<not> on_screen y x then table_of v y x
      else if y = 24 then (32, col) else table_of v (y + 1) x)"
  by (auto simp: table_of_def on_screen_def algebra_simps)

lemma view_scroll: "term_view (scroll s) = term_scroll (COLOR s) (term_view s)"
  by (simp add: term_view_def term_scroll_def vram_scroll table_of_scrolled fun_eq_iff)

lemma view_back:
  "term_view (if cursorX s > 0 then s\<lparr>cursorX := cursorX s - 1\<rparr>
              else if cursorY s > 0 then s\<lparr>cursorY := cursorY s - 1, cursorX := 79\<rparr>
              else s) = term_back (term_view s)"
  by (auto simp: term_back_def term_view_def word_gt_0 unat_gt_0 unat_minus_one)

text \<open>Wrapping at the right margin and scrolling at the bottom, the end of \<open>writeChar\<close>.\<close>

definition fit_cursor :: "'a console_scheme \<Rightarrow> 'a console_scheme" where
  "fit_cursor s1 =
     (let s2 = (if cursorX s1 \<ge> VGA_W then s1\<lparr>cursorX := 0, cursorY := cursorY s1 + 1\<rparr> else s1)
      in if cursorY s2 \<ge> VGA_H then scroll s2 else s2)"

lemma view_fit:
  assumes "unat (cursorX s) \<le> 80" "unat (cursorY s) \<le> 25"
    and "unat (cursorX s) = 80 \<Longrightarrow> unat (cursorY s) < 25"
  shows "term_view (fit_cursor s) = term_fit (COLOR s) (term_view s)"
proof -
  have x: "cursorX s \<ge> 80 \<longleftrightarrow> unat (cursorX s) = 80"
    using assms(1) by (auto simp: word_le_nat_alt)
  have y: "cursorY s \<ge> 25 \<longleftrightarrow> unat (cursorY s) = 25"
    using assms(2) by (auto simp: word_le_nat_alt)
  have wrap: "unat (cursorY s + 1) = unat (cursorY s) + 1" if "unat (cursorX s) = 80"
    using assms(3) [OF that] by (simp add: unat_word_ariths)
  have "cursorY s + 1 \<ge> 25 \<longleftrightarrow> unat (cursorY s) = 24" if "unat (cursorX s) = 80"
    using assms(3) [OF that] wrap [OF that] by (auto simp: word_le_nat_alt)
  then show ?thesis
    unfolding fit_cursor_def term_fit_def Let_def
    using x y wrap by (auto simp: view_scroll view_set_cursor)
qed

lemma writeChar_shape:
  "writeChar c s =
     (let s3 = fit_cursor
        (if c = 10 then s\<lparr>cursorX := 0, cursorY := cursorY s + 1\<rparr>
         else if c = 8 then
           put_cell 32 (if cursorX s > 0 then s\<lparr>cursorX := cursorX s - 1\<rparr>
                      else if cursorY s > 0
                           then s\<lparr>cursorY := cursorY s - 1, cursorX := 79\<rparr>
                      else s)
         else (put_cell c s)\<lparr>cursorX := cursorX s + 1\<rparr>)
      in moveCursor (cursorX s3) (cursorY s3) s3)"
  by (simp add: writeChar_def fit_cursor_def Let_def)

text \<open>One character: the console's new picture is the terminal's.\<close>

lemma view_writeChar:
  assumes "console_inv s"
  shows "term_view (writeChar c s) = term_put (COLOR s) c (term_view s)"
proof -
  have x: "unat (cursorX s) < 80" and y: "unat (cursorY s) < 25"
    using cursor_unat [OF assms] by auto
  have X: "cursorX s < 80" and Y: "cursorY s < 25"
    using assms by (auto simp: console_inv_def)
  let ?b = "if cursorX s > 0 then s\<lparr>cursorX := cursorX s - 1\<rparr>
            else if cursorY s > 0 then s\<lparr>cursorY := cursorY s - 1, cursorX := 79\<rparr> else s"
  have b: "cursorX ?b < 80" "cursorY ?b < 25"
    using X Y by (auto simp: word_less_nat_alt unat_pred_less)
  have b': "unat (cursorX ?b) < 80" "unat (cursorY ?b) < 25"
    using b by (simp_all only: word_less_nat_alt) simp_all
  have col: "COLOR ?b = COLOR s" by simp
  have up: "unat (cursorY s + 1) = unat (cursorY s) + 1" "unat (cursorX s + 1) = unat (cursorX s) + 1"
    using x y by (simp_all add: unat_word_ariths)
  consider (nl) "c = 10" | (bs) "c = 8" "c \<noteq> 10" | (ch) "c \<noteq> 10" "c \<noteq> 8" by blast
  then show ?thesis
  proof cases
    case nl
    have "term_view (fit_cursor (s\<lparr>cursorX := 0, cursorY := cursorY s + 1\<rparr>)) =
        term_fit (COLOR s) ((term_view s)\<lparr>tx := 0, ty := unat (cursorY s) + 1\<rparr>)"
      using view_fit [of "s\<lparr>cursorX := 0, cursorY := cursorY s + 1\<rparr>"] y up
      by (simp add: view_set_cursor)
    with nl show ?thesis by (simp add: writeChar_shape Let_def term_put_def)
  next
    case bs
    have "term_view (fit_cursor (put_cell 32 ?b)) = term_fit (COLOR s) (term_view (put_cell 32 ?b))"
      using view_fit [of "put_cell 32 ?b"] b' col by (simp del: COLOR_writeChar)
    also have "term_view (put_cell 32 ?b) = term_store (32, COLOR s) (term_back (term_view s))"
      using view_put_cell [OF b] view_back [of s] col by metis
    finally show ?thesis using bs by (simp add: writeChar_shape Let_def term_put_def)
  next
    case ch
    have "term_view (fit_cursor ((put_cell c s)\<lparr>cursorX := cursorX s + 1\<rparr>)) =
        term_fit (COLOR s) (term_view ((put_cell c s)\<lparr>cursorX := cursorX s + 1\<rparr>))"
      using view_fit [of "(put_cell c s)\<lparr>cursorX := cursorX s + 1\<rparr>"] x y up by simp
    also have "term_view ((put_cell c s)\<lparr>cursorX := cursorX s + 1\<rparr>) =
        (term_store (c, COLOR s) (term_view s))\<lparr>tx := unat (cursorX s) + 1\<rparr>"
      using view_put_cell [OF X Y, of c] up by (simp add: view_set_cursor)
    finally show ?thesis using ch by (simp add: writeChar_shape Let_def term_put_def)
  qed
qed

text \<open>A string: the terminal's operation, character by character.\<close>

lemma view_writeStr:
  assumes "console_inv s" "cstring str"
  shows "term_view (writeStr str s) = fold (term_put (COLOR s)) str (term_view s)"
  using assms by (induction str s rule: writeStr.induct)
    (simp_all add: view_writeChar writeChar_keeps)

text \<open>Memory outside the text page is never written.\<close>

lemma put_cell_page: "console_inv s \<Longrightarrow> a \<ge> 4000 \<Longrightarrow> vram (put_cell c s) a = vram s a"
  using cursor_unat [of s] VGA_OFF_eq [of s]
  by (auto simp: put_cell_def Let_def console_inv_def)

lemma scroll_page: "a \<ge> 4000 \<Longrightarrow> vram (scroll s) a = vram s a"
  by (simp add: vram_scroll)

lemma writeChar_page:
  assumes "console_inv s" "a \<ge> 4000"
  shows "vram (writeChar c s) a = vram s a"
proof -
  have fit: "vram (fit_cursor t) a = vram t a" for t :: "'a console_scheme"
    using assms(2) by (simp add: fit_cursor_def Let_def scroll_page)
  let ?b = "if cursorX s > 0 then s\<lparr>cursorX := cursorX s - 1\<rparr>
            else if cursorY s > 0 then s\<lparr>cursorY := cursorY s - 1, cursorX := 79\<rparr> else s"
  have "console_inv ?b"
    using assms(1) by (auto simp: console_inv_def word_less_nat_alt unat_pred_less)
  then show ?thesis
    using assms put_cell_page [of ?b a 32] put_cell_page [of s a c]
    by (auto simp: writeChar_shape Let_def fit split: if_splits)
qed

lemma writeStr_page: "console_inv s \<Longrightarrow> a \<ge> 4000 \<Longrightarrow> vram (writeStr str s) a = vram s a"
  by (induction str s rule: writeStr.induct) (simp_all add: writeChar_page writeChar_keeps)

text \<open>
  The four port writes of \<open>moveCursor\<close>: registers 0x0E and 0x0F of the CRT controller get the
  high and the low byte of the position, which for a cursor on the screen is \<open>y * 80 + x\<close>.
\<close>

lemma moveCursor_trace:
  "trace (moveCursor x y s) =
     [OutB 0x3D5 (ucast (ucast (y * 80 + x) :: u16)),
      OutB 0x3D4 0x0F,
      OutB 0x3D5 (ucast (drop_bit 8 (ucast (y * 80 + x) :: u16))),
      OutB 0x3D4 0x0E] @ trace s"
  by (simp add: moveCursor_def port_io_shape Let_def)

end
