(* ===== verification/Keyboard.thy ===== *)
theory Keyboard
  imports Console
begin

text \<open>
  The PS/2 keyboard driver of src/io.c: the scancode tables, the interrupt handler
  (\<open>keyboardHandler\<close>, the producer) and \<open>getInput\<close> (the consumer) over the ring buffer they
  share. The second half gives the ring as a bounded queue (an interface, stated as a locale and
  interpreted on the driver) and the modifier keys as a function of the scancode history.
\<close>

section \<open>State\<close>

text \<open>
  \<open>head\<close> and \<open>tail\<close> start at 0 and are only ever updated by \<open>(x + 1) % BUFFER_SIZE\<close>, so they are
  natural numbers; the flags are C integers.
\<close>

record keyboard = console +
  keyBuffer :: "nat \<Rightarrow> u8"
  head :: nat
  tail :: nat
  shiftActive :: u32
  capsLockActive :: u32
  controlActive :: u32
  eofTrigger :: u32
  blocking :: u32
  arrow :: u8

abbreviation BUFFER_SIZE :: nat where "BUFFER_SIZE \<equiv> 256"

definition keymap :: "u8 list" where
  "keymap =
     [0, 27] @ bytes ''1234567890-='' @ [8] @
     [9] @ bytes ''qwertyuiop[]'' @ [10] @
     [0] @ bytes ''asdfghjkl;'' @ [39, 96, 0] @
     [92] @ bytes ''zxcvbnm,./'' @ [0] @ bytes ''*'' @ [0] @ bytes '' '' @ replicate 70 0"

definition keymapShifted :: "u8 list" where
  "keymapShifted =
     [0, 27] @ bytes ''!@#$%^&*()_+'' @ [8] @
     [9] @ bytes ''QWERTYUIOP{}'' @ [10] @
     [0] @ bytes ''ASDFGHJKL:'' @ [34, 126, 0] @
     [124] @ bytes ''ZXCVBNM<>?'' @ [0] @ bytes ''*'' @ [0] @ bytes '' '' @ replicate 70 0"

lemma keymap_length [simp]: "length keymap = 128" "length keymapShifted = 128"
  by (simp_all add: keymap_def keymapShifted_def)

section \<open>The interrupt handler\<close>

text \<open>The "break" half: a key was released.\<close>

definition key_released :: "u8 \<Rightarrow> 'a keyboard_scheme \<Rightarrow> 'a keyboard_scheme" where
  "key_released released s =
     (let s1 = (if released = 0x2A \<or> released = 0x36 then s\<lparr>shiftActive := 0\<rparr> else s);
          s2 = (if released = 0x1D then s1\<lparr>controlActive := 0\<rparr> else s1)
      in if released = 0x48 \<or> released = 0x50 \<or> released = 0x4B \<or> released = 0x4D
         then s2\<lparr>arrow := 0\<rparr> else s2)"

text \<open>The letter with the control key held: 1 for A to 26 for Z, other keys unchanged.\<close>

definition control_char :: "u8 \<Rightarrow> u8" where
  "control_char baseChar =
     (if sint baseChar \<ge> 97 \<and> sint baseChar \<le> 122 then baseChar - 97 + 1
      else if sint baseChar \<ge> 65 \<and> sint baseChar \<le> 90 then baseChar - 65 + 1
      else baseChar)"

definition control_key :: "u8 \<Rightarrow> 'a keyboard_scheme \<Rightarrow> 'a keyboard_scheme" where
  "control_key scancode s =
     (let c = control_char (keymap ! unat scancode)
      in if c = 12 then clearScreen s
         else if c = 4 then s\<lparr>eofTrigger := 1\<rparr>
         else s)"

text \<open>The end of the handler: a character goes into the ring unless the ring is full.\<close>

definition put_key :: "u8 \<Rightarrow> 'a keyboard_scheme \<Rightarrow> 'a keyboard_scheme" where
  "put_key c s =
     (if sint c > 0 then
        (let next = (head s + 1) mod BUFFER_SIZE
         in if next \<noteq> tail s
            then s\<lparr>keyBuffer := (keyBuffer s)(head s := c), head := next\<rparr> else s)
      else s)"

text \<open>The "make" half: a key was pressed. The cases are the source's, in its order.\<close>

definition key_pressed :: "u8 \<Rightarrow> 'a keyboard_scheme \<Rightarrow> 'a keyboard_scheme" where
  "key_pressed scancode s =
     (if scancode = 0x2A \<or> scancode = 0x36 then s\<lparr>shiftActive := 1\<rparr>
      else if scancode = 0x3A then s\<lparr>capsLockActive := (if capsLockActive s = 0 then 1 else 0)\<rparr>
      else if scancode = 0x1D then s\<lparr>controlActive := 1\<rparr>
      else if scancode = 0x9D then s\<lparr>controlActive := 0\<rparr>
      else if scancode = 0x48 then s\<lparr>arrow := asc CHR ''u''\<rparr>
      else if scancode = 0x50 then s\<lparr>arrow := asc CHR ''d''\<rparr>
      else if scancode = 0x4B then s\<lparr>arrow := asc CHR ''l''\<rparr>
      else if scancode = 0x4D then s\<lparr>arrow := asc CHR ''r''\<rparr>
      else if controlActive s \<noteq> 0 then control_key scancode s
      else if (shiftActive s XOR capsLockActive s) \<noteq> 0
           then put_key (keymapShifted ! unat scancode) s
           else put_key (keymap ! unat scancode) s)"

definition keyboardHandler :: "device \<Rightarrow> 'a keyboard_scheme \<Rightarrow> 'a keyboard_scheme" where
  "keyboardHandler dev s =
     (let (scancode, s1) = inb dev 0x60 s;
          s2 = (if scancode AND 0x80 \<noteq> 0 then key_released (scancode AND 0x7F) s1
                else key_pressed scancode s1)
      in outb 0x20 0x20 s2)"

section \<open>The consumer\<close>

definition getInput :: "'a keyboard_scheme \<Rightarrow> u8 \<times> 'a keyboard_scheme" where
  "getInput s =
     (if head s = tail s then (0, s)
      else (keyBuffer s (tail s), s\<lparr>tail := (tail s + 1) mod BUFFER_SIZE\<rparr>))"

section \<open>The ring as a bounded queue\<close>

text \<open>What a producer and a consumer of keys may rely on.\<close>

locale key_queue =
  fixes enq :: "'e \<Rightarrow> 's \<Rightarrow> 's"
    and deq :: "'s \<Rightarrow> 'e \<times> 's"
    and contents :: "'s \<Rightarrow> 'e list"
    and capacity :: nat
    and none :: 'e
    and valid :: "'e \<Rightarrow> bool"
    and inv :: "'s \<Rightarrow> bool"
  assumes enq_inv: "inv s \<Longrightarrow> inv (enq x s)"
    and deq_inv: "inv s \<Longrightarrow> inv (snd (deq s))"
    and contents_enq: "inv s \<Longrightarrow> contents (enq x s) =
          (if valid x \<and> length (contents s) < capacity then contents s @ [x] else contents s)"
    and deq_empty: "inv s \<Longrightarrow> contents s = [] \<Longrightarrow> deq s = (none, s)"
    and deq_cons: "inv s \<Longrightarrow> contents s = x # xs \<Longrightarrow> fst (deq s) = x \<and> contents (snd (deq s)) = xs"
begin

fun deqs :: "nat \<Rightarrow> 's \<Rightarrow> 'e list" where
  "deqs 0 s = []"
| "deqs (Suc n) s = fst (deq s) # deqs n (snd (deq s))"

lemma contents_enqs:
  "inv s \<Longrightarrow> list_all valid xs \<Longrightarrow> length (contents s) \<le> capacity \<Longrightarrow>
     contents (fold enq xs s) = contents s @ take (capacity - length (contents s)) xs"
proof (induction xs arbitrary: s)
  case Nil
  then show ?case by simp
next
  case (Cons x xs)
  then show ?case
    by (cases "length (contents s) < capacity")
      (auto simp: enq_inv contents_enq take_Cons' not_less)
qed

lemma enqs_inv: "inv s \<Longrightarrow> inv (fold enq xs s)"
  by (induction xs arbitrary: s) (simp_all add: enq_inv)

lemma deqs_contents: "inv s \<Longrightarrow> deqs (length (contents s)) s = contents s"
proof (induction "contents s" arbitrary: s)
  case Nil
  then show ?case by simp
next
  case (Cons x xs)
  have "fst (deq s) = x" "contents (snd (deq s)) = xs"
    using deq_cons [OF Cons.prems] Cons.hyps(2) [symmetric] by auto
  then show ?case
    using Cons.hyps(1) [of "snd (deq s)"] Cons.hyps(2) [symmetric] deq_inv [OF Cons.prems] by simp
qed

lemma fifo:
  assumes "inv s" "contents s = []" "list_all valid xs" "length xs \<le> capacity"
  shows "deqs (length xs) (fold enq xs s) = xs"
  using contents_enqs [of s xs] deqs_contents [of "fold enq xs s"] enqs_inv [of s xs] assms
  by simp

end

definition keyboard_inv :: "'a keyboard_scheme \<Rightarrow> bool" where
  "keyboard_inv s \<longleftrightarrow> head s < BUFFER_SIZE \<and> tail s < BUFFER_SIZE"

text \<open>The characters that were typed and not read yet, oldest first.\<close>

definition ring_used :: "nat \<Rightarrow> nat \<Rightarrow> nat" where
  "ring_used h t = (if t \<le> h then h - t else h + 256 - t)"

definition ring_at :: "nat \<Rightarrow> nat \<Rightarrow> nat" where
  "ring_at t i = (if t + i < 256 then t + i else t + i - 256)"

definition pending :: "'a keyboard_scheme \<Rightarrow> u8 list" where
  "pending s = map (\<lambda>i. keyBuffer s (ring_at (tail s) i)) [0..<ring_used (head s) (tail s)]"

definition printable :: "u8 \<Rightarrow> bool" where
  "printable c \<longleftrightarrow> sint c > 0"


lemma ring_succ: "h < 256 \<Longrightarrow> (h + 1) mod 256 = (if h = 255 then 0 else h + 1 :: nat)"
  by simp

lemma ring_full:
  assumes "h < 256" "t < 256"
  shows "(h + 1) mod 256 \<noteq> t \<longleftrightarrow> ring_used h t < 255"
  unfolding ring_succ [OF assms(1)] ring_used_def using assms by auto

lemma ring_grow:
  assumes "h < 256" "t < 256" "(h + 1) mod 256 \<noteq> t"
  shows "ring_used ((h + 1) mod 256) t = Suc (ring_used h t)" "ring_at t (ring_used h t) = h"
  using assms unfolding ring_succ [OF assms(1)] ring_used_def ring_at_def by auto

lemma ring_shrink:
  assumes "h < 256" "t < 256" "h \<noteq> t"
  shows "ring_used h t = Suc (ring_used h ((t + 1) mod 256))"
    and "i < ring_used h ((t + 1) mod 256) \<Longrightarrow> ring_at ((t + 1) mod 256) i = ring_at t (Suc i)"
  using assms unfolding ring_succ [OF assms(2)] ring_used_def ring_at_def
  by (auto split: if_splits)

lemma ring_distinct:
  assumes "h < 256" "t < 256" "i < ring_used h t"
  shows "ring_at t i \<noteq> h"
  using assms unfolding ring_used_def ring_at_def by (auto split: if_splits)

lemma put_key_keeps [keeps]: "keyboard_inv s \<Longrightarrow> keyboard_inv (put_key c s)"
  by (simp add: keyboard_inv_def put_key_def Let_def)

lemma length_pending [simp]: "length (pending s) = ring_used (head s) (tail s)"
  by (simp add: pending_def)

lemma pending_put_key:
  assumes "keyboard_inv s"
  shows "pending (put_key c s) =
     (if printable c \<and> length (pending s) < 255 then pending s @ [c] else pending s)"
proof -
  have h: "head s < 256" and t: "tail s < 256" using assms by (simp_all add: keyboard_inv_def)
  let ?n = "ring_used (head s) (tail s)"
  have old: "map (\<lambda>i. ((keyBuffer s)(head s := c)) (ring_at (tail s) i)) [0..<?n] = pending s"
    unfolding pending_def using ring_distinct [OF h t] by (auto intro!: map_cong)
  show ?thesis
  proof (cases "printable c \<and> ?n < 255")
    case True
    then have free: "(head s + 1) mod 256 \<noteq> tail s" using ring_full [OF h t] by simp
    from True free have "put_key c s =
        s\<lparr>keyBuffer := (keyBuffer s)(head s := c), head := (head s + 1) mod 256\<rparr>"
      by (simp add: put_key_def printable_def Let_def)
    then have "pending (put_key c s) =
        map (\<lambda>i. ((keyBuffer s)(head s := c)) (ring_at (tail s) i)) [0..<Suc ?n]"
      using ring_grow [OF h t free] by (simp add: pending_def del: upt_Suc)
    also have "\<dots> = pending s @ [c]"
      using old ring_grow [OF h t free] by simp
    finally show ?thesis using True by simp
  next
    case False
    then have "put_key c s = s"
      using ring_full [OF h t] by (auto simp: put_key_def printable_def Let_def)
    with False show ?thesis by auto
  qed
qed

lemma getInput_keeps [keeps]: "keyboard_inv s \<Longrightarrow> keyboard_inv (snd (getInput s))"
  by (simp add: keyboard_inv_def getInput_def)

lemma getInput_empty: "pending s = [] \<Longrightarrow> keyboard_inv s \<Longrightarrow> getInput s = (0, s)"
  by (auto simp: pending_def getInput_def keyboard_inv_def ring_used_def split: if_splits)

lemma getInput_pending:
  assumes "keyboard_inv s" "pending s = c # cs"
  shows "fst (getInput s) = c" "pending (snd (getInput s)) = cs"
proof -
  have h: "head s < 256" and t: "tail s < 256" using assms by (simp_all add: keyboard_inv_def)
  have ne: "head s \<noteq> tail s"
  proof
    assume "head s = tail s"
    then have "pending s = []" by (simp add: pending_def ring_used_def)
    with assms(2) show False by simp
  qed
  let ?t = "(tail s + 1) mod 256" and ?n = "ring_used (head s) ((tail s + 1) mod 256)"
  have "pending s = keyBuffer s (ring_at (tail s) 0) # map (\<lambda>i. keyBuffer s (ring_at (tail s) (Suc i))) [0..<?n]"
    unfolding pending_def ring_shrink(1) [OF h t ne] upt_conv_Cons [OF zero_less_Suc]
    by (simp add: map_Suc_upt [symmetric] o_def del: upt_Suc)
  also have "\<dots> = keyBuffer s (tail s) # map (\<lambda>i. keyBuffer s (ring_at ?t i)) [0..<?n]"
    using ring_shrink(2) [OF h t ne] t by (auto simp: ring_at_def)
  finally show "fst (getInput s) = c" "pending (snd (getInput s)) = cs"
    using assms(2) ne by (simp_all add: getInput_def pending_def)
qed

interpretation keys: key_queue put_key getInput pending 255 0 printable keyboard_inv
proof unfold_locales
  fix s :: "'a keyboard_scheme" and c x xs
  assume inv: "keyboard_inv s"
  show "keyboard_inv (put_key c s)" "keyboard_inv (snd (getInput s))"
    using inv by (simp_all add: keeps)
  show "pending (put_key c s) =
      (if printable c \<and> length (pending s) < 255 then pending s @ [c] else pending s)"
    by (rule pending_put_key [OF inv])
  show "pending s = [] \<Longrightarrow> getInput s = (0, s)"
    using inv by (simp add: getInput_empty)
  show "pending s = x # xs \<Longrightarrow> fst (getInput s) = x \<and> pending (snd (getInput s)) = xs"
    using getInput_pending [OF inv] by simp
qed


section \<open>What one interrupt does\<close>

text \<open>The character a make code stands for, under the modifiers of the state, if it has one.\<close>

definition modifier_key :: "u8 \<Rightarrow> bool" where
  "modifier_key k \<longleftrightarrow> k \<in> {0x2A, 0x36, 0x3A, 0x1D, 0x48, 0x50, 0x4B, 0x4D}"

definition typed :: "'a keyboard_scheme \<Rightarrow> u8 \<Rightarrow> u8 option" where
  "typed s k =
     (if k AND 0x80 \<noteq> 0 \<or> modifier_key k \<or> controlActive s \<noteq> 0 then None
      else let c = (if shiftActive s = capsLockActive s then keymap else keymapShifted) ! unat k
           in if printable c then Some c else None)"

lemma make_code_not_9D: "(k AND 0x80 :: u8) = 0 \<Longrightarrow> k \<noteq> 0x9D"
  by auto

lemma bit_and_pow: "(k :: u8) AND 2 ^ n = of_bool (bit k n) * 2 ^ n"
  by (rule bit_word_eqI) (auto simp: bit_simps)

lemma release_code:
  assumes "(k AND 0x80 :: u8) \<noteq> 0"
  shows "k AND 0x7F = x \<longleftrightarrow> k = x OR 0x80 \<and> x AND 0x80 = 0"
proof -
  have hi: "k AND 0x80 = 0x80"
    using assms bit_and_pow [of k 7] by (cases "bit k 7") simp_all
  have "k = (k AND 0x7F) OR (k AND 0x80)"
    by (simp flip: bit.conj_disj_distrib)
  then have k: "k = (k AND 0x7F) OR 0x80" by (simp only: hi)
  have "(k AND 0x7F) AND 0x80 = 0" by (simp add: and.assoc)
  moreover have "(x OR 0x80) AND 0x7F = x" if "x AND 0x80 = 0"
  proof -
    have "x = (x AND 0x7F) OR (x AND 0x80)" by (simp flip: bit.conj_disj_distrib)
    then have "x = x AND 0x7F" by (simp only: that) simp
    then show ?thesis by (simp add: bit.conj_disj_distrib2)
  qed
  ultimately show ?thesis using k by metis
qed

lemma key_released_frame [frame, simp]:
  "pending (key_released k s) = pending s"
  "keyboard_inv (key_released k s) = keyboard_inv s"
  "console_inv (key_released k s) = console_inv s"
  "trace (key_released k s) = trace s"
  "capsLockActive (key_released k s) = capsLockActive s"
  by (simp_all add: key_released_def Let_def pending_def keyboard_inv_def console_inv_def)

lemma clearScreen_keys [frame, simp]:
  "keyBuffer (clearScreen s) = keyBuffer s" "head (clearScreen s) = head s"
  "tail (clearScreen s) = tail s" "shiftActive (clearScreen s) = shiftActive s"
  "capsLockActive (clearScreen s) = capsLockActive s"
  "controlActive (clearScreen s) = controlActive s"
  "eofTrigger (clearScreen s) = eofTrigger s" "arrow (clearScreen s) = arrow s"
  "blocking (clearScreen s) = blocking s"
  by (simp_all add: clearScreen_def moveCursor_def port_io_shape Let_def)

lemma pending_simps [simp]:
  "pending (clearScreen s) = pending s"
  "pending (s\<lparr>eofTrigger := e\<rparr>) = pending s"
  "pending (s\<lparr>shiftActive := e\<rparr>) = pending s"
  "pending (s\<lparr>capsLockActive := e\<rparr>) = pending s"
  "pending (s\<lparr>controlActive := e\<rparr>) = pending s"
  "pending (s\<lparr>arrow := a\<rparr>) = pending s"
  "pending (s\<lparr>trace := tr\<rparr>) = pending s"
  by (simp_all add: pending_def)

lemma put_key_frame [frame, simp]:
  "console_inv (put_key c s) = console_inv s"
  "trace (put_key c s) = trace s"
  "shiftActive (put_key c s) = shiftActive s"
  "capsLockActive (put_key c s) = capsLockActive s"
  "controlActive (put_key c s) = controlActive s"
  "arrow (put_key c s) = arrow s"
  "eofTrigger (put_key c s) = eofTrigger s"
  by (simp_all add: put_key_def Let_def console_inv_def)

lemma put_key_not_printable: "\<not> printable c \<Longrightarrow> put_key c s = s"
  by (simp add: put_key_def printable_def)

lemma pending_key_pressed:
  assumes "keyboard_inv s" "k AND 0x80 = 0"
  shows "pending (key_pressed k s) =
     (case typed s k of
        Some c \<Rightarrow> if length (pending s) < 255 then pending s @ [c] else pending s
      | None \<Rightarrow> pending s)"
proof -
  have xor: "shiftActive s XOR capsLockActive s \<noteq> 0 \<longleftrightarrow> shiftActive s \<noteq> capsLockActive s"
    by (simp add: bit_eq_iff [of "shiftActive s"] bit_eq_iff [of _ 0] bit_simps)
  consider (mod) "modifier_key k" | (ctrl) "\<not> modifier_key k" "controlActive s \<noteq> 0"
    | (char) "\<not> modifier_key k" "controlActive s = 0" by blast
  then show ?thesis
  proof cases
    case mod
    then show ?thesis by (auto simp: modifier_key_def typed_def key_pressed_def)
  next
    case ctrl
    then have "key_pressed k s = control_key k s"
      using make_code_not_9D [OF assms(2)] by (simp add: modifier_key_def key_pressed_def)
    with ctrl show ?thesis by (simp add: typed_def control_key_def Let_def)
  next
    case char
    let ?c = "(if shiftActive s = capsLockActive s then keymap else keymapShifted) ! unat k"
    have "key_pressed k s = put_key ?c s"
      using char make_code_not_9D [OF assms(2)] xor by (simp add: modifier_key_def key_pressed_def)
    moreover have "typed s k = (if printable ?c then Some ?c else None)"
      using char assms(2) by (simp add: typed_def Let_def)
    ultimately show ?thesis using pending_put_key [OF assms(1), of ?c] by simp
  qed
qed

lemma keyboardHandler_shape:
  "keyboardHandler dev s =
     (let k = ucast (dev (trace s) 0x60) :: u8; s1 = s\<lparr>trace := InB 0x60 k # trace s\<rparr>
      in outb 0x20 0x20 (if k AND 0x80 \<noteq> 0 then key_released (k AND 0x7F) s1
                         else key_pressed k s1))"
  by (simp add: keyboardHandler_def port_io_shape Let_def)

text \<open>The interrupt adds to the queue exactly the typed character, when there is room for it.\<close>

lemma pending_keyboardHandler:
  assumes "keyboard_inv s"
  shows "pending (keyboardHandler dev s) =
     (case typed s (ucast (dev (trace s) 0x60)) of
        Some c \<Rightarrow> if length (pending s) < 255 then pending s @ [c] else pending s
      | None \<Rightarrow> pending s)"
proof -
  let ?k = "ucast (dev (trace s) 0x60) :: u8"
  let ?s = "s\<lparr>trace := InB 0x60 ?k # trace s\<rparr>"
  have "keyboard_inv ?s" "typed ?s ?k = typed s ?k"
    using assms by (simp_all add: keyboard_inv_def typed_def)
  then show ?thesis
    using pending_key_pressed [of ?s ?k]
    by (auto simp: keyboardHandler_shape Let_def port_io_shape typed_def split: option.splits)
qed

lemma keyboardHandler_keeps [keeps]:
  "keyboard_inv s \<Longrightarrow> keyboard_inv (keyboardHandler dev s)"
  "console_inv s \<Longrightarrow> console_inv (keyboardHandler dev s)"
  using put_key_keeps [of s]
  by (auto simp: keyboardHandler_shape key_pressed_def control_key_def key_released_def Let_def
      port_io_shape keyboard_inv_def console_inv_def put_key_def split: if_splits)

section \<open>Modifier keys as a function of the scancode history\<close>

text \<open>The scancodes read so far, newest first.\<close>

fun scancodes :: "event list \<Rightarrow> u8 list" where
  "scancodes [] = []"
| "scancodes (InB p v # tr) = (if p = 0x60 then v # scancodes tr else scancodes tr)"
| "scancodes (_ # tr) = scancodes tr"

fun shift_held :: "u8 list \<Rightarrow> bool" where
  "shift_held [] = False"
| "shift_held (k # ks) =
     (if k = 0x2A \<or> k = 0x36 then True else if k = 0xAA \<or> k = 0xB6 then False else shift_held ks)"

fun control_held :: "u8 list \<Rightarrow> bool" where
  "control_held [] = False"
| "control_held (k # ks) = (if k = 0x1D then True else if k = 0x9D then False else control_held ks)"

definition caps_on :: "u8 list \<Rightarrow> bool" where
  "caps_on ks \<longleftrightarrow> odd (count_list ks 0x3A)"

fun arrow_held :: "u8 list \<Rightarrow> u8" where
  "arrow_held [] = 0"
| "arrow_held (k # ks) =
     (if k = 0x48 then asc CHR ''u'' else if k = 0x50 then asc CHR ''d''
      else if k = 0x4B then asc CHR ''l'' else if k = 0x4D then asc CHR ''r''
      else if k \<in> {0xC8, 0xD0, 0xCB, 0xCD} then 0 else arrow_held ks)"

definition modifiers_ok :: "'a keyboard_scheme \<Rightarrow> bool" where
  "modifiers_ok s \<longleftrightarrow>
     shiftActive s = of_bool (shift_held (scancodes (trace s))) \<and>
     controlActive s = of_bool (control_held (scancodes (trace s))) \<and>
     capsLockActive s = of_bool (caps_on (scancodes (trace s))) \<and>
     arrow s = arrow_held (scancodes (trace s))"


lemma put_key_scancodes [frame, simp]:
  "scancodes (trace (clearScreen s)) = scancodes (trace s)"
  by (simp add: clearScreen_def moveCursor_def port_io_shape Let_def)

lemma control_key_frame [frame, simp]:
  "shiftActive (control_key k s) = shiftActive s"
  "capsLockActive (control_key k s) = capsLockActive s"
  "controlActive (control_key k s) = controlActive s"
  "arrow (control_key k s) = arrow s"
  "scancodes (trace (control_key k s)) = scancodes (trace s)"
  by (simp_all add: control_key_def Let_def)

lemma key_released_fields:
  assumes "k AND 0x80 \<noteq> 0"
  shows "shiftActive (key_released (k AND 0x7F) s) = (if k = 0xAA \<or> k = 0xB6 then 0 else shiftActive s)"
    and "controlActive (key_released (k AND 0x7F) s) = (if k = 0x9D then 0 else controlActive s)"
    and "arrow (key_released (k AND 0x7F) s) = (if k \<in> {0xC8, 0xD0, 0xCB, 0xCD} then 0 else arrow s)"
  by (auto simp: key_released_def Let_def release_code [OF assms])

lemma key_pressed_fields:
  assumes "k AND 0x80 = 0"
  shows "shiftActive (key_pressed k s) = (if k = 0x2A \<or> k = 0x36 then 1 else shiftActive s)"
    and "capsLockActive (key_pressed k s) =
           (if k = 0x3A then (if capsLockActive s = 0 then 1 else 0) else capsLockActive s)"
    and "controlActive (key_pressed k s) = (if k = 0x1D then 1 else controlActive s)"
    and "arrow (key_pressed k s) =
           (if k = 0x48 then asc CHR ''u'' else if k = 0x50 then asc CHR ''d''
            else if k = 0x4B then asc CHR ''l'' else if k = 0x4D then asc CHR ''r'' else arrow s)"
    and "scancodes (trace (key_pressed k s)) = scancodes (trace s)"
  using make_code_not_9D [OF assms] by (simp_all add: key_pressed_def)

lemma caps_on_Cons: "caps_on (k # ks) = (if k = 0x3A then \<not> caps_on ks else caps_on ks)"
  by (simp add: caps_on_def)

lemma history_release:
  assumes "k AND 0x80 \<noteq> 0"
  shows "shift_held (k # ks) = (if k = 0xAA \<or> k = 0xB6 then False else shift_held ks)"
    and "control_held (k # ks) = (if k = 0x9D then False else control_held ks)"
    and "caps_on (k # ks) = caps_on ks"
    and "arrow_held (k # ks) = (if k \<in> {0xC8, 0xD0, 0xCB, 0xCD} then 0 else arrow_held ks)"
  using assms by (auto simp: caps_on_Cons)

lemma history_press:
  assumes "k AND 0x80 = 0"
  shows "shift_held (k # ks) = (if k = 0x2A \<or> k = 0x36 then True else shift_held ks)"
    and "control_held (k # ks) = (if k = 0x1D then True else control_held ks)"
    and "arrow_held (k # ks) =
           (if k = 0x48 then asc CHR ''u'' else if k = 0x50 then asc CHR ''d''
            else if k = 0x4B then asc CHR ''l'' else if k = 0x4D then asc CHR ''r'' else arrow_held ks)"
  using assms by auto

lemma modifiers_keyboardHandler [keeps]:
  assumes "modifiers_ok s"
  shows "modifiers_ok (keyboardHandler dev s)"
proof -
  let ?k = "ucast (dev (trace s) 0x60) :: u8"
  let ?s = "s\<lparr>trace := InB 0x60 ?k # trace s\<rparr>"
  let ?r = "key_released (?k AND 0x7F) ?s" and ?p = "key_pressed ?k ?s"
  let ?ks = "scancodes (trace s)"
  have old: "shiftActive s = of_bool (shift_held ?ks)" "controlActive s = of_bool (control_held ?ks)"
    "capsLockActive s = of_bool (caps_on ?ks)" "arrow s = arrow_held ?ks"
    using assms by (simp_all add: modifiers_ok_def)
  show ?thesis
  proof (cases "?k AND 0x80 = 0")
    case True
    have "scancodes (trace ?p) = ?k # ?ks" by (simp only: key_pressed_fields(5) [OF True]) simp
    then have "modifiers_ok ?p"
      unfolding modifiers_ok_def
      by (simp only: key_pressed_fields [OF True] history_press [OF True] caps_on_Cons)
        (simp add: old)
    then show ?thesis
      using True by (simp add: keyboardHandler_shape Let_def port_io_shape modifiers_ok_def)
  next
    case False
    have "scancodes (trace ?r) = ?k # ?ks" by simp
    then have "modifiers_ok ?r"
      unfolding modifiers_ok_def
      by (simp only: key_released_fields [OF False] history_release [OF False] key_released_frame)
        (simp add: old)
    then show ?thesis
      using False by (simp add: keyboardHandler_shape Let_def port_io_shape modifiers_ok_def)
  qed
qed

text \<open>Every interrupt is acknowledged, once, and last.\<close>

definition eoi_count :: "event list \<Rightarrow> nat" where
  "eoi_count tr = count_list tr (OutB 0x20 0x20)"

lemma eoi_clearScreen: "eoi_count (trace (clearScreen s)) = eoi_count (trace s)"
  by (simp add: eoi_count_def clearScreen_def moveCursor_trace)

lemma eoi_keyboardHandler:
  "hd (trace (keyboardHandler dev s)) = OutB 0x20 0x20 \<and>
   eoi_count (trace (keyboardHandler dev s)) = Suc (eoi_count (trace s))"
proof -
  have "eoi_count (trace (key_pressed k t)) = eoi_count (trace t)" for k and t :: "'a keyboard_scheme"
    by (simp add: key_pressed_def control_key_def Let_def eoi_clearScreen)
  then show ?thesis
    by (simp add: keyboardHandler_shape Let_def port_io_shape eoi_count_def)
qed

end
