(* ===== verification/Format.thy ===== *)
theory Format
  imports Keyboard
begin

text \<open>
  Formatted output and input of src/io.c: \<open>atoi\<close>, \<open>intToStr\<close>, \<open>hexToStr\<close>, the formatter
  \<open>vsfmtWrite\<close> and the scanner \<open>vsfmtGet\<close> with their front ends, and the line editor inside
  \<open>fmtGet\<close>. A C string argument is the list of its bytes (the NUL is the end of the list); the
  variable arguments are the list of the values passed.
\<close>

section \<open>Numbers to text and back\<close>

definition is_digit :: "u8 \<Rightarrow> bool" where
  "is_digit c \<longleftrightarrow> sint c \<ge> 48 \<and> sint c \<le> 57"

fun atoi_digits :: "u8 list \<Rightarrow> u32 \<Rightarrow> u32" where
  "atoi_digits [] res = res"
| "atoi_digits (c # cs) res =
     (if is_digit c then atoi_digits cs (res * 10 + (scast c - 48)) else res)"

definition atoi :: "u8 list \<Rightarrow> u32" where
  "atoi s =
     (case s of
        [] \<Rightarrow> 0
      | c # cs \<Rightarrow> if c = asc CHR ''-'' then atoi_digits cs 0 * (- 1) else atoi_digits s 0 * 1)"

text \<open>The digits as the loop stores them in \<open>tmp\<close>, lowest first; \<open>n\<close> is positive in the loop.\<close>

function dec_digits :: "int \<Rightarrow> u8 list" where
  "dec_digits n = (if n > 0 then (word_of_int (n mod 10) + 48) # dec_digits (n div 10) else [])"
  by pat_completeness auto
termination
  by (relation "measure nat") auto

declare dec_digits.simps [simp del]

definition intToStr :: "u32 \<Rightarrow> u8 list" where
  "intToStr n =
     (if n = 0 then [asc CHR ''0'']
      else if sint n < 0 then asc CHR ''-'' # rev (dec_digits (sint (- n)))
      else rev (dec_digits (sint n)))"

definition hexChars :: "u8 list" where
  "hexChars = bytes ''0123456789ABCDEF''"

function hex_digits :: "nat \<Rightarrow> u8 list" where
  "hex_digits n = (if n > 0 then hexChars ! (n mod 16) # hex_digits (n div 16) else [])"
  by pat_completeness auto
termination
  by (relation "measure id") auto

declare hex_digits.simps [simp del]

function hex_pad :: "u8 list \<Rightarrow> int \<Rightarrow> u8 list" where
  "hex_pad tmp width =
     (if int (length tmp) < width \<and> length tmp < 8 then hex_pad (tmp @ [asc CHR ''0'']) width else tmp)"
  by pat_completeness auto
termination
  by (relation "measure (\<lambda>(tmp, width). 8 - length tmp)") auto

declare hex_pad.simps [simp del]

definition hexToStr :: "u32 \<Rightarrow> u32 \<Rightarrow> u8 list" where
  "hexToStr n width =
     (let tmp = (if n = 0 then [asc CHR ''0''] else hex_digits (unat n))
      in rev (hex_pad tmp (sint width)))"

section \<open>The formatter\<close>

datatype fmt_arg = ArgStr "u8 list" | ArgInt u32

fun read_width :: "u8 list \<Rightarrow> u32 \<Rightarrow> u32 \<times> u8 list" where
  "read_width [] w = (w, [])"
| "read_width (c # cs) w =
     (if is_digit c then read_width cs (w * 10 + (scast c - 48)) else (w, c # cs))"

lemma read_width_length: "length (snd (read_width cs w)) \<le> length cs"
  by (induction cs w rule: read_width.induct) auto

text \<open>The flag and the width after a percent sign: the pad character, the width, what follows.\<close>

definition conversion :: "u8 list \<Rightarrow> u8 \<times> u32 \<times> u8 list" where
  "conversion cs =
     (case cs of
        [] \<Rightarrow> (asc CHR '' '', 0, [])
      | c # cs' \<Rightarrow>
          if c = asc CHR ''0'' then (asc CHR ''0'', read_width cs' 0)
          else (asc CHR '' '', read_width cs 0))"

lemma conversion_length: "length (snd (snd (conversion cs))) \<le> length cs"
  using read_width_length [of "tl cs" 0] read_width_length [of cs 0]
  by (auto simp: conversion_def split: list.splits)

lemma conversion_shorter:
  "(p, w, d # rest) = conversion cs \<Longrightarrow> length rest < length cs"
  using conversion_length [of cs] by (metis Suc_le_lessD length_Cons snd_conv)

text \<open>
  \<open>va_arg\<close> of a type the caller did not pass, or past the last argument, reads a word that
  is not an argument: a bad pointer. The text of one conversion is put before the rest.
\<close>

function vsfmtWrite :: "u8 list \<Rightarrow> fmt_arg list \<Rightarrow> fault + u8 list" where
  "vsfmtWrite [] args = Inr []"
| "vsfmtWrite (c # cs) args =
     (if c = 0 then Inr []
      else if c \<noteq> asc CHR ''%'' then bindR (vsfmtWrite cs args) (\<lambda>out. Inr (c # out))
      else
        (let (padChar, width, cs') = conversion cs
         in case cs' of
              [] \<Rightarrow> Inl OutOfBounds
            | d # rest \<Rightarrow>
                if d = 0 then Inl OutOfBounds
                else if d = asc CHR ''s'' then
                  (case args of
                     ArgStr s # args' \<Rightarrow>
                       bindR (vsfmtWrite rest args') (\<lambda>out. Inr (takeWhile (\<lambda>x. x \<noteq> 0) s @ out))
                   | _ \<Rightarrow> Inl BadPointer)
                else if d = asc CHR ''d'' then
                  (case args of
                     ArgInt n # args' \<Rightarrow>
                       (let tmp = intToStr n
                        in bindR (vsfmtWrite rest args')
                             (\<lambda>out. Inr (replicate (nat (sint width) - length tmp) padChar @ tmp @ out)))
                   | _ \<Rightarrow> Inl BadPointer)
                else if d = asc CHR ''c'' then
                  (case args of
                     ArgInt n # args' \<Rightarrow> bindR (vsfmtWrite rest args') (\<lambda>out. Inr (ucast n # out))
                   | _ \<Rightarrow> Inl BadPointer)
                else if d = asc CHR ''x'' then
                  (case args of
                     ArgInt n # args' \<Rightarrow>
                       bindR (vsfmtWrite rest args') (\<lambda>out. Inr (hexToStr n width @ out))
                   | _ \<Rightarrow> Inl BadPointer)
                else if d = asc CHR ''%'' then
                  bindR (vsfmtWrite rest args) (\<lambda>out. Inr (asc CHR ''%'' # out))
                else vsfmtWrite rest args))"
  by pat_completeness auto
termination
  by (relation "measure (\<lambda>(fmt, args). length fmt)") (auto dest: conversion_shorter)

declare vsfmtWrite.simps(2) [simp del]

definition sfmtWrite :: "u8 list \<Rightarrow> fmt_arg list \<Rightarrow> fault + u8 list" where
  "sfmtWrite fmt args = bindR (vsfmtWrite fmt args) (\<lambda>out. Inr (out @ [0]))"

text \<open>\<open>fmtWrite\<close> formats into a local buffer of 256 bytes, NUL included, and prints it.\<close>

definition fmtWrite ::
  "u8 list \<Rightarrow> fmt_arg list \<Rightarrow> 'a console_scheme \<Rightarrow> fault + 'a console_scheme" where
  "fmtWrite fmt args s =
     bindR (vsfmtWrite fmt args)
       (\<lambda>buf. if length buf < 256 then Inr (writeStr buf s) else Inl OutOfBounds)"

section \<open>The scanner\<close>

text \<open>What the scanner stores through its pointer arguments, in order.\<close>

datatype fmt_got = GotInt u32 | GotStr "u8 list" | GotChar u8

fun skip_digits :: "u8 list \<Rightarrow> u8 list" where
  "skip_digits [] = []"
| "skip_digits (c # cs) = (if is_digit c then skip_digits cs else c # cs)"

definition skip_int :: "u8 list \<Rightarrow> u8 list" where
  "skip_int s = (case s of [] \<Rightarrow> [] | c # cs \<Rightarrow> skip_digits (if c = asc CHR ''-'' then cs else s))"

text \<open>
  \<open>src\<close> is the memory of the source string from the current position on, its NUL included: the
  end of the list is past the string.
\<close>

fun vsfmtGet :: "u8 list \<Rightarrow> u8 list \<Rightarrow> fault + fmt_got list" where
  "vsfmtGet src [] = Inr []"
| "vsfmtGet src [c] =
     (if c = asc CHR ''%'' then Inl OutOfBounds
      else case src of [] \<Rightarrow> Inl OutOfBounds | x # xs \<Rightarrow> Inr [])"
| "vsfmtGet src (c # d # cs) =
     (if c = asc CHR ''%'' then
        (if d = asc CHR ''d'' then
           (if src = [] then Inl OutOfBounds
            else bindR (vsfmtGet (skip_int src) cs) (\<lambda>gs. Inr (GotInt (atoi src) # gs)))
         else if d = asc CHR ''s'' then
           (if 0 \<in> set src then
              bindR (vsfmtGet (dropWhile (\<lambda>b. b \<noteq> 0) src) cs)
                (\<lambda>gs. Inr (GotStr (takeWhile (\<lambda>b. b \<noteq> 0) src) # gs))
            else Inl OutOfBounds)
         else if d = asc CHR ''c'' then
           (case src of
              [] \<Rightarrow> Inl OutOfBounds
            | x # xs \<Rightarrow> bindR (vsfmtGet xs cs) (\<lambda>gs. Inr (GotChar x # gs)))
         else vsfmtGet src cs)
      else
        (case src of
           [] \<Rightarrow> Inl OutOfBounds
         | x # xs \<Rightarrow> if x = c then vsfmtGet xs (d # cs) else vsfmtGet src (d # cs)))"

definition sfmtGet :: "u8 list \<Rightarrow> u8 list \<Rightarrow> fault + fmt_got list" where
  "sfmtGet src fmt = vsfmtGet (src @ [0]) fmt"

section \<open>The line editor of fmtGet\<close>

text \<open>
  The loop polls the key queue. \<open>polls\<close> is the schedule of the keyboard: the number of keyboard
  interrupts taken before each poll. When the schedule is used up and the line is not complete the
  loop is still waiting: \<open>Blocked\<close>. \<open>line\<close> is the filled part of \<open>input_buf\<close>, which has 256 bytes.
\<close>

definition interrupts :: "device \<Rightarrow> nat \<Rightarrow> 'a keyboard_scheme \<Rightarrow> 'a keyboard_scheme" where
  "interrupts dev n = (keyboardHandler dev ^^ n)"

fun fmtGet_loop ::
  "device \<Rightarrow> nat list \<Rightarrow> u8 list \<Rightarrow> 'a keyboard_scheme \<Rightarrow> fault + u8 list \<times> 'a keyboard_scheme" where
  "fmtGet_loop dev [] line s = Inl Blocked"
| "fmtGet_loop dev (n # polls) line s =
     (let (c, s1) = getInput (interrupts dev n s)
      in if c = 0 then
           (if eofTrigger s1 \<noteq> 0 then Inr (line, writeChar (asc CHR ''\<newline>'') s1)
            else fmtGet_loop dev polls line s1)
         else if c = asc CHR ''\<newline>'' \<and> blocking s1 \<noteq> 0 then
           Inr (line, writeChar (asc CHR ''\<newline>'') s1)
         else if c = asc CHR ''\<newline>'' \<and> blocking s1 = 0 then
           (if length line < 256
            then fmtGet_loop dev polls (line @ [c]) (writeChar (asc CHR ''\<newline>'') s1)
            else Inl OutOfBounds)
         else if c = 8 then
           (if length line > 0 then fmtGet_loop dev polls (butlast line) (writeChar 8 s1)
            else fmtGet_loop dev polls line s1)
         else if length line < 255 then fmtGet_loop dev polls (line @ [c]) (writeChar c s1)
         else fmtGet_loop dev polls line s1)"

definition fmtGet ::
  "device \<Rightarrow> nat list \<Rightarrow> u8 list \<Rightarrow> 'a keyboard_scheme \<Rightarrow> fault + fmt_got list \<times> 'a keyboard_scheme" where
  "fmtGet dev polls fmt s =
     bindR (fmtGet_loop dev polls [] s)
       (\<lambda>(line, s1).
          if length line < 256
          then bindR (vsfmtGet (line @ [0]) fmt) (\<lambda>gs. Inr (gs, s1\<lparr>eofTrigger := 0\<rparr>))
          else Inl OutOfBounds)"


section \<open>Decimal numbers\<close>

lemma dec_digits_0 [simp]: "n \<le> 0 \<Longrightarrow> dec_digits n = []"
  by (subst dec_digits.simps) simp

lemma dec_digits_step: "n > 0 \<Longrightarrow> dec_digits n = (word_of_int (n mod 10) + 48) # dec_digits (n div 10)"
  by (subst dec_digits.simps) simp

lemma digit_byte:
  assumes "0 \<le> d" "d < 10"
  shows "sint (word_of_int d + 48 :: u8) = d + 48"
    and "(scast (word_of_int d + 48 :: u8) :: u32) = word_of_int d + 48"
    and "is_digit (word_of_int d + 48)"
proof -
  have w: "(word_of_int d + 48 :: u8) = word_of_int (d + 48)" by simp
  show s: "sint (word_of_int d + 48 :: u8) = d + 48"
    unfolding w using assms by (simp only: signed_of_int) (simp add: signed_take_bit_int_eq_self)
  then show "is_digit (word_of_int d + 48)" using assms by (simp add: is_digit_def)
  show "(scast (word_of_int d + 48 :: u8) :: u32) = word_of_int d + 48"
    using s by (metis of_int_add of_int_numeral scast_eq)
qed

lemma dec_digits_are_digits: "list_all is_digit (dec_digits n)"
proof (induction n rule: dec_digits.induct)
  case (1 n)
  then show ?case by (cases "n > 0") (simp_all add: dec_digits_step digit_byte)
qed

lemma atoi_digits_append:
  "list_all is_digit xs \<Longrightarrow> atoi_digits (xs @ ys) r = atoi_digits ys (atoi_digits xs r)"
  by (induction xs arbitrary: r) auto

lemma atoi_digits_stop: "list_all is_digit xs \<Longrightarrow> \<not> is_digit c \<Longrightarrow> atoi_digits (xs @ c # ys) r = atoi_digits xs r"
  by (simp add: atoi_digits_append)

lemma atoi_dec_digits: "n \<ge> 0 \<Longrightarrow> atoi_digits (rev (dec_digits n)) 0 = word_of_int n"
proof (induction n rule: dec_digits.induct)
  case (1 n)
  show ?case
  proof (cases "n > 0")
    case True
    let ?q = "n div 10" and ?d = "n mod 10"
    have "atoi_digits (rev (dec_digits n)) 0 =
        atoi_digits (rev (dec_digits ?q)) 0 * 10 + (scast (word_of_int ?d + 48 :: u8) - 48)"
      using True dec_digits_are_digits [of ?q]
      by (simp add: dec_digits_step atoi_digits_append digit_byte)
    also have "\<dots> = word_of_int ?q * 10 + (word_of_int ?d + 48 - 48)"
      using True "1.IH" by (simp add: digit_byte)
    also have "\<dots> = word_of_int (?q * 10 + ?d)"
      by (simp only: of_int_add of_int_mult of_int_numeral) simp
    finally show ?thesis by simp
  next
    case False
    with "1.prems" show ?thesis by simp
  qed
qed

lemma dec_digits_length: "0 \<le> n \<Longrightarrow> n < 10 ^ k \<Longrightarrow> length (dec_digits n) \<le> k"
proof (induction k arbitrary: n)
  case 0
  then show ?case by simp
next
  case (Suc k)
  then have "n div 10 < 10 ^ k" by (simp add: div_less_iff_less_mult)
  with Suc show ?case by (cases "n > 0") (auto simp: dec_digits_step)
qed

lemma dec_digits_nonempty: "n > 0 \<Longrightarrow> dec_digits n \<noteq> []"
  by (simp add: dec_digits_step)

lemma not_digit_simps [simp]: "\<not> is_digit 0" "\<not> is_digit 45" "\<not> is_digit 10" "\<not> is_digit 32"
  by (simp_all add: is_digit_def)

lemma hd_digits:
  assumes "n > 0" shows "is_digit (hd (rev (dec_digits n)))" and "rev (dec_digits n) \<noteq> []"
proof -
  show ne: "rev (dec_digits n) \<noteq> []" using dec_digits_nonempty [OF assms] by simp
  then have "hd (rev (dec_digits n)) \<in> set (dec_digits n)" by (metis hd_in_set set_rev)
  then show "is_digit (hd (rev (dec_digits n)))"
    using dec_digits_are_digits [of n] by (simp add: list_all_iff)
qed

lemma atoi_no_sign:
  assumes "xs \<noteq> []" "is_digit (hd xs)" shows "atoi (xs @ ys) = atoi_digits (xs @ ys) 0"
  using assms by (cases xs) (auto simp: atoi_def)

text \<open>
  \<open>INT_MIN\<close> has no positive counterpart: negating it leaves it unchanged, so the digit loop does
  not run. For every other number the text is read back as the number.
\<close>

lemma sint_neg: "sint n < 0 \<Longrightarrow> n \<noteq> 0x80000000 \<Longrightarrow> sint (- n) = - sint n" for n :: u32
proof -
  assume "sint n < 0" and "n \<noteq> 0x80000000"
  moreover have "sint n \<ge> - (2 ^ 31)" using sint_ge [of n] by simp
  moreover have "sint n \<noteq> - (2 ^ 31)"
  proof
    assume "sint n = - (2 ^ 31)"
    then have "word_of_int (sint n) = (word_of_int (- (2 ^ 31)) :: u32)" by simp
    then have "n = word_of_int (- (2 ^ 31))" by simp
    then show False using \<open>n \<noteq> 0x80000000\<close> by simp
  qed
  ultimately show "sint (- n) = - sint n"
    by (simp add: sint_word_ariths signed_take_bit_int_eq_self)
qed

lemma atoi_intToStr:
  assumes "n \<noteq> 0x80000000" "rest = [] \<or> \<not> is_digit (hd rest)"
  shows "atoi (intToStr n @ rest) = n"
proof -
  have stop: "atoi_digits (xs @ rest) r = atoi_digits xs r" if "list_all is_digit xs" for xs r
    using assms(2) that by (cases rest) (auto simp: atoi_digits_stop)
  consider (zero) "n = 0" | (neg) "sint n < 0" "n \<noteq> 0" | (pos) "sint n > 0" "n \<noteq> 0"
    using signed_word_eqI [of n 0] by fastforce
  then show ?thesis
  proof cases
    case zero
    have "is_digit 48" by (simp add: is_digit_def)
    with zero show ?thesis using stop [of "[48]" 0] by (simp add: intToStr_def atoi_def)
  next
    case neg
    let ?ds = "rev (dec_digits (sint (- n)))"
    have "atoi_digits (?ds @ rest) 0 = word_of_int (sint (- n))"
      using stop [of ?ds 0] atoi_dec_digits [of "sint (- n)"] neg sint_neg [OF neg(1) assms(1)]
        dec_digits_are_digits by simp
    then show ?thesis using neg by (simp add: intToStr_def atoi_def)
  next
    case pos
    let ?ds = "rev (dec_digits (sint n))"
    have "atoi (?ds @ rest) = atoi_digits (?ds @ rest) 0"
      using atoi_no_sign hd_digits [OF pos(1)] by blast
    also have "\<dots> = word_of_int (sint n)"
      using stop [of ?ds 0] atoi_dec_digits [of "sint n"] pos dec_digits_are_digits by simp
    finally show ?thesis using pos by (simp add: intToStr_def)
  qed
qed

lemma intToStr_min: "intToStr 0x80000000 = [asc CHR ''-'']"
  by (simp add: intToStr_def)

lemma intToStr_length: "length (intToStr n) \<le> 11"
proof -
  have "\<bar>sint m\<bar> < 10 ^ 10" for m :: u32
    using sint_ge [of m] sint_lt [of m] by simp
  then have "length (dec_digits (sint m)) \<le> 10" for m :: u32
    by (cases "sint m \<ge> 0") (auto intro!: dec_digits_length simp: abs_less_iff)
  from this [of n] this [of "- n"] show ?thesis by (simp add: intToStr_def)
qed


section \<open>Hexadecimal numbers\<close>

text \<open>The value of a text of hexadecimal digits, highest first: the reference for \<open>hexToStr\<close>.\<close>

definition hex_val :: "u8 \<Rightarrow> nat" where
  "hex_val c = (if unat c \<le> 57 then unat c - 48 else unat c - 55)"

definition hex_value :: "u8 list \<Rightarrow> nat" where
  "hex_value ds = foldl (\<lambda>r c. r * 16 + hex_val c) 0 ds"

lemma hex_value_snoc: "hex_value (ds @ [c]) = hex_value ds * 16 + hex_val c"
  by (simp add: hex_value_def)

lemma hexChars_val: "d < 16 \<Longrightarrow> hex_val (hexChars ! d) = d"
  by (simp add: hexChars_def numeral_eq_Suc less_Suc_eq) (auto simp: hex_val_def)

lemma hex_digits_0 [simp]: "hex_digits 0 = []"
  by (subst hex_digits.simps) simp

lemma hex_digits_step: "n > 0 \<Longrightarrow> hex_digits n = hexChars ! (n mod 16) # hex_digits (n div 16)"
  by (subst hex_digits.simps) simp

lemma hex_value_digits: "hex_value (rev (hex_digits n)) = n"
proof (induction n rule: hex_digits.induct)
  case (1 n)
  then show ?case
    by (cases "n > 0") (simp_all add: hex_digits_step hex_value_snoc hexChars_val hex_value_def)
qed

lemma hex_digits_length: "n < 16 ^ k \<Longrightarrow> length (hex_digits n) \<le> k"
proof (induction k arbitrary: n)
  case 0
  then show ?case by simp
next
  case (Suc k)
  then have "n div 16 < 16 ^ k" by (simp add: div_less_iff_less_mult)
  with Suc show ?case by (cases "n > 0") (auto simp: hex_digits_step)
qed

lemma hex_pad_eq:
  "length tmp \<le> 8 \<Longrightarrow> hex_pad tmp w = tmp @ replicate (min 8 (nat w) - length tmp) 48"
proof (induction tmp w rule: hex_pad.induct)
  case (1 tmp w)
  show ?case
  proof (cases "int (length tmp) < w \<and> length tmp < 8")
    case True
    then have "hex_pad tmp w = hex_pad (tmp @ [48]) w" by (simp add: hex_pad.simps [of tmp w])
    also have "\<dots> = tmp @ 48 # replicate (min 8 (nat w) - Suc (length tmp)) 48"
      using "1.IH" True by simp
    also have "min 8 (nat w) - length tmp = Suc (min 8 (nat w) - Suc (length tmp))"
      using True by (auto simp: min_def)
    ultimately show ?thesis by simp
  next
    case False
    then have "min 8 (nat w) - length tmp = 0" using "1.prems" by auto
    moreover have "hex_pad tmp w = tmp" unfolding hex_pad.simps [of tmp w] using False by (rule if_not_P)
    ultimately show ?thesis by simp
  qed
qed

lemma hex_value_zeros: "hex_value (replicate k 48 @ ds) = hex_value ds"
proof -
  have "foldl (\<lambda>r c. r * 16 + hex_val c) 0 (replicate k 48) = 0"
    by (induction k) (simp_all add: hex_val_def)
  then show ?thesis by (simp add: hex_value_def)
qed

definition hex_text :: "u32 \<Rightarrow> u8 list" where
  "hex_text n = (if n = 0 then [48] else rev (hex_digits (unat n)))"

lemma hex_text_length: "length (hex_text n) \<le> 8" "hex_text n \<noteq> []"
proof -
  have "unat n < 16 ^ 8" using unsigned_less [of n] by (simp add: nat_less_numeral_power_cancel_iff)
  then show "length (hex_text n) \<le> 8" using hex_digits_length by (simp add: hex_text_def)
  show "hex_text n \<noteq> []" by (simp add: hex_text_def unat_gt_0 hex_digits_step)
qed

lemma hexToStr_eq:
  "hexToStr n w = replicate (min 8 (nat (sint w)) - length (hex_text n)) 48 @ hex_text n"
proof -
  define tmp where "tmp = (if n = 0 then [48] else hex_digits (unat n))"
  have t: "rev tmp = hex_text n" "length tmp = length (hex_text n)"
    by (simp_all add: hex_text_def tmp_def)
  have "hexToStr n w = rev (hex_pad tmp (sint w))"
    by (simp add: hexToStr_def tmp_def Let_def)
  then show ?thesis
    using hex_pad_eq [of tmp "sint w"] hex_text_length(1) [of n] t by simp
qed

lemma hexToStr_value: "hex_value (hexToStr n w) = unat n"
proof -
  have "hex_value [48] = 0" using hex_value_zeros [of 1 "[]"] by (simp add: hex_value_def)
  then show ?thesis
    using hex_value_digits [of "unat n"]
    by (auto simp: hexToStr_eq hex_value_zeros hex_text_def)
qed

lemma hexToStr_length:
  "length (hexToStr n w) = max (length (hex_text n)) (min 8 (nat (sint w)))"
  by (simp add: hexToStr_eq)

section \<open>Formatting: equations\<close>

lemma vsfmtWrite_char:
  "c \<noteq> 0 \<Longrightarrow> c \<noteq> 37 \<Longrightarrow>
     vsfmtWrite (c # cs) args = bindR (vsfmtWrite cs args) (\<lambda>out. Inr (c # out))"
  by (simp add: vsfmtWrite.simps(2))

lemma vsfmtWrite_text:
  "list_all (\<lambda>c. c \<noteq> 0 \<and> c \<noteq> 37) lit \<Longrightarrow>
     vsfmtWrite (lit @ cs) args = bindR (vsfmtWrite cs args) (\<lambda>out. Inr (lit @ out))"
proof (induction lit)
  case Nil
  then show ?case by (cases "vsfmtWrite cs args") simp_all
next
  case (Cons c lit)
  then show ?case by (cases "vsfmtWrite cs args") (simp_all add: vsfmtWrite_char)
qed

lemma vsfmtWrite_only_text:
  "list_all (\<lambda>c. c \<noteq> 0 \<and> c \<noteq> 37) lit \<Longrightarrow> vsfmtWrite lit args = Inr lit"
  using vsfmtWrite_text [of lit "[]" args] by simp

lemma conversion_plain: "\<not> is_digit d \<Longrightarrow> conversion (d # cs) = (32, 0, d # cs)"
  by (auto simp: conversion_def is_digit_def)

lemma not_digit_letters [simp]:
  "\<not> is_digit 100" "\<not> is_digit 115" "\<not> is_digit 120" "\<not> is_digit 99" "\<not> is_digit 37"
  by (simp_all add: is_digit_def)

lemma vsfmtWrite_d:
  "vsfmtWrite (37 # 100 # cs) (ArgInt n # args) =
     bindR (vsfmtWrite cs args) (\<lambda>out. Inr (intToStr n @ out))"
  by (simp add: vsfmtWrite.simps(2) conversion_plain)

lemma vsfmtWrite_s:
  "cstring str \<Longrightarrow> vsfmtWrite (37 # 115 # cs) (ArgStr str # args) =
     bindR (vsfmtWrite cs args) (\<lambda>out. Inr (str @ out))"
  by (simp add: vsfmtWrite.simps(2) conversion_plain cstring_def)
    (metis (mono_tags, lifting) takeWhile_eq_all_conv)

lemma vsfmtWrite_x:
  "vsfmtWrite (37 # 120 # cs) (ArgInt n # args) =
     bindR (vsfmtWrite cs args) (\<lambda>out. Inr (hexToStr n 0 @ out))"
  by (simp add: vsfmtWrite.simps(2) conversion_plain)

lemma vsfmtWrite_c:
  "vsfmtWrite (37 # 99 # cs) (ArgInt n # args) =
     bindR (vsfmtWrite cs args) (\<lambda>out. Inr (ucast n # out))"
  by (simp add: vsfmtWrite.simps(2) conversion_plain)

lemmas vsfmtWrite_eqs =
  vsfmtWrite_char vsfmtWrite_d vsfmtWrite_s vsfmtWrite_x vsfmtWrite_c


section \<open>What is printed is scanned back\<close>

text \<open>
  A format of literal characters and \<open>%d\<close> conversions, each conversion followed by a character
  that is not a digit: the scanner run with the same format on the printed text recovers the
  numbers.
\<close>

datatype piece = Lit u8 | Dec

fun render :: "piece list \<Rightarrow> u8 list" where
  "render [] = []"
| "render (Lit c # ps) = c # render ps"
| "render (Dec # ps) = 37 # 100 # render ps"

fun good_pieces :: "piece list \<Rightarrow> bool" where
  "good_pieces [] = True"
| "good_pieces (Lit c # ps) = (c \<noteq> 0 \<and> c \<noteq> 37 \<and> good_pieces ps)"
| "good_pieces (Dec # ps) =
     ((case ps of Lit c # _ \<Rightarrow> \<not> is_digit c | Dec # _ \<Rightarrow> False | [] \<Rightarrow> True) \<and> good_pieces ps)"

fun fill_in :: "piece list \<Rightarrow> u32 list \<Rightarrow> u8 list" where
  "fill_in [] ns = []"
| "fill_in (Lit c # ps) ns = c # fill_in ps ns"
| "fill_in (Dec # ps) [] = []"
| "fill_in (Dec # ps) (n # ns) = intToStr n @ fill_in ps ns"

definition holes :: "piece list \<Rightarrow> nat" where
  "holes ps = count_list ps Dec"

lemma holes_simps [simp]:
  "holes [] = 0" "holes (Lit c # ps) = holes ps" "holes (Dec # ps) = Suc (holes ps)"
  by (simp_all add: holes_def)

lemma vsfmtWrite_render:
  "good_pieces ps \<Longrightarrow> length ns = holes ps \<Longrightarrow>
     vsfmtWrite (render ps) (map ArgInt ns) = Inr (fill_in ps ns)"
  by (induction ps ns rule: fill_in.induct) (simp_all add: vsfmtWrite_char vsfmtWrite_d)

lemma skip_digits_all: "list_all is_digit xs \<Longrightarrow> \<not> is_digit c \<Longrightarrow> skip_digits (xs @ c # ys) = c # ys"
  by (induction xs) auto

lemma skip_int_intToStr:
  assumes "n \<noteq> 0x80000000" "\<not> is_digit c"
  shows "skip_int (intToStr n @ c # rest) = c # rest"
proof -
  have d: "skip_digits (rev (dec_digits m) @ c # rest) = c # rest" for m
    using skip_digits_all [of "rev (dec_digits m)"] dec_digits_are_digits assms(2) by simp
  consider (zero) "n = 0" | (neg) "sint n < 0" "n \<noteq> 0" | (pos) "sint n > 0" "n \<noteq> 0"
    using signed_word_eqI [of n 0] by fastforce
  then show ?thesis
  proof cases
    case zero
    have "is_digit 48" by (simp add: is_digit_def)
    with zero assms(2) show ?thesis by (simp add: intToStr_def skip_int_def)
  next
    case neg
    with d show ?thesis by (simp add: intToStr_def skip_int_def)
  next
    case pos
    obtain x xs where x: "rev (dec_digits (sint n)) = x # xs" "is_digit x"
      using hd_digits [OF pos(1)] by (cases "rev (dec_digits (sint n))") auto
    then have "x \<noteq> 45" by auto
    then show ?thesis using pos x d [of "sint n"] by (simp add: intToStr_def skip_int_def)
  qed
qed

lemma vsfmtGet_char: "c \<noteq> 37 \<Longrightarrow> vsfmtGet (c # src) (c # fmt) = vsfmtGet src fmt"
  by (cases fmt) simp_all

lemma vsfmtGet_d: "src \<noteq> [] \<Longrightarrow>
    vsfmtGet src (37 # 100 # fmt) = bindR (vsfmtGet (skip_int src) fmt) (\<lambda>gs. Inr (GotInt (atoi src) # gs))"
  by simp

lemma fill_in_follow:
  assumes "good_pieces (Dec # ps)"
  shows "\<exists>c rest. fill_in ps ns @ [0] = c # rest \<and> \<not> is_digit c"
  using assms by (cases ps) (auto split: piece.splits)

lemma vsfmtGet_render:
  "good_pieces ps \<Longrightarrow> length ns = holes ps \<Longrightarrow> 0x80000000 \<notin> set ns \<Longrightarrow>
     vsfmtGet (fill_in ps ns @ [0]) (render ps) = Inr (map GotInt ns)"
proof (induction ps ns rule: fill_in.induct)
  case (4 ps n ns)
  obtain c rest where c: "fill_in ps ns @ [0] = c # rest" "\<not> is_digit c"
    using fill_in_follow [OF "4.prems"(1)] by blast
  have "atoi (intToStr n @ c # rest) = n" "skip_int (intToStr n @ c # rest) = c # rest"
    using "4.prems"(3) c(2) by (auto intro: atoi_intToStr skip_int_intToStr)
  with "4.IH" "4.prems" c(1) show ?case
    by (simp add: vsfmtGet_d append_assoc del: vsfmtGet.simps)
qed (auto simp: vsfmtGet_char)

lemma scan_printed:
  assumes "good_pieces ps" "length ns = holes ps" "0x80000000 \<notin> set ns"
  shows "bindR (sfmtWrite (render ps) (map ArgInt ns)) (\<lambda>mem. vsfmtGet mem (render ps)) =
     Inr (map GotInt ns)"
  using vsfmtWrite_render [OF assms(1,2)] vsfmtGet_render [OF assms] by (simp add: sfmtWrite_def)


section \<open>The line editor\<close>

lemma console_ops_keys [frame, simp]:
  "keyBuffer (moveCursor x y s) = keyBuffer s" "head (moveCursor x y s) = head s"
  "tail (moveCursor x y s) = tail s" "blocking (moveCursor x y s) = blocking s"
  "eofTrigger (moveCursor x y s) = eofTrigger s"
  "keyBuffer (scroll s) = keyBuffer s" "head (scroll s) = head s"
  "tail (scroll s) = tail s" "blocking (scroll s) = blocking s"
  "eofTrigger (scroll s) = eofTrigger s"
  "keyBuffer (put_cell c s) = keyBuffer s" "head (put_cell c s) = head s"
  "tail (put_cell c s) = tail s" "blocking (put_cell c s) = blocking s"
  "eofTrigger (put_cell c s) = eofTrigger s"
  by (simp_all add: moveCursor_def scroll_def put_cell_def port_io_shape Let_def)

lemma writeChar_keys [frame, simp]:
  "keyBuffer (writeChar c s) = keyBuffer s" "head (writeChar c s) = head s"
  "tail (writeChar c s) = tail s" "blocking (writeChar c s) = blocking s"
  "eofTrigger (writeChar c s) = eofTrigger s"
  "pending (writeChar c s) = pending s" "keyboard_inv (writeChar c s) = keyboard_inv s"
  by (simp_all add: writeChar_def Let_def pending_def keyboard_inv_def)

lemma interrupts_0 [simp]: "interrupts dev 0 s = s"
  and interrupts_Suc: "interrupts dev (Suc n) s = keyboardHandler dev (interrupts dev n s)"
  by (simp_all add: interrupts_def)

lemma blocking_keyboardHandler [frame, simp]: "blocking (keyboardHandler dev s) = blocking s"
  by (simp add: keyboardHandler_shape Let_def port_io_shape key_released_def key_pressed_def
      control_key_def put_key_def)

lemma blocking_interrupts [frame, simp]: "blocking (interrupts dev n s) = blocking s"
  by (induction n) (simp_all add: interrupts_Suc)

lemma interrupts_keeps [keeps]:
  "keyboard_inv s \<Longrightarrow> keyboard_inv (interrupts dev n s)"
  "console_inv s \<Longrightarrow> console_inv (interrupts dev n s)"
  by (induction n) (simp_all add: interrupts_Suc keyboardHandler_keeps)

lemma getInput_frame [frame, simp]:
  "blocking (snd (getInput s)) = blocking s"
  "eofTrigger (snd (getInput s)) = eofTrigger s"
  "console_inv (snd (getInput s)) = console_inv s"
  "term_view (snd (getInput s)) = term_view s"
  "COLOR (snd (getInput s)) = COLOR s"
  by (simp_all add: getInput_def console_inv_def term_view_def)

text \<open>
  The reference: what one key does to the line, and what it echoes. The line holds at most 255
  characters; a backspace on the empty line is ignored and not echoed.
\<close>

definition edit_key :: "u8 \<Rightarrow> u8 list \<Rightarrow> u8 list" where
  "edit_key c line = (if c = 8 then butlast line else if length line < 255 then line @ [c] else line)"

definition edit_echo :: "u8 \<Rightarrow> u8 list \<Rightarrow> u8 list" where
  "edit_echo c line =
     (if c = 8 then (if line = [] then [] else [8]) else if length line < 255 then [c] else [])"

fun echo_all :: "u8 list \<Rightarrow> u8 list \<Rightarrow> u8 list" where
  "echo_all [] line = [10]"
| "echo_all (c # cs) line = edit_echo c line @ echo_all cs (edit_key c line)"

text \<open>One key that is neither a newline nor "no key".\<close>

lemma fmtGet_loop_key:
  assumes "fst (getInput (interrupts dev n s)) = c" "c \<noteq> 0" "c \<noteq> 10"
  shows "fmtGet_loop dev (n # polls) line s =
     fmtGet_loop dev polls (edit_key c line)
       (fold writeChar (edit_echo c line) (snd (getInput (interrupts dev n s))))"
  using assms by (simp add: edit_key_def edit_echo_def case_prod_beta Let_def)

lemma fmtGet_typed_ahead:
  assumes "keyboard_inv s" "console_inv s" "blocking s \<noteq> 0"
    and "pending s = cs @ 10 # later" "0 \<notin> set cs" "10 \<notin> set cs"
  shows "\<exists>s'. fmtGet_loop dev (replicate (Suc (length cs)) 0) line s = Inr (fold edit_key cs line, s') \<and>
     pending s' = later \<and>
     term_view s' = fold (term_put (COLOR s)) (echo_all cs line) (term_view s)"
  using assms
proof (induction cs arbitrary: line s)
  case Nil
  let ?s = "snd (getInput s)"
  have g: "fst (getInput s) = 10" "pending ?s = later"
    using getInput_pending [OF Nil.prems(1), of 10 later] Nil.prems(4) by simp_all
  with Nil.prems have "fmtGet_loop dev [0] line s = Inr (line, writeChar 10 ?s)"
    by (simp add: case_prod_beta Let_def)
  with g Nil.prems show ?case by (simp add: view_writeChar)
next
  case (Cons c cs)
  let ?s = "fold writeChar (edit_echo c line) (snd (getInput s))"
  have g: "fst (getInput s) = c" "pending (snd (getInput s)) = cs @ 10 # later"
    using getInput_pending [OF Cons.prems(1), of c "cs @ 10 # later"] Cons.prems(4) by simp_all
  have step: "fmtGet_loop dev (replicate (Suc (length (c # cs))) 0) line s =
      fmtGet_loop dev (replicate (Suc (length cs)) 0) (edit_key c line) ?s"
    using fmtGet_loop_key [of dev 0 s c "replicate (Suc (length cs)) 0" line] g(1) Cons.prems(5,6)
    by simp
  have inv: "keyboard_inv ?s" "console_inv ?s" "blocking ?s \<noteq> 0" "pending ?s = cs @ 10 # later"
      "COLOR ?s = COLOR s" "term_view ?s = fold (term_put (COLOR s)) (edit_echo c line) (term_view s)"
    using Cons.prems g(2) getInput_keeps [OF Cons.prems(1)]
    by (simp_all add: edit_echo_def writeChar_keeps view_writeChar)
  from Cons.IH [OF inv(1-4), of "edit_key c line"] Cons.prems(5,6) step inv(5,6)
  show ?case by simp
qed

text \<open>With blocking input the buffer of 256 bytes is never overrun, whatever is typed and when.\<close>

lemma edit_key_length: "length line \<le> 255 \<Longrightarrow> length (edit_key c line) \<le> 255"
  by (auto simp: edit_key_def)

lemma blocking_echo [simp]: "blocking (fold writeChar cs s) = blocking s"
  by (induction cs arbitrary: s) simp_all

lemma fmtGet_blocking_bound:
  assumes "blocking s \<noteq> 0" "length line \<le> 255"
  shows "fmtGet_loop dev polls line s \<noteq> Inl OutOfBounds \<and>
     (\<forall>line' s'. fmtGet_loop dev polls line s = Inr (line', s') \<longrightarrow> length line' \<le> 255)"
  using assms
proof (induction polls arbitrary: line s)
  case Nil
  then show ?case by simp
next
  case (Cons n polls)
  let ?g = "getInput (interrupts dev n s)"
  have b: "blocking (snd ?g) \<noteq> 0" using Cons.prems(1) by simp
  show ?case
  proof (cases "fst ?g = 0 \<or> fst ?g = 10")
    case True
    then show ?thesis
      using Cons.IH [OF b Cons.prems(2)] Cons.prems b by (auto simp: case_prod_beta Let_def)
  next
    case False
    with fmtGet_loop_key [of dev n s "fst ?g" polls line]
    have "fmtGet_loop dev (n # polls) line s =
        fmtGet_loop dev polls (edit_key (fst ?g) line)
          (fold writeChar (edit_echo (fst ?g) line) (snd ?g))" by simp
    then show ?thesis
      using Cons.IH [of "fold writeChar (edit_echo (fst ?g) line) (snd ?g)" "edit_key (fst ?g) line"]
        b edit_key_length [OF Cons.prems(2)] by simp
  qed
qed


text \<open>
  In the other mode (which the shell selects for \<open>cat >\<close> and \<open>echo >\<close>) a newline is stored
  without a bound: a key held down long enough runs past the end of the buffer.
\<close>

lemma control_frame [frame, simp]:
  "controlActive (writeChar c s) = controlActive s"
  "controlActive (snd (getInput s)) = controlActive s"
  by (simp_all add: writeChar_def moveCursor_def scroll_def put_cell_def port_io_shape Let_def
      getInput_def)

definition enter_held :: device where
  "enter_held tr port = 0x1C"

lemma enter_key:
  assumes "keyboard_inv s" "pending s = []" "controlActive s = 0"
  shows "pending (keyboardHandler enter_held s) = [10]"
    and "controlActive (keyboardHandler enter_held s) = 0"
proof -
  have "keymap ! 28 = 10" "keymapShifted ! 28 = 10"
    by (simp_all add: keymap_def keymapShifted_def)
  then have "typed s 0x1C = Some 10"
    using assms(3) by (simp add: typed_def modifier_key_def printable_def)
  then show "pending (keyboardHandler enter_held s) = [10]"
    using pending_keyboardHandler [OF assms(1), of enter_held] assms(2) by (simp add: enter_held_def)
  show "controlActive (keyboardHandler enter_held s) = 0"
    using assms(3) by (simp add: keyboardHandler_shape enter_held_def Let_def port_io_shape key_pressed_fields)
qed

lemma fmtGet_nonblocking_overrun:
  assumes "keyboard_inv s" "pending s = []" "controlActive s = 0" "blocking s = 0"
    and "length line = 256 - k" "k \<le> 256"
  shows "fmtGet_loop enter_held (replicate (Suc k) 1) line s = Inl OutOfBounds"
  using assms
proof (induction k arbitrary: line s)
  case 0
  have "interrupts enter_held 1 s = keyboardHandler enter_held s" by (simp add: interrupts_def)
  moreover have "fst (getInput (keyboardHandler enter_held s)) = 10"
    using getInput_pending [OF keyboardHandler_keeps(1)] enter_key 0 by metis
  ultimately show ?case using 0 by (simp add: case_prod_beta Let_def)
next
  case (Suc k)
  let ?s = "keyboardHandler enter_held s"
  let ?t = "writeChar 10 (snd (getInput ?s))"
  have p: "pending ?s = [10]" "controlActive ?s = 0" "keyboard_inv ?s"
    using enter_key [of s] Suc.prems keyboardHandler_keeps(1) [of s] by simp_all
  have g: "fst (getInput ?s) = 10" "pending ?t = []" "keyboard_inv ?t" "controlActive ?t = 0" "blocking ?t = 0"
    using getInput_pending [OF p(3) p(1)] p getInput_keeps [OF p(3)] Suc.prems(4) by simp_all
  have i: "interrupts enter_held 1 s = ?s" by (simp add: interrupts_def)
  have "fmtGet_loop enter_held (replicate (Suc (Suc k)) 1) line s =
      fmtGet_loop enter_held (replicate (Suc k) 1) (line @ [10]) ?t"
    using g(1) Suc.prems(4,5,6) i unfolding replicate_Suc [of "Suc k"] by (simp add: case_prod_beta Let_def)
  also have "\<dots> = Inl OutOfBounds"
    by (rule Suc.IH [OF g(3,2,4,5)]) (use Suc.prems in simp_all)
  finally show ?case .
qed

section \<open>Printing\<close>

lemma fmtWrite_ok:
  "vsfmtWrite fmt args = Inr out \<Longrightarrow> length out < 256 \<Longrightarrow> fmtWrite fmt args s = Inr (writeStr out s)"
  by (simp add: fmtWrite_def)

lemma fmtWrite_overrun:
  "vsfmtWrite fmt args = Inr out \<Longrightarrow> length out \<ge> 256 \<Longrightarrow> fmtWrite fmt args s = Inl OutOfBounds"
  by (simp add: fmtWrite_def)

lemma fmtWrite_keeps [keeps]:
  "console_inv s \<Longrightarrow> fmtWrite fmt args s = Inr s' \<Longrightarrow> console_inv s'"
  by (auto simp: fmtWrite_def bindR_Inr_iff writeStr_keeps split: if_splits)

end
