(* ===== verification/Ata.thy ===== *)
theory Ata
  imports Format
begin

text \<open>
  The ATA PIO driver of src/ata.c: waiting for the drive, reading and writing one sector,
  identification. The drive is hardware, seen through the port parameter \<open>dev\<close>. The second half
  states what an ATA drive does (a state machine over the port history), and shows that for every
  device that behaves so, the driver implements a store of 256-word sectors (a locale, interpreted
  on the driver).
\<close>

abbreviation ATA_DATA :: u16 where "ATA_DATA \<equiv> 0x1F0"
abbreviation ATA_ERR :: u16 where "ATA_ERR \<equiv> 0x1F1"
abbreviation ATA_SEC_COUNT :: u16 where "ATA_SEC_COUNT \<equiv> 0x1F2"
abbreviation ATA_LBA_L :: u16 where "ATA_LBA_L \<equiv> 0x1F3"
abbreviation ATA_LBA_M :: u16 where "ATA_LBA_M \<equiv> 0x1F4"
abbreviation ATA_LBA_H :: u16 where "ATA_LBA_H \<equiv> 0x1F5"
abbreviation ATA_HEAD :: u16 where "ATA_HEAD \<equiv> 0x1F6"
abbreviation ATA_COMM :: u16 where "ATA_COMM \<equiv> 0x1F7"
abbreviation ATA_SR :: u16 where "ATA_SR \<equiv> 0x1F7"
abbreviation ATA_SR_ERR :: u8 where "ATA_SR_ERR \<equiv> 0x01"
abbreviation ATA_SR_DRQ :: u8 where "ATA_SR_DRQ \<equiv> 0x08"
abbreviation ATA_SR_BSY :: u8 where "ATA_SR_BSY \<equiv> 0x80"
abbreviation ATA_COMM_IDENT :: u8 where "ATA_COMM_IDENT \<equiv> 0xEC"
abbreviation ATA_COMM_READ :: u8 where "ATA_COMM_READ \<equiv> 0x20"
abbreviation ATA_COMM_WRITE :: u8 where "ATA_COMM_WRITE \<equiv> 0x30"
abbreviation ATA_COMM_FLUSH :: u8 where "ATA_COMM_FLUSH \<equiv> 0xE7"

section \<open>The driver\<close>

text \<open>
  The polling loops: the argument counts the polls that are left. The delay loops between polls do
  nothing but spend time.
\<close>

fun wait_not_busy :: "device \<Rightarrow> nat \<Rightarrow> 'a machine_scheme \<Rightarrow> bool \<times> 'a machine_scheme" where
  "wait_not_busy dev 0 s = (False, s)"
| "wait_not_busy dev (Suc n) s =
     (let (status, s1) = inb dev ATA_SR s
      in if status AND ATA_SR_BSY = 0 then (True, s1) else wait_not_busy dev n s1)"

fun wait_data :: "device \<Rightarrow> nat \<Rightarrow> 'a machine_scheme \<Rightarrow> bool \<times> 'a machine_scheme" where
  "wait_data dev 0 s = (False, s)"
| "wait_data dev (Suc n) s =
     (let (status, s1) = inb dev ATA_SR s
      in if status AND ATA_SR_DRQ \<noteq> 0 then (True, s1)
         else if status AND ATA_SR_ERR \<noteq> 0 then (False, s1)
         else wait_data dev n s1)"

definition waitDrive :: "device \<Rightarrow> 'a machine_scheme \<Rightarrow> bool \<times> 'a machine_scheme" where
  "waitDrive dev s =
     (let (ready, s1) = wait_not_busy dev 10000 s
      in if ready then wait_data dev 10000 s1 else (False, s1))"

fun ataWait :: "device \<Rightarrow> u8 \<Rightarrow> u8 \<Rightarrow> nat \<Rightarrow> 'a machine_scheme \<Rightarrow> bool \<times> 'a machine_scheme" where
  "ataWait dev msk val 0 s = (False, s)"
| "ataWait dev msk val (Suc timeout) s =
     (let (status, s1) = inb dev ATA_SR s
      in if status AND msk = val then (True, s1) else ataWait dev msk val timeout s1)"

text \<open>The register writes \<open>ataRead\<close> and \<open>ataWrite\<close> share: drive, sector count, LBA and command.\<close>

definition ata_command :: "u32 \<Rightarrow> u8 \<Rightarrow> 'a machine_scheme \<Rightarrow> 'a machine_scheme" where
  "ata_command lba comm s =
     (let s1 = outb ATA_HEAD (ucast (0xE0 OR (drop_bit 24 lba AND 0x0F))) s;
          s2 = outb ATA_ERR 0 s1;
          s3 = outb ATA_SEC_COUNT 1 s2;
          s4 = outb ATA_LBA_L (ucast lba) s3;
          s5 = outb ATA_LBA_M (ucast (drop_bit 8 lba)) s4;
          s6 = outb ATA_LBA_H (ucast (drop_bit 16 lba)) s5
      in outb ATA_COMM comm s6)"

fun in_words :: "device \<Rightarrow> nat \<Rightarrow> 'a machine_scheme \<Rightarrow> u16 list \<times> 'a machine_scheme" where
  "in_words dev 0 s = ([], s)"
| "in_words dev (Suc n) s =
     (let (w, s1) = inw dev ATA_DATA s; (ws, s2) = in_words dev n s1 in (w # ws, s2))"

fun out_words :: "u16 list \<Rightarrow> 'a machine_scheme \<Rightarrow> 'a machine_scheme" where
  "out_words [] s = s"
| "out_words (w # ws) s = out_words ws (outw ATA_DATA w s)"

definition ataRead :: "device \<Rightarrow> u32 \<Rightarrow> 'a machine_scheme \<Rightarrow> u16 list \<times> 'a machine_scheme" where
  "ataRead dev lba s =
     (let s1 = ata_command lba ATA_COMM_READ s;
          (ok, s2) = waitDrive dev s1
      in in_words dev 256 s2)"

definition ataWrite :: "device \<Rightarrow> u32 \<Rightarrow> u16 list \<Rightarrow> 'a machine_scheme \<Rightarrow> 'a machine_scheme" where
  "ataWrite dev lba buf s =
     (let (r0, s1) = ataWait dev ATA_SR_BSY 0 10000 s;
          s2 = ata_command lba ATA_COMM_WRITE s1;
          (r1, s3) = ataWait dev ATA_SR_DRQ ATA_SR_DRQ 10000 s2
      in if \<not> r1 then s3
         else (let s4 = out_words (take 256 buf) s3;
                   s5 = outb ATA_COMM ATA_COMM_FLUSH s4
               in snd (ataWait dev ATA_SR_BSY 0 10000 s5)))"

text \<open>
  \<open>ataIdentify\<close> prints a message and goes on in three places (\<open>say\<close>). Its later waits use the
  masks \<open>1 << ATA_SR_BSY\<close> and \<open>1 << ATA_SR_DRQ\<close>, where the constants are masks already: the second
  is \<open>1 << 8\<close>, which is 0 as a byte; the first shifts a 32 bit value by 128, which C does not
  define, so it is the parameter \<open>shift128\<close>. The result is \<open>None\<close> where the function ends without
  a \<open>return\<close>.
\<close>

definition say :: "string \<Rightarrow> 'a console_scheme \<Rightarrow> 'a console_scheme" where
  "say msg s = writeStr (bytes msg) s"

definition ataIdentify ::
  "device \<Rightarrow> u8 \<Rightarrow> 'a console_scheme \<Rightarrow> u32 option \<times> 'a console_scheme" where
  "ataIdentify dev shift128 s =
     (let (r1, s1) = ataWait dev ATA_SR_BSY 0 10000 s;
          s2 = (if r1 then s1 else say ''ATA Timeout!\<newline>'' s1);
          (r2, s3) = ataWait dev ATA_SR_BSY 0 10000 s2
      in if \<not> r2 then (Some 0, s3)
         else let (r3, s4) = ataWait dev ATA_SR_DRQ ATA_SR_DRQ 10000 s3
      in if \<not> r3 then (Some 0, s4)
         else let s5 = outb ATA_LBA_H 0 (outb ATA_LBA_M 0 (outb ATA_LBA_L 0 (outb ATA_HEAD 0xA0 s4)));
                  (r4, s6) = waitDrive dev s5;
                  s7 = outb ATA_COMM ATA_COMM_IDENT s6;
                  (status, s8) = inb dev ATA_SR s7;
                  (prime, s9) = ataRead dev 0 s8;
                  s10 = (if status = 0 then say ''ata: no drive\<newline>'' s9 else s9);
                  (r5, s11) = ataWait dev shift128 0 10000 s10;
                  s12 = (if r5 then s11 else say ''ATA Timeout!\<newline>'' s11);
                  (r6, s13) = ataWait dev shift128 0 10000 s12
      in if \<not> r6 then (Some 0, s13)
         else let (r7, s14) = ataWait dev 0 0 10000 s13
      in if \<not> r7 then (Some 0, s14) else (None, s14))"

definition ataGetSectorCount :: "device \<Rightarrow> 'a machine_scheme \<Rightarrow> u32 \<times> 'a machine_scheme" where
  "ataGetSectorCount dev s =
     (let s1 = outb ATA_SEC_COUNT 0 (outb ATA_LBA_H 0 (outb ATA_LBA_M 0 (outb ATA_LBA_L 0
                 (outb ATA_HEAD 0xA0 s))));
          s2 = outb ATA_COMM ATA_COMM_IDENT s1;
          (status, s3) = inb dev ATA_SR s2
      in if status = 0 \<or> status = 0xFF then (0, s3)
         else let (r1, s4) = ataWait dev ATA_SR_BSY 0 10000 s3
      in if \<not> r1 then (0, s4)
         else let (r2, s5) = ataWait dev ATA_SR_DRQ ATA_SR_DRQ 10000 s4
      in if \<not> r2 then (0, s5)
         else let (buf, s6) = in_words dev 256 s5
      in if buf ! 83 AND 0x400 \<noteq> 0
         then (push_bit 16 (ucast (buf ! 101)) OR ucast (buf ! 100), s6)
         else (push_bit 16 (ucast (buf ! 61)) OR ucast (buf ! 60), s6))"


section \<open>What an ATA drive does\<close>

text \<open>
  The documented behaviour of a PIO drive, as far as the driver relies on it: the LBA registers are
  kept; a command makes the drive busy for a bounded number of status reads; after a read command
  it hands out the 256 words of the addressed sector, after a write command it takes 256 words,
  and is busy again when it has them. A command written while the drive is busy is not accepted.
  \<open>delay\<close> is the number of status reads a command takes.
\<close>

datatype dmode = Ready | SendData u32 nat | TakeData u32 nat

record drive =
  disk :: "u32 \<Rightarrow> nat \<Rightarrow> u16"
  lba_low :: u8
  lba_mid :: u8
  lba_high :: u8
  lba_head :: u8
  dmode :: dmode
  busy :: nat

definition drive_addr :: "drive \<Rightarrow> u32" where
  "drive_addr d =
     push_bit 24 (ucast (lba_head d AND 0x0F)) OR push_bit 16 (ucast (lba_high d)) OR
     push_bit 8 (ucast (lba_mid d)) OR ucast (lba_low d)"

definition drive_accept :: "nat \<Rightarrow> u8 \<Rightarrow> drive \<Rightarrow> drive" where
  "drive_accept delay comm d =
     d\<lparr>dmode := (if comm = ATA_COMM_READ then SendData (drive_addr d) 0
                 else if comm = ATA_COMM_WRITE then TakeData (drive_addr d) 0 else Ready),
       busy := delay\<rparr>"

fun drive_step :: "nat \<Rightarrow> event \<Rightarrow> drive \<Rightarrow> drive" where
  "drive_step delay (OutB p v) d =
     (if p = ATA_LBA_L then d\<lparr>lba_low := v\<rparr>
      else if p = ATA_LBA_M then d\<lparr>lba_mid := v\<rparr>
      else if p = ATA_LBA_H then d\<lparr>lba_high := v\<rparr>
      else if p = ATA_HEAD then d\<lparr>lba_head := v\<rparr>
      else if p = ATA_COMM then (if busy d > 0 then d else drive_accept delay v d)
      else d)"
| "drive_step delay (InB p v) d = (if p = ATA_SR then d\<lparr>busy := busy d - 1\<rparr> else d)"
| "drive_step delay (InW p v) d =
     (if p = ATA_DATA \<and> busy d = 0 then
        (case dmode d of
           SendData l k \<Rightarrow> d\<lparr>dmode := (if k = 255 then Ready else SendData l (Suc k))\<rparr>
         | _ \<Rightarrow> d)
      else d)"
| "drive_step delay (OutW p v) d =
     (if p = ATA_DATA \<and> busy d = 0 then
        (case dmode d of
           TakeData l k \<Rightarrow>
             d\<lparr>disk := (disk d)(l := (disk d l)(k := v)),
               dmode := (if k = 255 then Ready else TakeData l (Suc k)),
               busy := (if k = 255 then delay else 0)\<rparr>
         | _ \<Rightarrow> d)
      else d)"

primrec drive_after :: "drive \<Rightarrow> nat \<Rightarrow> event list \<Rightarrow> drive" where
  "drive_after d0 delay [] = d0"
| "drive_after d0 delay (e # tr) = drive_step delay e (drive_after d0 delay tr)"

text \<open>
  What the status and the data port show: BSY while busy; DRQ when the drive is not busy and has
  or wants data; no error; the next word of the sector.
\<close>

definition status_ok :: "drive \<Rightarrow> u8 \<Rightarrow> bool" where
  "status_ok d st \<longleftrightarrow>
     (st AND ATA_SR_BSY \<noteq> 0 \<longleftrightarrow> busy d > 0) \<and>
     (st AND ATA_SR_DRQ \<noteq> 0 \<longleftrightarrow> busy d = 0 \<and> dmode d \<noteq> Ready) \<and>
     st AND ATA_SR_ERR = 0"

definition data_ok :: "drive \<Rightarrow> u16 \<Rightarrow> bool" where
  "data_ok d w \<longleftrightarrow>
     (case dmode d of SendData l k \<Rightarrow> busy d = 0 \<longrightarrow> w = disk d l k | _ \<Rightarrow> True)"

definition ata_drive :: "device \<Rightarrow> drive \<Rightarrow> nat \<Rightarrow> bool" where
  "ata_drive dev d0 delay \<longleftrightarrow>
     (\<forall>tr. status_ok (drive_after d0 delay tr) (ucast (dev tr ATA_SR)) \<and>
           data_ok (drive_after d0 delay tr) (dev tr ATA_DATA))"

text \<open>A device that behaves so: it answers from the state of the drive.\<close>

definition pio_drive :: "drive \<Rightarrow> nat \<Rightarrow> device" where
  "pio_drive d0 delay tr port =
     (let d = drive_after d0 delay tr
      in if port = ATA_SR then (if busy d > 0 then 0x80 else if dmode d \<noteq> Ready then 0x58 else 0x50)
         else (case dmode d of SendData l k \<Rightarrow> disk d l k | _ \<Rightarrow> 0))"

lemma pio_drive_ok: "ata_drive (pio_drive d0 delay) d0 delay"
  by (auto simp: ata_drive_def pio_drive_def status_ok_def data_ok_def Let_def split: dmode.splits)

section \<open>The driver against the drive\<close>

lemma drive_events [simp]:
  "drive_after d0 k (trace (outb p v s)) = drive_step k (OutB p v) (drive_after d0 k (trace s))"
  "drive_after d0 k (trace (outw p w s)) = drive_step k (OutW p w) (drive_after d0 k (trace s))"
  "drive_after d0 k (trace (snd (inb dev p s))) =
     drive_step k (InB p (fst (inb dev p s))) (drive_after d0 k (trace s))"
  "drive_after d0 k (trace (snd (inw dev p s))) =
     drive_step k (InW p (fst (inw dev p s))) (drive_after d0 k (trace s))"
  by (simp_all add: port_io_shape)

lemma status_read:
  assumes "ata_drive dev d0 k"
  shows "status_ok (drive_after d0 k (trace s)) (fst (inb dev ATA_SR s))"
  using assms by (simp add: ata_drive_def port_io_shape)

lemma drq_mask: "(st :: u8) AND 8 = 8 \<longleftrightarrow> st AND 8 \<noteq> 0"
proof -
  have "st AND 8 = of_bool (bit st 3) * 8" using bit_and_pow [of st 3] by simp
  then show ?thesis by (cases "bit st 3") simp_all
qed

text \<open>A poll that finds the drive busy uses up one of its busy polls.\<close>

lemma poll_drive:
  assumes "ata_drive dev d0 k"
  shows "fst (inb dev ATA_SR s) AND 0x80 = 0 \<longleftrightarrow> busy (drive_after d0 k (trace s)) = 0"
    and "fst (inb dev ATA_SR s) AND 8 = 0 \<longleftrightarrow>
           busy (drive_after d0 k (trace s)) > 0 \<or> dmode (drive_after d0 k (trace s)) = Ready"
    and "fst (inb dev ATA_SR s) AND 1 = 0"
    and "drive_after d0 k (trace (snd (inb dev ATA_SR s))) =
           (drive_after d0 k (trace s))\<lparr>busy := busy (drive_after d0 k (trace s)) - 1\<rparr>"
  using status_read [OF assms, of s] by (auto simp: status_ok_def)

lemma wait_not_busy_drive:
  assumes "ata_drive dev d0 k" "busy (drive_after d0 k (trace s)) < n"
  shows "fst (wait_not_busy dev n s) \<and>
    drive_after d0 k (trace (snd (wait_not_busy dev n s))) = (drive_after d0 k (trace s))\<lparr>busy := 0\<rparr>"
  using assms(2)
proof (induction n arbitrary: s)
  case (Suc n)
  note poll = poll_drive [OF assms(1), of s]
  show ?case
  proof (cases "busy (drive_after d0 k (trace s)) = 0")
    case True
    with poll show ?thesis by (simp add: case_prod_beta Let_def)
  next
    case False
    with Suc.prems have "busy (drive_after d0 k (trace (snd (inb dev ATA_SR s)))) < n"
      unfolding poll(4) by simp
    from Suc.IH [OF this] False poll show ?thesis by (simp add: case_prod_beta Let_def)
  qed
qed simp

lemma ataWait_busy_drive:
  assumes "ata_drive dev d0 k" "busy (drive_after d0 k (trace s)) < n"
  shows "fst (ataWait dev ATA_SR_BSY 0 n s) \<and>
    drive_after d0 k (trace (snd (ataWait dev ATA_SR_BSY 0 n s))) =
      (drive_after d0 k (trace s))\<lparr>busy := 0\<rparr>"
proof -
  have "ataWait dev ATA_SR_BSY 0 n s = wait_not_busy dev n s"
    by (induction n arbitrary: s) (simp_all add: case_prod_beta Let_def)
  then show ?thesis using wait_not_busy_drive [OF assms] by simp
qed

lemma ataWait_data_drive:
  assumes "ata_drive dev d0 k" "busy (drive_after d0 k (trace s)) < n"
    "dmode (drive_after d0 k (trace s)) \<noteq> Ready"
  shows "fst (ataWait dev ATA_SR_DRQ ATA_SR_DRQ n s) \<and>
    drive_after d0 k (trace (snd (ataWait dev ATA_SR_DRQ ATA_SR_DRQ n s))) =
      (drive_after d0 k (trace s))\<lparr>busy := 0\<rparr>"
  using assms(2,3)
proof (induction n arbitrary: s)
  case (Suc n)
  note poll = poll_drive [OF assms(1), of s]
  show ?case
  proof (cases "busy (drive_after d0 k (trace s)) = 0")
    case True
    with poll Suc.prems show ?thesis by (simp add: case_prod_beta Let_def drq_mask)
  next
    case False
    with Suc.prems have "busy (drive_after d0 k (trace (snd (inb dev ATA_SR s)))) < n"
      "dmode (drive_after d0 k (trace (snd (inb dev ATA_SR s)))) \<noteq> Ready"
      unfolding poll(4) by simp_all
    from Suc.IH [OF this] False poll show ?thesis by (simp add: case_prod_beta Let_def drq_mask)
  qed
qed simp

lemma wait_data_hit:
  "fst (inb dev ATA_SR s) AND 8 \<noteq> 0 \<Longrightarrow> n > 0 \<Longrightarrow> wait_data dev n s = (True, snd (inb dev ATA_SR s))"
  by (cases n) (simp_all add: case_prod_beta Let_def)

lemma waitDrive_drive:
  assumes "ata_drive dev d0 k" "busy (drive_after d0 k (trace s)) < 10000"
    "dmode (drive_after d0 k (trace s)) \<noteq> Ready"
  shows "drive_after d0 k (trace (snd (waitDrive dev s))) = (drive_after d0 k (trace s))\<lparr>busy := 0\<rparr>"
proof -
  let ?s1 = "snd (wait_not_busy dev 10000 s)"
  have w: "fst (wait_not_busy dev 10000 s)"
    "drive_after d0 k (trace ?s1) = (drive_after d0 k (trace s))\<lparr>busy := 0\<rparr>"
    using wait_not_busy_drive [OF assms(1,2)] by simp_all
  have "wait_data dev 10000 ?s1 = (True, snd (inb dev ATA_SR ?s1))"
    using poll_drive(2) [OF assms(1), of ?s1] w(2) assms(3) by (intro wait_data_hit) simp_all
  then show ?thesis
    using w poll_drive(4) [OF assms(1), of ?s1] by (simp add: waitDrive_def case_prod_beta Let_def)
qed

lemma in_words_drive:
  assumes "ata_drive dev d0 k" "dmode (drive_after d0 k (trace s)) = SendData l i"
    "busy (drive_after d0 k (trace s)) = 0" "i + n = 256" "n > 0"
  shows "fst (in_words dev n s) = map (disk (drive_after d0 k (trace s)) l) [i..<256] \<and>
    drive_after d0 k (trace (snd (in_words dev n s))) = (drive_after d0 k (trace s))\<lparr>dmode := Ready\<rparr>"
  using assms(2-)
proof (induction n arbitrary: s i)
  case (Suc n)
  let ?d = "drive_after d0 k (trace s)"
  let ?s1 = "snd (inw dev ATA_DATA s)"
  have w: "fst (inw dev ATA_DATA s) = disk ?d l i"
    using assms(1) Suc.prems(1,2) by (auto simp: ata_drive_def data_ok_def port_io_shape dest: spec [of _ "trace s"])
  have d1: "drive_after d0 k (trace ?s1) = ?d\<lparr>dmode := (if i = 255 then Ready else SendData l (Suc i))\<rparr>"
    using Suc.prems(1,2) by simp
  have upt: "[i..<256] = i # [Suc i..<256]" using Suc.prems(3) by (simp add: upt_conv_Cons)
  show ?case
  proof (cases "n = 0")
    case True
    with Suc.prems have "i = 255" by simp
    with w d1 True show ?thesis by (simp add: case_prod_beta Let_def)
  next
    case False
    with Suc.prems have "i \<noteq> 255" by simp
    then have "dmode (drive_after d0 k (trace ?s1)) = SendData l (Suc i)"
      "busy (drive_after d0 k (trace ?s1)) = 0" using d1 Suc.prems(2) by simp_all
    from Suc.IH [OF this] False Suc.prems(3) \<open>i \<noteq> 255\<close> w d1 show ?thesis
      unfolding upt by (simp add: case_prod_beta Let_def del: drive_events)
  qed
qed simp

lemma out_words_drive:
  assumes "dmode (drive_after d0 k (trace s)) = TakeData l i"
    "busy (drive_after d0 k (trace s)) = 0" "i + length ws = 256" "ws \<noteq> []"
  shows "disk (drive_after d0 k (trace (out_words ws s))) l' j =
       (if l' = l \<and> i \<le> j \<and> j < 256 then ws ! (j - i) else disk (drive_after d0 k (trace s)) l' j) \<and>
     dmode (drive_after d0 k (trace (out_words ws s))) = Ready \<and>
     busy (drive_after d0 k (trace (out_words ws s))) = k"
  using assms
proof (induction ws arbitrary: s i)
  case (Cons w ws)
  let ?d = "drive_after d0 k (trace s)"
  let ?s1 = "outw ATA_DATA w s"
  have d1: "drive_after d0 k (trace ?s1) = ?d\<lparr>disk := (disk ?d)(l := (disk ?d l)(i := w)),
       dmode := (if i = 255 then Ready else TakeData l (Suc i)), busy := (if i = 255 then k else 0)\<rparr>"
    using Cons.prems(1,2) by simp
  show ?case
  proof (cases "ws = []")
    case True
    with Cons.prems have i: "i = 255" by simp
    have "j = 255" if "255 \<le> j" "j < 256" using that by simp
    with d1 True i show ?thesis by (auto simp del: drive_events)
  next
    case False
    with Cons.prems have i: "i \<noteq> 255" by (cases ws) auto
    then have "dmode (drive_after d0 k (trace ?s1)) = TakeData l (Suc i)"
      "busy (drive_after d0 k (trace ?s1)) = 0" "Suc i + length ws = 256"
      using d1 Cons.prems(3) by simp_all
    note step = Cons.IH [OF this False]
    have "(if Suc i \<le> j \<and> j < 256 then ws ! (j - Suc i) else if j = i then w else x) =
        (if i \<le> j \<and> j < 256 then (w # ws) ! (j - i) else x)" for x
      using Cons.prems(3) by (auto simp: nth_Cons' Suc_le_eq)
    with step d1 i show ?thesis by (auto simp del: drive_events)
  qed
qed simp

section \<open>Sectors\<close>

text \<open>What the file system relies on: a store of sectors that are read and written as a whole.\<close>

locale sector_store =
  fixes rd :: "u32 \<Rightarrow> 's \<Rightarrow> 'w list \<times> 's"
    and wr :: "u32 \<Rightarrow> 'w list \<Rightarrow> 's \<Rightarrow> 's"
    and sector :: "'s \<Rightarrow> u32 \<Rightarrow> 'w list"
    and size_ok :: "'w list \<Rightarrow> bool"
    and addr_ok :: "u32 \<Rightarrow> bool"
    and inv :: "'s \<Rightarrow> bool"
  assumes rd_inv: "inv s \<Longrightarrow> addr_ok l \<Longrightarrow> inv (snd (rd l s))"
    and wr_inv: "inv s \<Longrightarrow> addr_ok l \<Longrightarrow> size_ok b \<Longrightarrow> inv (wr l b s)"
    and rd_data: "inv s \<Longrightarrow> addr_ok l \<Longrightarrow> fst (rd l s) = sector s l"
    and rd_keeps: "inv s \<Longrightarrow> addr_ok l \<Longrightarrow> sector (snd (rd l s)) = sector s"
    and wr_data: "inv s \<Longrightarrow> addr_ok l \<Longrightarrow> size_ok b \<Longrightarrow> sector (wr l b s) = (sector s)(l := b)"
begin

text \<open>Writing the sectors \<open>l + i\<close> for \<open>i < n\<close> from a table, and reading them back.\<close>

lemma wr_all:
  assumes "inv s" "\<And>i. i < n \<Longrightarrow> addr_ok (l + of_nat i)" "\<And>i. i < n \<Longrightarrow> size_ok (b i)"
    "n \<le> 2 ^ 32"
  shows "inv (for_to n (\<lambda>i. wr (l + of_nat i) (b i)) s) \<and>
    (\<forall>i<n. sector (for_to n (\<lambda>i. wr (l + of_nat i) (b i)) s) (l + of_nat i) = b i)"
  using assms(2-)
proof (induction n)
  case 0
  then show ?case using assms(1) by simp
next
  case (Suc n)
  let ?s = "for_to n (\<lambda>i. wr (l + of_nat i) (b i)) s"
  have IH: "inv ?s" "\<forall>i<n. sector ?s (l + of_nat i) = b i" using Suc by simp_all
  have distinct: "l + of_nat i \<noteq> l + (of_nat n :: u32)" if "i < n" for i
  proof -
    have "unat (of_nat i :: u32) = i" "unat (of_nat n :: u32) = n"
      using that Suc.prems(3) by (simp_all add: unat_of_nat take_bit_nat_eq_self)
    then show ?thesis using that by (metis add_left_imp_eq less_irrefl)
  qed
  show ?case
    using IH Suc.prems distinct wr_inv [OF IH(1)] wr_data [OF IH(1)]
    by (auto simp: less_Suc_eq)
qed

lemma rd_keeps_all:
  assumes "inv s" "\<And>i. i < n \<Longrightarrow> addr_ok (l + of_nat i)"
  shows "inv (for_to n (\<lambda>i t. snd (rd (l + of_nat i) t)) s) \<and>
    sector (for_to n (\<lambda>i t. snd (rd (l + of_nat i) t)) s) = sector s"
  using assms(2) by (induction n) (simp_all add: assms(1) rd_inv rd_keeps)

end

definition ata_ready :: "device \<Rightarrow> drive \<Rightarrow> nat \<Rightarrow> 'a machine_scheme \<Rightarrow> bool" where
  "ata_ready dev d0 k s \<longleftrightarrow> ata_drive dev d0 k \<and> k < 10000 \<and>
     dmode (drive_after d0 k (trace s)) = Ready \<and> busy (drive_after d0 k (trace s)) = 0"

definition ata_sector :: "drive \<Rightarrow> nat \<Rightarrow> 'a machine_scheme \<Rightarrow> u32 \<Rightarrow> u16 list" where
  "ata_sector d0 k s l = map (disk (drive_after d0 k (trace s)) l) [0..<256]"

text \<open>The registers written by the driver address the sector it means.\<close>

lemma bit_bound: "(w :: u32) < 2 ^ k \<Longrightarrow> bit w n \<Longrightarrow> n < k"
  using less_mask_eq [of w k] by (metis bit_take_bit_iff take_bit_eq_mask)

lemma head_nibble:
  "(ucast ((ucast (0xE0 OR (x AND 0x0F) :: u32) :: u8) AND 0x0F) :: u32) = take_bit 4 x"
proof -
  have "(ucast (0xE0 OR (x AND 0x0F) :: u32) :: u8) = 0xE0 OR (ucast x AND 0x0F)"
    by (simp add: unsigned_or_eq unsigned_and_eq)
  moreover have "(0xE0 OR (ucast x AND 0x0F)) AND 0x0F = (ucast x AND 0x0F :: u8)"
    by (simp add: bit.conj_disj_distrib2 and.assoc)
  moreover have "ucast (ucast x AND 0x0F :: u8) = take_bit 4 x"
  proof -
    have m: "(0x0F :: u8) = mask 4" by (simp add: mask_numeral)
    show ?thesis unfolding m by (rule bit_word_eqI) (auto simp: bit_simps)
  qed
  ultimately show ?thesis by metis
qed

lemma byte_of_word: "(ucast (ucast (x :: u32) :: u8) :: u32) = take_bit 8 x"
  by (rule bit_word_eqI) (auto simp: bit_simps)

lemma lba_bytes:
  assumes "lba < 2 ^ 28"
  shows "push_bit 24 (take_bit 4 (drop_bit 24 lba)) OR push_bit 16 (take_bit 8 (drop_bit 16 lba)) OR
     push_bit 8 (take_bit 8 (drop_bit 8 lba)) OR take_bit 8 lba = (lba :: u32)" (is "?l = _")
proof (rule bit_word_eqI)
  fix n assume n: "n < LENGTH(32)"
  show "bit ?l n = bit lba n"
    using n bit_bound [OF assms, of n]
    by (cases "n < 8"; cases "n < 16"; cases "n < 24")
      (auto simp: bit_or_iff bit_push_bit_iff bit_take_bit_iff bit_drop_bit_eq)
qed

lemma ata_command_drive:
  assumes "busy (drive_after d0 k (trace s)) = 0" "lba < 2 ^ 28"
  shows "disk (drive_after d0 k (trace (ata_command lba comm s))) = disk (drive_after d0 k (trace s)) \<and>
    busy (drive_after d0 k (trace (ata_command lba comm s))) = k \<and>
    dmode (drive_after d0 k (trace (ata_command lba comm s))) =
      (if comm = ATA_COMM_READ then SendData lba 0
       else if comm = ATA_COMM_WRITE then TakeData lba 0 else Ready)"
  using assms lba_bytes [OF assms(2)]
  by (simp add: ata_command_def Let_def drive_accept_def drive_addr_def head_nibble byte_of_word or.assoc)

lemma ataRead_drive:
  assumes "ata_ready dev d0 k s" "lba < 2 ^ 28"
  shows "ata_ready dev d0 k (snd (ataRead dev lba s)) \<and>
    fst (ataRead dev lba s) = ata_sector d0 k s lba \<and>
    disk (drive_after d0 k (trace (snd (ataRead dev lba s)))) = disk (drive_after d0 k (trace s))"
proof -
  let ?s1 = "ata_command lba ATA_COMM_READ s"
  let ?s2 = "snd (waitDrive dev ?s1)"
  have r: "ata_drive dev d0 k" "k < 10000" "busy (drive_after d0 k (trace s)) = 0"
    using assms(1) by (simp_all add: ata_ready_def)
  have c: "disk (drive_after d0 k (trace ?s1)) = disk (drive_after d0 k (trace s))"
    "busy (drive_after d0 k (trace ?s1)) = k" "dmode (drive_after d0 k (trace ?s1)) = SendData lba 0"
    using ata_command_drive [OF r(3) assms(2), where comm = ATA_COMM_READ] by simp_all
  have w: "drive_after d0 k (trace ?s2) = (drive_after d0 k (trace ?s1))\<lparr>busy := 0\<rparr>"
    by (rule waitDrive_drive [OF r(1)]) (simp_all add: c r(2))
  have "fst (in_words dev 256 ?s2) = map (disk (drive_after d0 k (trace ?s2)) lba) [0..<256] \<and>
      drive_after d0 k (trace (snd (in_words dev 256 ?s2))) = (drive_after d0 k (trace ?s2))\<lparr>dmode := Ready\<rparr>"
    by (rule in_words_drive [OF r(1)]) (simp_all add: w c)
  then show ?thesis
    using r w c by (simp add: ataRead_def case_prod_beta Let_def ata_ready_def ata_sector_def)
qed

lemma ataWrite_drive:
  assumes "ata_ready dev d0 k s" "lba < 2 ^ 28" "length buf = 256"
  shows "ata_ready dev d0 k (ataWrite dev lba buf s) \<and>
    ata_sector d0 k (ataWrite dev lba buf s) = (ata_sector d0 k s)(lba := buf)"
proof -
  define s1 where "s1 = snd (ataWait dev ATA_SR_BSY 0 10000 s)"
  define s2 where "s2 = ata_command lba ATA_COMM_WRITE s1"
  define s3 where "s3 = snd (ataWait dev ATA_SR_DRQ ATA_SR_DRQ 10000 s2)"
  define s4 where "s4 = out_words buf s3"
  define s5 where "s5 = outb ATA_COMM ATA_COMM_FLUSH s4"
  have r: "ata_drive dev d0 k" "k < 10000" "busy (drive_after d0 k (trace s)) = 0"
      "dmode (drive_after d0 k (trace s)) = Ready"
    using assms(1) by (simp_all add: ata_ready_def)
  have d1: "drive_after d0 k (trace s1) = drive_after d0 k (trace s)"
    using ataWait_busy_drive [OF r(1), of s 10000] r(3) by (simp add: s1_def)
  have d2: "disk (drive_after d0 k (trace s2)) = disk (drive_after d0 k (trace s))"
      "busy (drive_after d0 k (trace s2)) = k" "dmode (drive_after d0 k (trace s2)) = TakeData lba 0"
    using ata_command_drive [of d0 k s1 lba, where comm = ATA_COMM_WRITE] d1 r(3) assms(2)
    by (simp_all add: s2_def)
  have d3: "fst (ataWait dev ATA_SR_DRQ ATA_SR_DRQ 10000 s2)"
      "drive_after d0 k (trace s3) = (drive_after d0 k (trace s2))\<lparr>busy := 0\<rparr>"
    using ataWait_data_drive [OF r(1), of s2 10000] d2 r(2) by (simp_all add: s3_def)
  have d4: "disk (drive_after d0 k (trace s4)) l j =
        (if l = lba \<and> j < 256 then buf ! j else disk (drive_after d0 k (trace s)) l j)"
      "dmode (drive_after d0 k (trace s4)) = Ready" "busy (drive_after d0 k (trace s4)) = k" for l j
  proof -
    have "buf \<noteq> []" using assms(3) by auto
    from out_words_drive [of d0 k s3 lba 0 buf l j, OF _ _ _ this] show
      "disk (drive_after d0 k (trace s4)) l j =
        (if l = lba \<and> j < 256 then buf ! j else disk (drive_after d0 k (trace s)) l j)"
      "dmode (drive_after d0 k (trace s4)) = Ready" "busy (drive_after d0 k (trace s4)) = k"
      using d3(2) d2 assms(3) by (simp_all add: s4_def)
  qed
  have d5: "disk (drive_after d0 k (trace s5)) = disk (drive_after d0 k (trace s4))"
      "dmode (drive_after d0 k (trace s5)) = Ready" "busy (drive_after d0 k (trace s5)) < 10000"
    using d4(2,3) r(2) by (simp_all add: s5_def drive_accept_def)
  have w: "ataWrite dev lba buf s = snd (ataWait dev ATA_SR_BSY 0 10000 s5)"
    using d3(1) assms(3)
    by (simp add: ataWrite_def case_prod_beta Let_def s5_def s4_def s3_def s2_def s1_def)
  have "drive_after d0 k (trace (ataWrite dev lba buf s)) = (drive_after d0 k (trace s5))\<lparr>busy := 0\<rparr>"
    unfolding w using ataWait_busy_drive [OF r(1) d5(3)] by simp
  then show ?thesis
    using r d5(1,2) d4(1) assms(3)
    by (auto simp: ata_ready_def ata_sector_def fun_eq_iff intro!: nth_equalityI)
qed

interpretation ata: sector_store "ataRead dev" "ataWrite dev" "ata_sector d0 k"
  "\<lambda>b. length b = 256" "\<lambda>l. l < 2 ^ 28" "ata_ready dev d0 k"
  for dev d0 k
proof unfold_locales
  fix s :: "'a machine_scheme" and l and b :: "u16 list"
  assume r: "ata_ready dev d0 k s" and l: "l < (2 :: u32) ^ 28"
  show "ata_ready dev d0 k (snd (ataRead dev l s))"
    and "fst (ataRead dev l s) = ata_sector d0 k s l"
    and "ata_sector d0 k (snd (ataRead dev l s)) = ata_sector d0 k s"
    using ataRead_drive [OF r l] by (simp_all add: ata_sector_def fun_eq_iff)
  assume b: "length b = 256"
  show "ata_ready dev d0 k (ataWrite dev l b s)"
    and "ata_sector d0 k (ataWrite dev l b s) = (ata_sector d0 k s)(l := b)"
    using ataWrite_drive [OF r l b] by simp_all
qed


section \<open>Frame and error paths\<close>

text \<open>The driver touches nothing but the ports.\<close>

definition only_io :: "'a machine_scheme \<Rightarrow> 'a machine_scheme \<Rightarrow> bool" where
  "only_io s s' \<longleftrightarrow> s' = s\<lparr>trace := trace s'\<rparr>"

lemma only_io_refl [simp]: "only_io s s"
  by (simp add: only_io_def)

lemma only_io_trans [trans]: "only_io r s \<Longrightarrow> only_io s t \<Longrightarrow> only_io r t"
  unfolding only_io_def by (metis machine.surjective machine.update_convs(1))

lemma only_io_ports [simp]:
  "only_io s (outb p v s)" "only_io s (outw p w s)"
  "only_io s (snd (inb dev p s))" "only_io s (snd (inw dev p s))"
  by (simp_all add: only_io_def port_io_shape)

lemma only_io_waits [simp]:
  "only_io s (snd (wait_not_busy dev n s))" "only_io s (snd (wait_data dev n s))"
  "only_io s (snd (ataWait dev m v n s))"
proof (induction n arbitrary: s)
  case (Suc n)
  { case (1 s) show ?case
      using only_io_trans [OF only_io_ports(3) [of s dev ATA_SR] Suc(1)]
      by (simp add: case_prod_beta Let_def) }
  { case (2 s) show ?case
      using only_io_trans [OF only_io_ports(3) [of s dev ATA_SR] Suc(2)]
      by (simp add: case_prod_beta Let_def) }
  { case (3 s) show ?case
      using only_io_trans [OF only_io_ports(3) [of s dev ATA_SR] Suc(3)]
      by (simp add: case_prod_beta Let_def) }
qed simp_all

lemma only_io_words [simp]:
  "only_io s (snd (in_words dev n s))" "only_io s (out_words ws s)"
proof -
  show "only_io s (snd (in_words dev n s))"
  proof (induction n arbitrary: s)
    case (Suc n)
    show ?case using only_io_trans [OF only_io_ports(4) Suc] by (simp add: case_prod_beta Let_def)
  qed simp
  show "only_io s (out_words ws s)"
  proof (induction ws arbitrary: s)
    case (Cons w ws)
    show ?case using only_io_trans [OF only_io_ports(2) Cons] by simp
  qed simp
qed

lemma only_io_command [simp]: "only_io s (ata_command lba c s)"
  by (simp add: ata_command_def Let_def only_io_def port_io_shape)

lemma only_io_waitDrive [simp]: "only_io s (snd (waitDrive dev s))"
  using only_io_trans [OF only_io_waits(1) [of s dev 10000] only_io_waits(2) [of _ dev 10000]]
  by (simp add: waitDrive_def case_prod_beta Let_def)

lemma only_io_ataRead [simp]: "only_io s (snd (ataRead dev lba s))"
  using only_io_trans [OF only_io_command only_io_trans [OF only_io_waitDrive only_io_words(1)]]
  by (simp add: ataRead_def case_prod_beta Let_def)

lemma only_io_ataWrite [simp]: "only_io s (ataWrite dev lba buf s)"
proof -
  let ?s1 = "snd (ataWait dev ATA_SR_BSY 0 10000 s)"
  let ?s3 = "snd (ataWait dev ATA_SR_DRQ ATA_SR_DRQ 10000 (ata_command lba ATA_COMM_WRITE ?s1))"
  have "only_io s ?s3"
    by (rule only_io_trans [OF only_io_waits(3) only_io_trans [OF only_io_command only_io_waits(3)]])
  moreover have "only_io ?s3 (snd (ataWait dev ATA_SR_BSY 0 10000
      (outb ATA_COMM ATA_COMM_FLUSH (out_words (take 256 buf) ?s3))))"
    by (rule only_io_trans [OF only_io_words(2) only_io_trans [OF only_io_ports(1) only_io_waits(3)]])
  ultimately show ?thesis
    using only_io_trans by (auto simp: ataWrite_def case_prod_beta Let_def)
qed

lemma ataRead_length [simp]: "length (fst (ataRead dev lba s)) = 256"
proof -
  have "length (fst (in_words dev n s)) = n" for n s
    by (induction n arbitrary: s) (simp_all add: case_prod_beta Let_def)
  then show ?thesis by (simp add: ataRead_def case_prod_beta Let_def)
qed

text \<open>Polling only reads the status register.\<close>

lemma ataWait_trace: "\<exists>vs. trace (snd (ataWait dev m v n s)) = map (InB ATA_SR) vs @ trace s"
proof (induction n arbitrary: s)
  case 0
  show ?case by (rule exI [where x = "[]"]) simp
next
  case (Suc n)
  let ?v = "fst (inb dev ATA_SR s)" and ?s1 = "snd (inb dev ATA_SR s)"
  have 1: "trace ?s1 = InB ATA_SR ?v # trace s" by (simp add: machine_trace_commute)
  obtain vs where vs: "trace (snd (ataWait dev m v n ?s1)) = map (InB ATA_SR) vs @ trace ?s1"
    using Suc.IH by blast
  show ?case
  proof (cases "?v AND m = v")
    case True
    then show ?thesis by (intro exI [where x = "[?v]"]) (simp add: case_prod_beta Let_def 1)
  next
    case False
    then show ?thesis
      by (intro exI [where x = "vs @ [?v]"]) (simp add: case_prod_beta Let_def vs 1)
  qed
qed

text \<open>
  A drive that is idle never shows DRQ. \<open>ataIdentify\<close> waits for DRQ before it sends any command,
  so on an idle drive it gives up: no command, no register write, result 0.
\<close>

lemma ataWait_idle:
  assumes "ata_drive dev d0 k" "dmode (drive_after d0 k (trace s)) = Ready"
  shows "\<not> fst (ataWait dev ATA_SR_DRQ ATA_SR_DRQ n s)"
  using assms(2)
proof (induction n arbitrary: s)
  case (Suc n)
  note poll = poll_drive [OF assms(1), of s]
  have "dmode (drive_after d0 k (trace (snd (inb dev ATA_SR s)))) = Ready"
    using Suc.prems poll(4) by simp
  from Suc.IH [OF this] poll(2) Suc.prems show ?case by (simp add: case_prod_beta Let_def drq_mask)
qed simp

lemma ataIdentify_waits:
  assumes "ata_ready dev d0 k s"
  shows "ataIdentify dev sh s =
    (Some 0, snd (ataWait dev ATA_SR_DRQ ATA_SR_DRQ 10000
      (snd (ataWait dev ATA_SR_BSY 0 10000 (snd (ataWait dev ATA_SR_BSY 0 10000 s))))))"
proof -
  have r: "ata_drive dev d0 k" "busy (drive_after d0 k (trace s)) = 0"
      "dmode (drive_after d0 k (trace s)) = Ready"
    using assms by (simp_all add: ata_ready_def)
  define s1 where "s1 = snd (ataWait dev ATA_SR_BSY 0 10000 s)"
  define s2 where "s2 = snd (ataWait dev ATA_SR_BSY 0 10000 s1)"
  have 1: "fst (ataWait dev ATA_SR_BSY 0 10000 s)" "drive_after d0 k (trace s1) = drive_after d0 k (trace s)"
    using ataWait_busy_drive [OF r(1), of s 10000] r(2) by (simp_all add: s1_def)
  have 2: "fst (ataWait dev ATA_SR_BSY 0 10000 s1)" "drive_after d0 k (trace s2) = drive_after d0 k (trace s)"
    using ataWait_busy_drive [OF r(1), of s1 10000] r(2) 1(2) by (simp_all add: s2_def)
  have 3: "\<not> fst (ataWait dev ATA_SR_DRQ ATA_SR_DRQ 10000 s2)"
    by (rule ataWait_idle [OF r(1)]) (simp add: 2(2) 1(2) r(3))
  show ?thesis
    using 1(1) 2(1) 3 by (simp add: ataIdentify_def case_prod_beta Let_def s2_def s1_def)
qed

lemma ataIdentify_idle:
  assumes "ata_ready dev d0 k s"
  shows "fst (ataIdentify dev sh s) = Some 0 \<and>
    (\<exists>vs. trace (snd (ataIdentify dev sh s)) = map (InB ATA_SR) vs @ trace s)"
proof -
  define s1 where "s1 = snd (ataWait dev ATA_SR_BSY 0 10000 s)"
  define s2 where "s2 = snd (ataWait dev ATA_SR_BSY 0 10000 s1)"
  define s3 where "s3 = snd (ataWait dev ATA_SR_DRQ ATA_SR_DRQ 10000 s2)"
  have "ataIdentify dev sh s = (Some 0, s3)"
    unfolding s3_def s2_def s1_def by (rule ataIdentify_waits [OF assms])
  moreover obtain v1 v2 v3 where "trace s1 = map (InB ATA_SR) v1 @ trace s"
      "trace s2 = map (InB ATA_SR) v2 @ trace s1" "trace s3 = map (InB ATA_SR) v3 @ trace s2"
    using ataWait_trace s1_def s2_def s3_def by metis
  then have "trace s3 = map (InB ATA_SR) (v3 @ v2 @ v1) @ trace s" by simp
  ultimately show ?thesis by (metis fst_conv snd_conv)
qed

text \<open>The status reads change an idle drive no more than anything else of the state.\<close>

lemma ataIdentify_keeps:
  assumes "ata_ready dev d0 k s"
  shows "only_io s (snd (ataIdentify dev sh s))"
    "drive_after d0 k (trace (snd (ataIdentify dev sh s))) = drive_after d0 k (trace s)"
proof -
  show "only_io s (snd (ataIdentify dev sh s))"
    unfolding ataIdentify_waits [OF assms] snd_conv
    by (rule only_io_trans [OF only_io_trans [OF only_io_waits(3) only_io_waits(3)] only_io_waits(3)])
  have "drive_after d0 k (map (InB ATA_SR) vs @ trace s) = drive_after d0 k (trace s)" for vs
    using assms by (induction vs) (simp_all add: ata_ready_def)
  then show "drive_after d0 k (trace (snd (ataIdentify dev sh s))) = drive_after d0 k (trace s)"
    using ataIdentify_idle [OF assms, of sh] by auto
qed

text \<open>
  A drive that never shows DRQ gets no data: \<open>ataWrite\<close> returns without a word sent.
\<close>

definition words_out :: "event list \<Rightarrow> nat" where
  "words_out tr = length (filter (\<lambda>e. case e of OutW p w \<Rightarrow> True | _ \<Rightarrow> False) tr)"

lemma words_out_polls: "words_out (trace (snd (ataWait dev m v n s))) = words_out (trace s)"
  using ataWait_trace [of dev m v n s] by (auto simp: words_out_def)

lemma ataWrite_timeout:
  assumes "\<And>tr. dev tr ATA_SR AND 8 = 0"
  shows "words_out (trace (ataWrite dev lba buf s)) = words_out (trace s)"
proof -
  have poll: "fst (inb dev ATA_SR t) AND 8 = 0" for t :: "'a machine_scheme"
  proof -
    have "(ucast (dev (trace t) ATA_SR) AND 8 :: u8) = ucast (dev (trace t) ATA_SR AND 8)"
      by (simp add: unsigned_and_eq)
    then show ?thesis using assms [of "trace t"] by (simp add: port_io_shape)
  qed
  have never: "\<not> fst (ataWait dev ATA_SR_DRQ ATA_SR_DRQ n t)" for n and t :: "'a machine_scheme"
    by (induction n arbitrary: t) (simp_all add: case_prod_beta Let_def poll)
  have "words_out (trace (ata_command lba c t)) = words_out (trace t)" for c and t :: "'a machine_scheme"
    by (simp add: ata_command_def Let_def port_io_shape words_out_def)
  then show ?thesis
    using never by (simp add: ataWrite_def case_prod_beta Let_def words_out_polls)
qed

end
