(* ===== verification/Tar_Numbers.thy ===== *)
theory Tar_Numbers
  imports Lantern_Prelude
begin

text \<open>
  The numbers of a tar header (src/ustar.c): octal fields read by \<open>oct2bin\<close> and written by
  \<open>bin2oct\<close> and \<open>bin2oct_padded\<close>, the sector arithmetic of \<open>ceilDiv\<close>, and the calendar
  conversion \<open>unix2date\<close> of the directory listing.
\<close>

section \<open>Octal fields\<close>

text \<open>\<open>str\<close> is the \<open>size\<close> bytes the loop reads; nothing checks that they are octal digits.\<close>

fun oct2bin_loop :: "u8 list \<Rightarrow> u32 \<Rightarrow> u32" where
  "oct2bin_loop [] n = n"
| "oct2bin_loop (c # cs) n = oct2bin_loop cs (n * 8 + (ucast c - 48))"

definition oct2bin :: "u8 list \<Rightarrow> u32" where
  "oct2bin str = oct2bin_loop str 0"

text \<open>The digits as \<open>bin2oct\<close> stores them in \<open>temp\<close>, lowest first.\<close>

function oct_digits :: "u32 \<Rightarrow> u8 list" where
  "oct_digits num = (if num > 0 then (ucast (num mod 8) + 48) # oct_digits (num div 8) else [])"
  by pat_completeness auto
termination
  by (relation "measure unat") (auto simp: unat_div word_greater_zero_iff unat_gt_0)

declare oct_digits.simps [simp del]

definition bin2oct :: "u32 \<Rightarrow> u8 list" where
  "bin2oct num = (if num = 0 then [asc CHR ''0'', 0] else rev (oct_digits num) @ [0])"

text \<open>The bytes stored in \<open>str[0]\<close> to \<open>str[width - 1]\<close>; the last one is stored first.\<close>

fun bin2oct_padded :: "u32 \<Rightarrow> nat \<Rightarrow> u8 list" where
  "bin2oct_padded num 0 = []"
| "bin2oct_padded num (Suc i) = bin2oct_padded (num div 8) i @ [ucast (num mod 8) + 48]"

text \<open>\<open>ceilDiv\<close> on \<open>int\<close>: C division truncates towards zero.\<close>

definition ceilDiv :: "int \<Rightarrow> int \<Rightarrow> int" where
  "ceilDiv x y = x sdiv y + (if x smod y \<noteq> 0 then 1 else 0)"

section \<open>Dates\<close>

record Datetime =
  year :: nat
  month :: nat
  day :: nat
  hour :: nat
  minute :: nat
  second :: nat

definition leap_year :: "nat \<Rightarrow> bool" where
  "leap_year y \<longleftrightarrow> y mod 4 = 0 \<and> (y mod 100 \<noteq> 0 \<or> y mod 400 = 0)"

definition days_in_year :: "nat \<Rightarrow> nat" where
  "days_in_year y = (if leap_year y then 366 else 365)"

lemma days_in_year_pos [simp]: "days_in_year y > 0"
  by (simp add: days_in_year_def)

function year_loop :: "nat \<Rightarrow> nat \<Rightarrow> nat \<times> nat" where
  "year_loop y days =
     (if days < days_in_year y then (y, days) else year_loop (y + 1) (days - days_in_year y))"
  by pat_completeness auto
termination
  by (relation "measure snd") (auto simp: not_less intro!: diff_less dest: less_le_trans [OF days_in_year_pos])

declare year_loop.simps [simp del]

definition days_per_month :: "nat list" where
  "days_per_month = [31, 28, 31, 30, 31, 30, 31, 31, 30, 31, 30, 31]"

definition days_in_month :: "bool \<Rightarrow> nat \<Rightarrow> nat" where
  "days_in_month leap m = (if m = 1 \<and> leap then 29 else days_per_month ! m)"

function month_loop :: "bool \<Rightarrow> nat \<Rightarrow> nat \<Rightarrow> nat \<times> nat" where
  "month_loop leap m days =
     (if m < 12
      then (let dim = days_in_month leap m
            in if days < dim then (m, days) else month_loop leap (m + 1) (days - dim))
      else (m, days))"
  by pat_completeness auto
termination
  by (relation "measure (\<lambda>(leap, m, days). 12 - m)") auto

declare month_loop.simps [simp del]

definition unix2date :: "u32 \<Rightarrow> Datetime" where
  "unix2date seconds =
     (let days = unat seconds div 86400;
          rem = unat seconds mod 86400;
          (y, days1) = year_loop 1970 days;
          (m, days2) = month_loop (leap_year y) 0 days1
      in \<lparr>year = y, month = m + 1, day = days2 + 1,
          hour = rem div 3600, minute = rem mod 3600 div 60, second = rem mod 60\<rparr>)"

section \<open>Octal round trips\<close>

lemma oct2bin_loop_append: "oct2bin_loop (xs @ ys) n = oct2bin_loop ys (oct2bin_loop xs n)"
  by (induction xs arbitrary: n) auto

lemma length_bin2oct_padded [simp]: "length (bin2oct_padded num w) = w"
  by (induction w arbitrary: num) auto

lemma oct_digit_byte:
  "(ucast (ucast (num mod 8 :: u32) + 48 :: u8) :: u32) = num mod 8 + 48"
proof -
  have d: "unat (num mod 8) < 8" by (simp add: unat_mod)
  have "unat (ucast (num mod 8) + 48 :: u8) = unat (num mod 8) + 48"
    using d by (simp add: unat_word_ariths unsigned_ucast_eq take_bit_eq_mod)
  moreover have "unat (num mod 8 + 48) = unat (num mod 8) + 48"
    using d by (simp add: unat_word_ariths)
  ultimately have "unat (ucast (ucast (num mod 8) + 48 :: u8) :: u32) = unat (num mod 8 + 48)"
    using d by (simp add: unsigned_ucast_eq take_bit_eq_mod)
  then show ?thesis by (simp add: word_unat_eq_iff)
qed

text \<open>
  A field of \<open>w\<close> digits holds the value modulo \<open>8 ^ w\<close>: the digits above are dropped without a
  sign.
\<close>

lemma oct2bin_padded_nat: "oct2bin (bin2oct_padded num w) = of_nat (unat num mod 8 ^ w)"
proof (induction w arbitrary: num)
  case 0
  show ?case by (simp add: oct2bin_def)
next
  case (Suc w)
  let ?q = "num div 8"
  have "oct2bin (bin2oct_padded num (Suc w)) = oct2bin (bin2oct_padded ?q w) * 8 + num mod 8"
    by (simp add: oct2bin_def oct2bin_loop_append oct_digit_byte)
  also have "\<dots> = of_nat (unat num div 8 mod 8 ^ w * 8 + unat num mod 8)"
  proof -
    have "num mod 8 = of_nat (unat (num mod 8))" by simp
    then have "num mod 8 = of_nat (unat num mod 8)" by (simp only: unat_mod) simp
    then show ?thesis using Suc [of ?q] by (simp add: unat_div)
  qed
  also have "unat num div 8 mod 8 ^ w * 8 + unat num mod 8 = unat num mod 8 ^ Suc w"
    by (simp add: mod_mult2_eq mult.commute)
  finally show ?case .
qed

lemma oct2bin_padded [simp]: "oct2bin (bin2oct_padded num 11) = num"
proof -
  have "unat num < 2 ^ LENGTH(32)" by (rule unsigned_less)
  then show ?thesis by (simp add: oct2bin_padded_nat)
qed

lemma oct2bin_loop_zeros [simp]: "oct2bin_loop (replicate k 48) 0 = 0"
  by (induction k) auto

lemma bin2oct_padded_zero: "bin2oct_padded 0 w = replicate w 48"
  by (induction w) (auto simp: replicate_append_same)

lemma oct2bin_oct_digits: "oct2bin (rev (oct_digits num)) = num"
proof (induction num rule: oct_digits.induct)
  case (1 num)
  show ?case
  proof (cases "num > 0")
    case True
    have "oct2bin (rev (oct_digits num)) = oct2bin (rev (oct_digits (num div 8))) * 8 + num mod 8"
      using True by (subst oct_digits.simps) (simp add: oct2bin_def oct2bin_loop_append oct_digit_byte)
    also have "\<dots> = num div 8 * 8 + num mod 8" using "1.IH" [OF True] by simp
    also have "\<dots> = num" by (rule div_mult_mod_eq)
    finally show ?thesis .
  next
    case False
    then show ?thesis by (subst oct_digits.simps) (simp add: oct2bin_def word_greater_zero_iff)
  qed
qed

lemma oct_digits_length: "unat num < 8 ^ k \<Longrightarrow> length (oct_digits num) \<le> k"
proof (induction k arbitrary: num)
  case 0
  then show ?case by (subst oct_digits.simps) (simp add: word_greater_zero_iff unat_eq_0)
next
  case (Suc k)
  have "unat (num div 8) < 8 ^ k"
    using Suc.prems by (simp add: unat_div div_less_iff_less_mult mult.commute)
  from Suc.IH [OF this] show ?case by (subst oct_digits.simps) simp
qed

text \<open>\<open>bin2oct\<close> is read back, and its text with the NUL fits the 12 bytes of \<open>temp\<close> and of a size field.\<close>

lemma bin2oct_spec:
  "oct2bin (butlast (bin2oct num)) = num" "last (bin2oct num) = 0" "length (bin2oct num) \<le> 12"
proof -
  show "oct2bin (butlast (bin2oct num)) = num"
    using oct2bin_oct_digits [of num] by (simp add: bin2oct_def oct2bin_def)
  show "last (bin2oct num) = 0" by (simp add: bin2oct_def)
  have "unat num < 2 ^ LENGTH(32)" by (rule unsigned_less)
  then have "unat num < 8 ^ 11" by simp
  from oct_digits_length [OF this] show "length (bin2oct num) \<le> 12" by (simp add: bin2oct_def)
qed

section \<open>The calendar\<close>

text \<open>The reference: the days before a year and before a month, and the seconds of a date.\<close>

definition days_before_year :: "nat \<Rightarrow> nat" where
  "days_before_year y = sum_list (map days_in_year [1970..<y])"

definition days_before_month :: "bool \<Rightarrow> nat \<Rightarrow> nat" where
  "days_before_month leap m = sum_list (map (days_in_month leap) [0..<m])"

definition valid_date :: "Datetime \<Rightarrow> bool" where
  "valid_date dt \<longleftrightarrow> 1970 \<le> year dt \<and> 1 \<le> month dt \<and> month dt \<le> 12 \<and>
     1 \<le> day dt \<and> day dt \<le> days_in_month (leap_year (year dt)) (month dt - 1) \<and>
     hour dt < 24 \<and> minute dt < 60 \<and> second dt < 60"

definition date_seconds :: "Datetime \<Rightarrow> nat" where
  "date_seconds dt =
     ((days_before_year (year dt) + days_before_month (leap_year (year dt)) (month dt - 1)
       + (day dt - 1)) * 24 + hour dt) * 3600 + minute dt * 60 + second dt"

lemma days_before_year_simps [simp]:
  "days_before_year 1970 = 0"
  "1970 \<le> y \<Longrightarrow> days_before_year (Suc y) = days_before_year y + days_in_year y"
  by (simp_all add: days_before_year_def)

lemma days_before_month_Suc [simp]:
  "days_before_month leap 0 = 0"
  "days_before_month leap (Suc m) = days_before_month leap m + days_in_month leap m"
  by (simp_all add: days_before_month_def)

lemma days_of_the_months: "days_before_month leap 12 = (if leap then 366 else 365)"
  by (simp add: days_before_month_def days_in_month_def days_per_month_def upt_rec)

lemma year_loop_spec:
  assumes "1970 \<le> y"
  shows "y \<le> fst (year_loop y d) \<and> snd (year_loop y d) < days_in_year (fst (year_loop y d)) \<and>
    days_before_year (fst (year_loop y d)) + snd (year_loop y d) = days_before_year y + d"
  using assms
proof (induction y d rule: year_loop.induct)
  case (1 y d)
  show ?case
  proof (cases "d < days_in_year y")
    case True
    then show ?thesis by (simp add: year_loop.simps)
  next
    case False
    have "year_loop y d = year_loop (y + 1) (d - days_in_year y)"
      using False by (subst year_loop.simps) simp
    then show ?thesis using False "1.IH" "1.prems" by auto
  qed
qed

lemma year_loop_inverse:
  assumes "y0 \<le> y" "1970 \<le> y0" "d < days_in_year y"
  shows "year_loop y0 (days_before_year y - days_before_year y0 + d) = (y, d)"
proof -
  have mono: "days_before_year y0 \<le> days_before_year (y0 + k)" for k
    using assms(2) by (induction k) auto
  have "year_loop y0 (days_before_year (y0 + k) - days_before_year y0 + d) = (y0 + k, d)"
    if "d < days_in_year (y0 + k)" for k
    using that assms(2)
  proof (induction k arbitrary: y0)
    case 0
    then show ?case by (simp add: year_loop.simps)
  next
    case (Suc k)
    have IH: "year_loop (y0 + 1) (days_before_year (y0 + 1 + k) - days_before_year (y0 + 1) + d) = (y0 + 1 + k, d)"
      using Suc.IH [of "y0 + 1"] Suc.prems by (simp del: days_before_year_simps)
    have le: "days_before_year (y0 + 1) \<le> days_before_year (y0 + 1 + k)"
      using Suc.prems(2) by (induction k) auto
    have split: "days_before_year (y0 + 1) = days_before_year y0 + days_in_year y0"
      using Suc.prems(2) by simp
    show ?case using IH le split by (subst year_loop.simps) simp
  qed
  from this [of "y - y0"] assms show ?thesis by simp
qed

lemma month_loop_spec:
  assumes "m \<le> 12" "days_before_month leap m + d < days_before_month leap 12"
  shows "fst (month_loop leap m d) < 12 \<and>
    snd (month_loop leap m d) < days_in_month leap (fst (month_loop leap m d)) \<and>
    days_before_month leap (fst (month_loop leap m d)) + snd (month_loop leap m d)
      = days_before_month leap m + d"
  using assms
proof (induction leap m d rule: month_loop.induct)
  case (1 leap m d)
  have "m < 12" using "1.prems" by (cases "m = 12") auto
  show ?case
  proof (cases "d < days_in_month leap m")
    case True
    then show ?thesis using \<open>m < 12\<close> by (simp add: month_loop.simps)
  next
    case False
    have "month_loop leap m d = month_loop leap (m + 1) (d - days_in_month leap m)"
      using False \<open>m < 12\<close> by (subst month_loop.simps) simp
    then show ?thesis using False \<open>m < 12\<close> "1.IH" [OF \<open>m < 12\<close> refl False] "1.prems" by simp
  qed
qed

lemma month_loop_inverse:
  assumes "m < 12" "d < days_in_month leap m" "k \<le> m"
  shows "month_loop leap (m - k) (days_before_month leap m - days_before_month leap (m - k) + d) = (m, d)"
  using assms(3)
proof (induction k)
  case 0
  then show ?case using assms by (simp add: month_loop.simps)
next
  case (Suc k)
  let ?j = "m - Suc k"
  have j: "m - k = Suc ?j" "?j < 12" using Suc.prems assms(1) by simp_all
  have mono: "days_before_month leap (Suc ?j) \<le> days_before_month leap (Suc ?j + i)" for i
    by (induction i) auto
  have le: "days_before_month leap (Suc ?j) \<le> days_before_month leap m"
    using mono [of k] j(1) Suc.prems by simp
  show ?case using Suc.IH Suc.prems j le by (subst month_loop.simps) (simp add: Let_def)
qed

lemma days_in_month_le: "m < 12 \<Longrightarrow> days_in_month leap m \<le> 31"
  by (auto simp: days_in_month_def days_per_month_def less_Suc_eq numeral_eq_Suc)

text \<open>Every time stamp becomes a date of the calendar, and that date is the time stamp's.\<close>

lemma unix2date_spec: "valid_date (unix2date t) \<and> date_seconds (unix2date t) = unat t"
proof -
  let ?n = "unat t"
  obtain y d1 where y: "year_loop 1970 (?n div 86400) = (y, d1)" by fastforce
  obtain m d2 where m: "month_loop (leap_year y) 0 d1 = (m, d2)" by fastforce
  have Y: "1970 \<le> y" "d1 < days_in_year y" "days_before_year y + d1 = ?n div 86400"
    using year_loop_spec [of 1970 "?n div 86400"] y by auto
  have "d1 < days_before_month (leap_year y) 12"
    using Y(2) by (simp only: days_of_the_months days_in_year_def)
  then have M: "m < 12" "d2 < days_in_month (leap_year y) m" "days_before_month (leap_year y) m + d2 = d1"
    using month_loop_spec [of 0 "leap_year y" d1] m by auto
  define r where "r = ?n mod 86400"
  have r: "r < 86400" "?n = ?n div 86400 * 86400 + r"
    unfolding r_def by simp_all
  have hms: "r div 3600 < 24" "r div 3600 * 3600 + r mod 3600 div 60 * 60 + r mod 60 = r"
  proof -
    show "r div 3600 < 24" using r(1) by (simp add: div_less_iff_less_mult)
    have "r mod 60 = r mod 3600 mod 60" by (simp add: mod_mod_cancel)
    then show "r div 3600 * 3600 + r mod 3600 div 60 * 60 + r mod 60 = r"
      using div_mult_mod_eq [of "r mod 3600" 60] div_mult_mod_eq [of r 3600] by linarith
  qed
  have u: "unix2date t = \<lparr>year = y, month = m + 1, day = d2 + 1, hour = r div 3600,
      minute = r mod 3600 div 60, second = r mod 60\<rparr>"
    by (simp add: unix2date_def y m r_def Let_def)
  have "minute (unix2date t) < 60" by (simp add: u div_less_iff_less_mult)
  then have "valid_date (unix2date t)" using Y(1) M hms(1) by (simp add: valid_date_def u)
  moreover have "date_seconds (unix2date t) =
      (days_before_year y + (days_before_month (leap_year y) m + d2)) * 86400
      + (r div 3600 * 3600 + r mod 3600 div 60 * 60 + r mod 60)"
    by (simp add: date_seconds_def u)
  ultimately show ?thesis using M(3) Y(3) hms(2) r(2) by simp
qed

text \<open>And no date of the calendar is lost: it is what its own time stamp becomes.\<close>

lemma unix2date_inverse:
  assumes "valid_date dt" "date_seconds dt < 2 ^ 32"
  shows "unix2date (of_nat (date_seconds dt)) = dt"
proof -
  let ?l = "leap_year (year dt)"
  define m d where "m = month dt - 1" and "d = day dt - 1"
  let ?hms = "hour dt * 3600 + minute dt * 60 + second dt"
  let ?days = "days_before_year (year dt) + (days_before_month ?l m + d)"
  have v: "1970 \<le> year dt" "m < 12" "d < days_in_month ?l m" "hour dt < 24" "minute dt < 60"
      "second dt < 60" "month dt = m + 1" "day dt = d + 1"
    using assms(1) by (auto simp: valid_date_def m_def d_def)
  have hms: "?hms < 86400" using v by linarith
  have secs: "date_seconds dt = ?days * 86400 + ?hms"
    by (simp add: date_seconds_def m_def d_def algebra_simps)
  have un: "unat (of_nat (date_seconds dt) :: u32) = date_seconds dt"
    using assms(2) by (simp add: unsigned_of_nat take_bit_nat_eq_self)
  have parts: "date_seconds dt div 86400 = ?days" "date_seconds dt mod 86400 = ?hms"
    using hms unfolding secs by (simp_all only: div_mult_self3 mod_mult_self3) simp_all
  have mono: "days_before_month ?l (Suc m) \<le> days_before_month ?l (Suc m + i)" for i
    by (induction i) auto
  have "days_before_month ?l m + d < days_before_month ?l 12"
    using mono [of "11 - m"] v(2,3) by simp
  then have "days_before_month ?l m + d < days_in_year (year dt)"
    by (simp only: days_of_the_months days_in_year_def)
  then have y: "year_loop 1970 ?days = (year dt, days_before_month ?l m + d)"
    using year_loop_inverse [of 1970 "year dt"] v(1) by simp
  have ml: "month_loop ?l 0 (days_before_month ?l m + d) = (m, d)"
    using month_loop_inverse [OF v(2,3), of m] by simp
  have ms: "minute dt * 60 + second dt < 3600" using v(5,6) by linarith
  have "?hms = hour dt * 3600 + (minute dt * 60 + second dt)" by simp
  then have "?hms div 3600 = hour dt" "?hms mod 3600 = minute dt * 60 + second dt"
    using ms by (simp_all only: div_mult_self3 mod_mult_self3) simp_all
  moreover have "?hms = (hour dt * 60 + minute dt) * 60 + second dt" by simp
  then have "?hms mod 60 = second dt" using v(6) by (simp only: mod_mult_self3) simp
  moreover have "(minute dt * 60 + second dt) div 60 = minute dt" using v(6) by simp
  ultimately have "?hms div 3600 = hour dt" "?hms mod 3600 div 60 = minute dt" "?hms mod 60 = second dt"
    by simp_all
  then show ?thesis using v(7,8) by (simp add: unix2date_def un parts y ml)
qed

text \<open>The last date a 32 bit time stamp reaches is in 2106.\<close>

lemma unix2date_year: "year (unix2date t) \<le> 2106"
proof (rule ccontr)
  assume "\<not> year (unix2date t) \<le> 2106"
  then obtain k where k: "year (unix2date t) = 2107 + k"
    using le_Suc_ex [of 2107 "year (unix2date t)"] by auto
  have "days_before_year (1970 + n) \<ge> 365 * n" for n
  proof (induction n)
    case (Suc n)
    have "days_in_year (1970 + n) \<ge> 365" by (simp add: days_in_year_def)
    moreover have "days_before_year (1970 + Suc n) = days_before_year (1970 + n) + days_in_year (1970 + n)"
      unfolding add_Suc_right by (rule days_before_year_simps(2)) simp
    ultimately show ?case using Suc by simp
  qed simp
  from this [of "137 + k"] have "days_before_year (2107 + k) \<ge> 365 * 137" by simp
  then have "date_seconds (unix2date t) \<ge> 365 * 137 * 86400" by (simp add: date_seconds_def k)
  moreover have "unat t < 2 ^ LENGTH(32)" by (rule unsigned_less)
  ultimately show False using unix2date_spec [of t] by simp
qed

lemma unix2date_billennium:
  "unix2date 1000000000 =
     \<lparr>year = 2001, month = 9, day = 9, hour = 1, minute = 46, second = 40\<rparr>"
proof -
  have y: "days_before_year 2001 = 11323"
    by (simp add: days_before_year_def days_in_year_def leap_year_def upt_rec)
  have m: "days_before_month False 8 = 243"
    by (simp add: days_before_month_def days_in_month_def days_per_month_def upt_rec)
  let ?dt = "\<lparr>year = 2001, month = 9, day = 9, hour = 1, minute = 46, second = 40\<rparr>"
  have l: "\<not> leap_year 2001" by (simp add: leap_year_def)
  have s: "date_seconds ?dt = 1000000000" using l y m by (simp add: date_seconds_def)
  have "valid_date ?dt" using l by (simp add: valid_date_def days_in_month_def days_per_month_def)
  from unix2date_inverse [OF this] s show ?thesis by simp
qed

end
