(* ===== verification/Ustar.thy ===== *)
theory Ustar
  imports Ata Tar_Numbers "HOL-Library.While_Combinator"
begin

text \<open>
  The file system of src/ustar.c: a tar archive in the memory buffer \<open>tarBuf\<close>, loaded from the disk
  and flushed to it. A \<open>struct TarHeader *\<close> is the offset of the header in \<open>tarBuf\<close>; an access
  outside the buffer is the fault \<open>OutOfBounds\<close>. The loops that walk the headers need not end (a
  size field can lead back): they are \<open>while_option\<close>, whose value \<open>None\<close> is the fault
  \<open>Diverges\<close>. The kernel is compiled with \<open>NO_DIR\<close> (src/src/settings.mk).
\<close>

abbreviation TAR_MAX_SECTORS :: nat where "TAR_MAX_SECTORS \<equiv> 1024"
abbreviation TAR_BUF_SIZE :: nat where "TAR_BUF_SIZE \<equiv> 524288"
abbreviation TAR_START_LBA :: u32 where "TAR_START_LBA \<equiv> 101"
abbreviation TAR_FILE :: u8 where "TAR_FILE \<equiv> 0x30"
abbreviation TAR_DIR :: u8 where "TAR_DIR \<equiv> 0x35"

type_synonym buffer = "nat \<Rightarrow> u8"

record tarfs = keyboard +
  tarBuf :: buffer

section \<open>Header fields\<close>

text \<open>The offsets of the fields of \<open>struct TarHeader\<close>.\<close>

abbreviation AT_MODE :: nat where "AT_MODE \<equiv> 100"
abbreviation AT_OWNER_ID :: nat where "AT_OWNER_ID \<equiv> 108"
abbreviation AT_GROUP_ID :: nat where "AT_GROUP_ID \<equiv> 116"
abbreviation AT_SIZE :: nat where "AT_SIZE \<equiv> 124"
abbreviation AT_TIME :: nat where "AT_TIME \<equiv> 136"
abbreviation AT_CHECKSUM :: nat where "AT_CHECKSUM \<equiv> 148"
abbreviation AT_TYPE :: nat where "AT_TYPE \<equiv> 156"
abbreviation AT_USTAR :: nat where "AT_USTAR \<equiv> 257"
abbreviation AT_USTAR_VER :: nat where "AT_USTAR_VER \<equiv> 263"
abbreviation AT_OWNER_NAME :: nat where "AT_OWNER_NAME \<equiv> 265"
abbreviation AT_OWNER_GROUP :: nat where "AT_OWNER_GROUP \<equiv> 297"

definition field :: "buffer \<Rightarrow> nat \<Rightarrow> nat \<Rightarrow> u8 list" where
  "field buf p len = map (\<lambda>i. buf (p + i)) [0..<len]"

fun write_bytes :: "buffer \<Rightarrow> nat \<Rightarrow> u8 list \<Rightarrow> buffer" where
  "write_bytes buf p [] = buf"
| "write_bytes buf p (c # cs) = write_bytes (buf(p := c)) (p + 1) cs"

definition header_in :: "int \<Rightarrow> bool" where
  "header_in p \<longleftrightarrow> 0 \<le> p \<and> p + 512 \<le> int TAR_BUF_SIZE"

definition header_size :: "buffer \<Rightarrow> nat \<Rightarrow> u32" where
  "header_size buf p = oct2bin (field buf (p + AT_SIZE) 11)"

definition tarValid :: "buffer \<Rightarrow> nat \<Rightarrow> bool" where
  "tarValid buf th \<longleftrightarrow>
     field buf (th + AT_USTAR) 5 = bytes ''ustar'' \<and> buf (th + AT_TYPE) \<noteq> TAR_DIR"

text \<open>
  The bytes from a header to the next one; the product \<open>blocks * 512\<close> is an \<open>int\<close>: it wraps.
  \<open>tarRm\<close> computes the same expression.
\<close>

definition file_bytes :: "buffer \<Rightarrow> nat \<Rightarrow> int" where
  "file_bytes buf th =
     (let size = sint (header_size buf th);
          blocks = ceilDiv size 512 + 1
      in sint (word_of_int (blocks * 512) :: u32))"

definition tarNext :: "buffer \<Rightarrow> nat \<Rightarrow> int" where
  "tarNext buf th = int th + file_bytes buf th"

section \<open>Walking the archive\<close>

definition tarGetEnd :: "buffer \<Rightarrow> fault + nat" where
  "tarGetEnd buf =
     (case while_option (\<lambda>cur. header_in cur \<and> tarValid buf (nat cur))
             (\<lambda>cur. tarNext buf (nat cur)) 0 of
        None \<Rightarrow> Inl Diverges
      | Some cur \<Rightarrow> if header_in cur then Inr (nat cur) else Inl OutOfBounds)"

text \<open>\<open>strcmp\<close> of the string in the buffer with a C string, compared with 0.\<close>

fun strcmp_eq :: "buffer \<Rightarrow> nat \<Rightarrow> u8 list \<Rightarrow> fault + bool" where
  "strcmp_eq buf p [] = (if p < TAR_BUF_SIZE then Inr (buf p = 0) else Inl OutOfBounds)"
| "strcmp_eq buf p (c # cs) =
     (if p < TAR_BUF_SIZE then if buf p = c then strcmp_eq buf (p + 1) cs else Inr False
      else Inl OutOfBounds)"

definition tarFind :: "buffer \<Rightarrow> u8 list \<Rightarrow> fault + nat option" where
  "tarFind buf fname =
     (case while_option
             (\<lambda>cur. header_in cur \<and> tarValid buf (nat cur) \<and>
                strcmp_eq buf (nat cur) fname = Inr False)
             (\<lambda>cur. tarNext buf (nat cur)) 0 of
        None \<Rightarrow> Inl Diverges
      | Some cur \<Rightarrow>
          if \<not> header_in cur then Inl OutOfBounds
          else if \<not> tarValid buf (nat cur) then Inr None
          else bindR (strcmp_eq buf (nat cur) fname) (\<lambda>same. Inr (Some (nat cur))))"

text \<open>\<open>tarRead\<close> returns the size, and stores the offset of the data when the file is there.\<close>

definition tarRead :: "buffer \<Rightarrow> u8 list \<Rightarrow> fault + u32 \<times> nat option" where
  "tarRead buf fname =
     bindR (tarFind buf fname)
       (\<lambda>th. case th of
               None \<Rightarrow> Inr (- 1, None)
             | Some p \<Rightarrow> Inr (header_size buf p, Some (p + 512)))"

definition tarReadFile :: "buffer \<Rightarrow> u8 list \<Rightarrow> fault + u32 \<times> nat option" where
  "tarReadFile buf fname = tarRead buf fname"

definition tarGetSize :: "buffer \<Rightarrow> u8 list \<Rightarrow> fault + u32" where
  "tarGetSize buf fname =
     bindR (tarFind buf fname)
       (\<lambda>th. case th of None \<Rightarrow> Inr 0 | Some p \<Rightarrow> Inr (header_size buf p))"

section \<open>Changing the archive\<close>

text \<open>
  The two loops of \<open>tarRm\<close>: bytes move down over the deleted file, then the end is cleared.
  \<open>delBytes\<close> and \<open>bufBytes - delBytes\<close> are \<open>int\<close>s that wrap when the size field is huge; the
  second loop then starts below the buffer.
\<close>

definition shift_down :: "nat \<Rightarrow> nat \<Rightarrow> nat \<Rightarrow> buffer \<Rightarrow> buffer" where
  "shift_down del start stop buf = fold (\<lambda>i b. b(i := b (i + del))) [start..<stop] buf"

definition clear_bytes :: "nat \<Rightarrow> nat \<Rightarrow> buffer \<Rightarrow> buffer" where
  "clear_bytes start stop buf = fold (\<lambda>i b. b(i := 0)) [start..<stop] buf"

definition copy_end :: "int \<Rightarrow> int" where
  "copy_end delBytes = sint (word_of_int (int TAR_BUF_SIZE - delBytes) :: u32)"

definition tarRm :: "buffer \<Rightarrow> u8 list \<Rightarrow> fault + u32 \<times> buffer" where
  "tarRm buf fname =
     bindR (tarReadFile buf fname)
       (\<lambda>(sz, tmp). if sint sz < 0 then Inr (0, buf)
          else bindR (tarFind buf fname)
            (\<lambda>th. case th of
                    None \<Rightarrow> Inl BadPointer
                  | Some toDel \<Rightarrow>
                      (let delBytes = file_bytes buf toDel;
                           stop = copy_end delBytes
                       in if stop < 0 \<or> delBytes < 0 then Inl OutOfBounds
                          else Inr (1, clear_bytes (nat stop) TAR_BUF_SIZE
                                 (shift_down (nat delBytes) toDel (nat stop) buf)))))"

definition strcpy_to :: "nat \<Rightarrow> u8 list \<Rightarrow> buffer \<Rightarrow> fault + buffer" where
  "strcpy_to p src buf =
     (if p + length src < TAR_BUF_SIZE then Inr (write_bytes buf p (src @ [0]))
      else Inl OutOfBounds)"

text \<open>The header \<open>tarTouch\<close> writes after the name.\<close>

definition fill_header :: "nat \<Rightarrow> buffer \<Rightarrow> buffer" where
  "fill_header th b0 =
     (let b1 = write_bytes b0 (th + AT_MODE) (bin2oct_padded 511 7);
          b2 = write_bytes b1 (th + AT_OWNER_ID) (bin2oct_padded 0 7);
          b3 = write_bytes b2 (th + AT_GROUP_ID) (bin2oct_padded 0 7);
          b4 = write_bytes b3 (th + AT_SIZE) (bin2oct_padded 0 11);
          b5 = b4(th + AT_TYPE := TAR_FILE);
          b6 = write_bytes b5 (th + AT_USTAR) (bytes ''ustar'' @ [0]);
          b7 = b6(th + AT_USTAR_VER := asc CHR ''0'', th + AT_USTAR_VER + 1 := asc CHR ''0'');
          b8 = write_bytes b7 (th + AT_OWNER_NAME) (bytes ''root'' @ [0]);
          b9 = write_bytes b8 (th + AT_OWNER_GROUP) (bytes ''root'' @ [0])
      in write_bytes b9 (th + AT_CHECKSUM) (replicate 8 (asc CHR '' '')))"

definition tarTouch :: "buffer \<Rightarrow> u8 list \<Rightarrow> fault + u32 \<times> buffer" where
  "tarTouch buf fname =
     bindR (tarReadFile buf fname)
       (\<lambda>(sz, dummy). if sint sz \<ge> 0 then Inr (0, buf)
          else bindR (tarGetEnd buf)
            (\<lambda>th. bindR (strcpy_to th fname buf) (\<lambda>b0. Inr (1, fill_header th b0))))"

text \<open>\<open>data\<close> is the memory of the caller from the pointer on; \<open>len\<close> (\<open>size\<close> in the code) is how much of it is meant.\<close>

definition tarEdit :: "buffer \<Rightarrow> u8 list \<Rightarrow> u8 list \<Rightarrow> u32 \<Rightarrow> fault + u32 \<times> buffer" where
  "tarEdit buf fname data len =
     bindR (tarFind buf fname)
       (\<lambda>th. case th of
               None \<Rightarrow> Inr (1, buf)
             | Some p \<Rightarrow>
                 bindR (tarRm buf fname)
                   (\<lambda>(r1, b1). bindR (tarTouch b1 fname)
                   (\<lambda>(r2, b2). if r2 \<noteq> 0 then Inr (1, b2)
                      else bindR (tarFind b2 fname)
                        (\<lambda>th'. case th' of
                                 None \<Rightarrow> Inl BadPointer
                               | Some q \<Rightarrow>
                                   if q + 512 + unat len \<le> TAR_BUF_SIZE \<and> unat len \<le> length data
                                   then Inr (1, write_bytes
                                          (write_bytes b2 (q + AT_SIZE) (bin2oct_padded len 11))
                                          (q + 512) (take (unat len) data))
                                   else Inl OutOfBounds))))"

section \<open>Printing\<close>

text \<open>A C string in the buffer: its bytes before the NUL.\<close>

function cstr_at :: "buffer \<Rightarrow> nat \<Rightarrow> fault + u8 list" where
  "cstr_at buf p =
     (if p < TAR_BUF_SIZE
      then if buf p = 0 then Inr [] else bindR (cstr_at buf (p + 1)) (\<lambda>cs. Inr (buf p # cs))
      else Inl OutOfBounds)"
  by pat_completeness auto
termination
  by (relation "measure (\<lambda>(buf, p). TAR_BUF_SIZE - p)") auto

declare cstr_at.simps [simp del]

text \<open>
  The search for a slash before the last character. On an empty name \<open>strlen - 1\<close> is the largest
  \<open>size_t\<close>, and the search runs on through memory.
\<close>

definition is_subfile :: "buffer \<Rightarrow> nat \<Rightarrow> u8 list \<Rightarrow> fault + bool" where
  "is_subfile buf p name =
     (if name \<noteq> [] then Inr (asc CHR ''/'' \<in> set (butlast name))
      else if asc CHR ''/'' \<in> set (field buf p (TAR_BUF_SIZE - p)) then Inr True
      else Inl OutOfBounds)"

definition type_text :: "u8 \<Rightarrow> u8 list" where
  "type_text t =
     (if t = TAR_FILE then bytes ''file'' else if t = TAR_DIR then bytes ''dir '' else bytes ''????'')"

definition int_arg :: "nat \<Rightarrow> fmt_arg" where
  "int_arg n = ArgInt (of_nat n)"

definition list_entry :: "bool \<Rightarrow> nat \<Rightarrow> 'a tarfs_scheme \<Rightarrow> fault + 'a tarfs_scheme" where
  "list_entry long p s =
     (let buf = tarBuf s
      in bindR (cstr_at buf p) (\<lambda>name. bindR (is_subfile buf p name) (\<lambda>isSubfile.
           if isSubfile then Inr s
           else if long then
             bindR (fmtWrite (bytes ''\<newline>'') [] s) (\<lambda>s1.
             bindR (fmtWrite (type_text (buf (p + AT_TYPE))) [] s1) (\<lambda>s2.
               let dt = unix2date (oct2bin (field buf (p + AT_TIME) 11))
               in fmtWrite (bytes ''   %8d %02d-%02d-%04d at %02d:%02d:%02d %s'')
                    [ArgInt (header_size buf p), int_arg (month dt), int_arg (day dt), int_arg (year dt),
                     int_arg (hour dt), int_arg (minute dt), int_arg (second dt), ArgStr name] s2))
           else fmtWrite (bytes ''%s  '') [ArgStr name] s)))"

definition tarList :: "u8 list \<Rightarrow> 'a tarfs_scheme \<Rightarrow> fault + 'a tarfs_scheme" where
  "tarList flag s =
     (let long = (flag = bytes ''-l'')
      in bindR
           (if long then
              bindR (fmtWrite (bytes ''Directory listing of /\<newline>'') [] s) (\<lambda>s1.
              bindR (fmtWrite (bytes ''type  size      lastModify             name\<newline>'') [] s1) (\<lambda>s2.
              fmtWrite (bytes ''===== ========= ====================== =================='') [] s2))
            else Inr s)
           (\<lambda>s0.
              case while_option
                     (\<lambda>r. case r of Inl e \<Rightarrow> False
                        | Inr (cur, t) \<Rightarrow> header_in cur \<and> tarValid (tarBuf t) (nat cur))
                     (\<lambda>r. bindR r (\<lambda>(cur, t). bindR (list_entry long (nat cur) t)
                        (\<lambda>t'. Inr (tarNext (tarBuf t') (nat cur), t'))))
                     (Inr (0, s0)) of
                None \<Rightarrow> Inl Diverges
              | Some r \<Rightarrow> bindR r (\<lambda>(cur, t). if header_in cur then Inr t else Inl OutOfBounds)))"

text \<open>
  \<open>size\<close> is unsigned, so the test for an error value never succeeds, and \<open>data\<close> is not set when
  the file is not found.
\<close>

definition tarPrintFile :: "u8 list \<Rightarrow> 'a tarfs_scheme \<Rightarrow> fault + 'a tarfs_scheme" where
  "tarPrintFile fname s =
     bindR (tarRead (tarBuf s) fname)
       (\<lambda>(sz, data).
          if sz < 0 then fmtWrite (bytes ''Not found\<newline>'') [ArgStr fname] s
          else case data of
                 None \<Rightarrow> if sz = 0 then Inr s else Inl BadPointer
               | Some d \<Rightarrow>
                   for_to (unat sz)
                     (\<lambda>i r. bindR r (\<lambda>t.
                        if d + i < TAR_BUF_SIZE
                        then fmtWrite (bytes ''%c'') [ArgInt (scast (tarBuf t (d + i)))] t
                        else Inl OutOfBounds))
                     (Inr s))"

section \<open>The disk\<close>

text \<open>The sector buffers are the bytes of \<open>tarBuf\<close> read as little-endian 16 bit words.\<close>

fun store_words :: "buffer \<Rightarrow> nat \<Rightarrow> u16 list \<Rightarrow> buffer" where
  "store_words buf p [] = buf"
| "store_words buf p (w # ws) = store_words (buf(p := ucast w, p + 1 := ucast (drop_bit 8 w))) (p + 2) ws"

definition load_words :: "buffer \<Rightarrow> nat \<Rightarrow> nat \<Rightarrow> u16 list" where
  "load_words buf p n =
     map (\<lambda>i. ucast (buf (p + 2 * i)) OR push_bit 8 (ucast (buf (p + 2 * i + 1)))) [0..<n]"

definition tarLoad :: "device \<Rightarrow> 'a tarfs_scheme \<Rightarrow> 'a tarfs_scheme" where
  "tarLoad dev =
     for_to TAR_MAX_SECTORS
       (\<lambda>i s. let (ws, s1) = ataRead dev (TAR_START_LBA + of_nat i) s
              in s1\<lparr>tarBuf := store_words (tarBuf s1) (i * 512) ws\<rparr>)"

definition tarFlush :: "device \<Rightarrow> 'a tarfs_scheme \<Rightarrow> 'a tarfs_scheme" where
  "tarFlush dev =
     for_to TAR_MAX_SECTORS
       (\<lambda>i s. ataWrite dev (TAR_START_LBA + of_nat i) (load_words (tarBuf s) (i * 512) 256) s)"

end
