(* ===== verification/Archive.thy ===== *)
theory Archive
  imports Ustar
begin

text \<open>
  What the file system promises: a well-formed buffer holds a list of named files followed by
  zeros, and the operations of src/ustar.c read, append to and delete from that list. The laws are
  a locale, interpreted on \<open>tarRead\<close>, \<open>tarTouch\<close> and \<open>tarRm\<close>.
\<close>

section \<open>Bytes of the buffer\<close>

lemma length_field [simp]: "length (field buf p n) = n"
  by (simp add: field_def)

lemma nth_field [simp]: "i < n \<Longrightarrow> field buf p n ! i = buf (p + i)"
  by (simp add: field_def)

lemma field_cong:
  assumes "\<And>i. i < n \<Longrightarrow> buf (p + i) = buf' (p' + i)"
  shows "field buf p n = field buf' p' n"
  by (rule nth_equalityI) (simp_all add: assms)

lemma field_0 [simp]: "field buf p 0 = []"
  by (simp add: field_def)

lemma field_Suc: "field buf p (Suc n) = buf p # field buf (p + 1) n"
  by (rule nth_equalityI) (auto simp: nth_Cons')

lemma write_bytes_apply:
  "write_bytes buf p bs q = (if p \<le> q \<and> q < p + length bs then bs ! (q - p) else buf q)"
  by (induction bs arbitrary: buf p) (auto simp: nth_Cons' Suc_le_eq)

lemma field_write_bytes:
  assumes "length bs = n"
  shows "field (write_bytes buf p bs) p n = bs"
  by (rule nth_equalityI) (simp_all add: write_bytes_apply assms)

lemma shift_down_apply:
  "shift_down del start stop buf q = (if start \<le> q \<and> q < stop then buf (q + del) else buf q)"
proof (cases "start \<le> stop")
  case True
  have "shift_down del start (start + n) buf q =
      (if start \<le> q \<and> q < start + n then buf (q + del) else buf q)" for n q
    by (induction n arbitrary: q) (auto simp: shift_down_def)
  from this [of "stop - start"] show ?thesis using True by simp
qed (auto simp: shift_down_def)

lemma clear_bytes_apply:
  "clear_bytes start stop buf q = (if start \<le> q \<and> q < stop then 0 else buf q)"
proof (cases "start \<le> stop")
  case True
  have "clear_bytes start (start + n) buf q = (if start \<le> q \<and> q < start + n then 0 else buf q)" for n q
    by (induction n arbitrary: q) (auto simp: clear_bytes_def)
  from this [of "stop - start"] show ?thesis using True by simp
qed (auto simp: clear_bytes_def)

section \<open>Well-formed archives\<close>

type_synonym tar_file = "u8 list \<times> u8 list"

text \<open>The bytes a file of \<open>n\<close> bytes takes: its header and whole sectors.\<close>

definition span :: "nat \<Rightarrow> nat" where
  "span n = 512 * (1 + (n + 511) div 512)"

definition entry_at :: "buffer \<Rightarrow> nat \<Rightarrow> tar_file \<Rightarrow> bool" where
  "entry_at buf p e \<longleftrightarrow>
     p + span (length (snd e)) \<le> TAR_BUF_SIZE \<and> tarValid buf p \<and>
     cstring (fst e) \<and> length (fst e) < 100 \<and> field buf p (length (fst e) + 1) = fst e @ [0] \<and>
     header_size buf p = of_nat (length (snd e)) \<and> field buf (p + 512) (length (snd e)) = snd e"

fun end_of :: "nat \<Rightarrow> tar_file list \<Rightarrow> nat" where
  "end_of p [] = p"
| "end_of p (e # es) = end_of (p + span (length (snd e))) es"

fun entries_at :: "buffer \<Rightarrow> nat \<Rightarrow> tar_file list \<Rightarrow> bool" where
  "entries_at buf p [] = True"
| "entries_at buf p (e # es) = (entry_at buf p e \<and> entries_at buf (p + span (length (snd e))) es)"

definition zero_from :: "buffer \<Rightarrow> nat \<Rightarrow> bool" where
  "zero_from buf p \<longleftrightarrow> p + 512 \<le> TAR_BUF_SIZE \<and> (\<forall>i\<in>{p..<TAR_BUF_SIZE}. buf i = 0)"

definition archive :: "buffer \<Rightarrow> tar_file list \<Rightarrow> bool" where
  "archive buf es \<longleftrightarrow> entries_at buf 0 es \<and> zero_from buf (end_of 0 es)"

fun pos_of :: "nat \<Rightarrow> tar_file list \<Rightarrow> u8 list \<Rightarrow> nat option" where
  "pos_of p [] f = None"
| "pos_of p (e # es) f = (if fst e = f then Some p else pos_of (p + span (length (snd e))) es f)"

fun remove_file :: "u8 list \<Rightarrow> tar_file list \<Rightarrow> tar_file list" where
  "remove_file f [] = []"
| "remove_file f (e # es) = (if fst e = f then es else e # remove_file f es)"

lemma span_bounds: "512 + n \<le> span n" "span n < n + 1024" "512 \<le> span n"
proof -
  have "n + 511 = (n + 511) div 512 * 512 + (n + 511) mod 512" "(n + 511) mod 512 < 512" by simp_all
  moreover have "span n = 512 + (n + 511) div 512 * 512" by (simp add: span_def)
  ultimately show "512 + n \<le> span n" "span n < n + 1024" "512 \<le> span n" by linarith+
qed

lemma end_of_append [simp]: "end_of p (es @ fs) = end_of (end_of p es) fs"
  by (induction p es rule: end_of.induct) simp_all

lemma end_of_ge: "p \<le> end_of p es"
proof (induction es arbitrary: p)
  case (Cons e es)
  from Cons [of "p + span (length (snd e))"] show ?case by simp
qed simp

lemma end_of_add: "end_of (p + k) es = end_of p es + k"
proof (induction es arbitrary: p)
  case (Cons e es)
  from Cons [of "p + span (length (snd e))"] show ?case by (simp add: ac_simps)
qed simp

lemma entries_at_append [simp]:
  "entries_at buf p (es @ fs) \<longleftrightarrow> entries_at buf p es \<and> entries_at buf (end_of p es) fs"
  by (induction p es rule: end_of.induct) auto

text \<open>Entries can be moved: only the bytes under them matter.\<close>

lemma entry_at_move:
  assumes "entry_at buf (p + k) e"
    and same: "\<And>i. p \<le> i \<Longrightarrow> i < p + span (length (snd e)) \<Longrightarrow> buf' i = buf (i + k)"
  shows "entry_at buf' p e"
proof -
  have f: "field buf' (p + a) n = field buf (p + k + a) n" if "a + n \<le> span (length (snd e))" for a n
  proof (rule field_cong)
    fix i assume "i < n"
    then show "buf' (p + a + i) = buf (p + k + a + i)"
      using same [of "p + a + i"] that by (simp add: ac_simps)
  qed
  have sp: "512 + length (snd e) \<le> span (length (snd e))" by (rule span_bounds)
  have ty: "buf' (p + AT_TYPE) = buf (p + k + AT_TYPE)"
    using same [of "p + AT_TYPE"] sp by (simp add: ac_simps)
  have "tarValid buf' p = tarValid buf (p + k)"
    using f [of AT_USTAR 5] ty sp by (simp add: tarValid_def)
  moreover have "header_size buf' p = header_size buf (p + k)"
    using f [of AT_SIZE 11] sp by (simp add: header_size_def)
  moreover have "length (fst e) < 100" using assms(1) by (simp add: entry_at_def)
  then have "field buf' p (length (fst e) + 1) = field buf (p + k) (length (fst e) + 1)"
    using f [of 0 "length (fst e) + 1"] sp by simp
  moreover have "field buf' (p + 512) (length (snd e)) = field buf (p + k + 512) (length (snd e))"
    using f [of 512 "length (snd e)"] sp by simp
  ultimately show ?thesis using assms(1) by (simp add: entry_at_def)
qed

lemma entries_at_move:
  assumes "entries_at buf (p + k) es"
    and "\<And>i. p \<le> i \<Longrightarrow> i < end_of p es \<Longrightarrow> buf' i = buf (i + k)"
  shows "entries_at buf' p es"
  using assms
proof (induction es arbitrary: p)
  case (Cons e es)
  let ?q = "p + span (length (snd e))"
  have le: "?q \<le> end_of ?q es" by (rule end_of_ge)
  have "entry_at buf' p e"
    using Cons.prems le by (intro entry_at_move [of buf p k]) simp_all
  moreover have "entries_at buf' ?q es"
    using Cons.prems by (intro Cons.IH) (simp_all add: ac_simps)
  ultimately show ?case by simp
qed simp

lemma entries_at_cong:
  "entries_at buf p es \<Longrightarrow> (\<And>i. p \<le> i \<Longrightarrow> i < end_of p es \<Longrightarrow> buf' i = buf i) \<Longrightarrow> entries_at buf' p es"
  using entries_at_move [of buf p 0 es buf'] by simp

section \<open>Walking a well-formed archive\<close>

lemma sdiv_512: "0 \<le> (x :: int) \<Longrightarrow> x sdiv 512 = x div 512 \<and> x smod 512 = x mod 512"
  by (cases "x = 0") (simp_all add: signed_divide_int_def signed_modulo_int_def)

lemma ceilDiv_512:
  "ceilDiv (int n) 512 = int ((n + 511) div 512)"
proof -
  have d: "n = n div 512 * 512 + n mod 512" "n mod 512 < 512"
      "n + 511 = (n + 511) div 512 * 512 + (n + 511) mod 512" "(n + 511) mod 512 < 512" by simp_all
  have "n mod 512 = 0 \<Longrightarrow> (n + 511) div 512 = n div 512" using d by linarith
  moreover have "n mod 512 \<noteq> 0 \<Longrightarrow> (n + 511) div 512 = n div 512 + 1" using d by linarith
  ultimately have "(n + 511) div 512 = n div 512 + (if n mod 512 = 0 then 0 else 1)"
    by (cases "n mod 512 = 0") (simp_all only: if_True if_False add_0_right simp_thms)
  moreover have "int n mod 512 = int (n mod 512)" by (simp add: of_nat_mod)
  ultimately show ?thesis
    using sdiv_512 [of "int n"] by (simp add: ceilDiv_def zdiv_int)
qed

text \<open>The \<open>int\<close> computation of the distance to the next header does not wrap.\<close>

lemma sint_small: "n < 2 ^ 31 \<Longrightarrow> sint (word_of_int (int n) :: u32) = int n"
  by (simp only: signed_of_int) (simp add: signed_take_bit_int_eq_self)

lemma file_bytes_eq:
  assumes "header_size buf p = of_nat n" "n < 2 ^ 30"
  shows "file_bytes buf p = int (span n)"
proof -
  have s: "sint (header_size buf p) = int n"
    using assms sint_small [of n] by simp
  have "(ceilDiv (int n) 512 + 1) * 512 = int (span n)"
    by (simp add: ceilDiv_512 span_def algebra_simps)
  then show ?thesis
    using span_bounds(2) [of n] assms(2) sint_small [of "span n"]
    unfolding file_bytes_def Let_def s by simp
qed

lemma copy_end_eq: "n \<le> TAR_BUF_SIZE \<Longrightarrow> copy_end (int n) = int (TAR_BUF_SIZE - n)"
  using sint_small [of "TAR_BUF_SIZE - n"] unfolding copy_end_def by (simp add: of_nat_diff)

lemma tarNext_entry:
  assumes "entry_at buf p e"
  shows "tarNext buf p = int (p + span (length (snd e)))"
proof -
  have "length (snd e) < 2 ^ 30"
    using assms span_bounds(1) [of "length (snd e)"] by (simp add: entry_at_def)
  then show ?thesis
    using file_bytes_eq [of buf p "length (snd e)"] assms
    by (simp add: tarNext_def entry_at_def)
qed

lemma strcmp_eq_string:
  assumes "field buf p (length name + 1) = name @ [0]" "p + length name < TAR_BUF_SIZE"
    "cstring name" "cstring fname"
  shows "strcmp_eq buf p fname = Inr (name = fname)"
  using assms
proof (induction fname arbitrary: name p)
  case Nil
  then show ?case by (cases name) (auto simp: field_Suc)
next
  case (Cons c cs)
  show ?case
  proof (cases name)
    case Nil
    then show ?thesis using Cons.prems by (auto simp: field_Suc)
  next
    case (Cons d ds)
    then show ?thesis
      using Cons.prems Cons.IH [of "p + 1" ds] by (auto simp: field_Suc)
  qed
qed

lemma entry_name:
  assumes "entry_at buf p e" "cstring fname"
  shows "strcmp_eq buf p fname = Inr (fst e = fname)"
  using assms span_bounds(1) [of "length (snd e)"]
  by (intro strcmp_eq_string) (auto simp: entry_at_def)

lemma entry_header_in: "entry_at buf p e \<Longrightarrow> header_in (int p) \<and> tarValid buf p"
  using span_bounds(3) [of "length (snd e)"] by (simp add: entry_at_def header_in_def)

lemma zero_from_end: "zero_from buf p \<Longrightarrow> header_in (int p) \<and> \<not> tarValid buf p"
proof -
  assume z: "zero_from buf p"
  have "field buf (p + AT_USTAR) 5 ! 0 = 0" using z by (simp add: zero_from_def)
  then have "field buf (p + AT_USTAR) 5 ! 0 \<noteq> bytes ''ustar'' ! 0" by simp
  then have "field buf (p + AT_USTAR) 5 \<noteq> bytes ''ustar''" by metis
  then show ?thesis using z by (simp add: zero_from_def header_in_def tarValid_def)
qed

text \<open>The two walks, from any header on.\<close>

lemma walk_to_end:
  assumes "entries_at buf p es" "zero_from buf (end_of p es)"
  shows "while_option (\<lambda>cur. header_in cur \<and> tarValid buf (nat cur))
           (\<lambda>cur. tarNext buf (nat cur)) (int p) = Some (int (end_of p es))"
  using assms
proof (induction es arbitrary: p)
  case Nil
  then show ?case using zero_from_end [of buf p] by (subst while_option_unfold) simp
next
  case (Cons e es)
  then show ?case
    using entry_header_in [of buf p e] tarNext_entry [of buf p e]
    by (subst while_option_unfold) (simp del: of_nat_add)
qed

lemma walk_to_name:
  assumes "entries_at buf p es" "zero_from buf (end_of p es)" "cstring fname"
  shows "while_option (\<lambda>cur. header_in cur \<and> tarValid buf (nat cur) \<and>
             strcmp_eq buf (nat cur) fname = Inr False)
           (\<lambda>cur. tarNext buf (nat cur)) (int p)
         = Some (int (case pos_of p es fname of None \<Rightarrow> end_of p es | Some q \<Rightarrow> q))"
  using assms
proof (induction es arbitrary: p)
  case Nil
  then show ?case using zero_from_end [of buf p] by (subst while_option_unfold) simp
next
  case (Cons e es)
  then show ?case
    using entry_header_in [of buf p e] tarNext_entry [of buf p e] entry_name [of buf p e fname]
    by (subst while_option_unfold) (auto simp del: of_nat_add split: option.split)
qed

lemma pos_of_None: "pos_of p es f = None \<longleftrightarrow> map_of es f = None"
  by (induction es arbitrary: p) auto

lemma pos_of_Some:
  assumes "entries_at buf p es" "pos_of p es f = Some q"
  shows "\<exists>es1 d es2. es = es1 @ (f, d) # es2 \<and> q = end_of p es1 \<and> map_of es1 f = None \<and>
    map_of es f = Some d \<and> entry_at buf q (f, d)"
  using assms
proof (induction es arbitrary: p)
  case (Cons e es)
  show ?case
  proof (cases "fst e = f")
    case True
    then show ?thesis
      using Cons.prems by (intro exI [where x = "[]"] exI [where x = "snd e"] exI [where x = es]) auto
  next
    case False
    then obtain es1 d es2 where "es = es1 @ (f, d) # es2" "q = end_of (p + span (length (snd e))) es1"
        "map_of es1 f = None" "map_of es f = Some d" "entry_at buf q (f, d)"
      using Cons.prems Cons.IH [of "p + span (length (snd e))"] by auto
    then show ?thesis
      using False
      by (intro exI [where x = "e # es1"] exI [where x = d] exI [where x = es2]) (cases e, auto)
  qed
qed simp

lemma tarGetEnd_archive:
  assumes "archive buf es"
  shows "tarGetEnd buf = Inr (end_of 0 es)"
  using walk_to_end [of buf 0 es] zero_from_end [of buf "end_of 0 es"] assms
  by (simp add: tarGetEnd_def archive_def)

lemma tarFind_archive:
  assumes "archive buf es" "cstring fname"
  shows "tarFind buf fname = Inr (pos_of 0 es fname)"
proof (cases "pos_of 0 es fname")
  case None
  then show ?thesis
    using walk_to_name [of buf 0 es fname] zero_from_end [of buf "end_of 0 es"] assms
    by (simp add: tarFind_def archive_def)
next
  case (Some q)
  then obtain d where "entry_at buf q (fname, d)"
    using pos_of_Some [of buf 0 es fname q] assms(1) by (auto simp: archive_def)
  then show ?thesis
    using Some walk_to_name [of buf 0 es fname] assms entry_header_in [of buf q] entry_name [of buf q]
    by (simp add: tarFind_def archive_def)
qed

section \<open>Reading\<close>

lemma tarRead_archive:
  assumes "archive buf es" "cstring fname"
  shows "map_of es fname = None \<Longrightarrow> tarRead buf fname = Inr (- 1, None)"
    and "map_of es fname = Some d \<Longrightarrow>
      \<exists>q. tarRead buf fname = Inr (of_nat (length d), Some q) \<and> field buf q (length d) = d \<and>
        q + length d \<le> TAR_BUF_SIZE"
proof -
  have f: "tarFind buf fname = Inr (pos_of 0 es fname)" by (rule tarFind_archive [OF assms])
  show "tarRead buf fname = Inr (- 1, None)" if "map_of es fname = None"
    using that f by (simp add: tarRead_def flip: pos_of_None [of 0])
  show "\<exists>q. tarRead buf fname = Inr (of_nat (length d), Some q) \<and> field buf q (length d) = d \<and>
        q + length d \<le> TAR_BUF_SIZE" if m: "map_of es fname = Some d"
  proof -
    obtain p where p: "pos_of 0 es fname = Some p" using m pos_of_None [of 0 es fname] by auto
    then have "entry_at buf p (fname, d)"
      using pos_of_Some [of buf 0 es fname p] assms(1) m by (auto simp: archive_def)
    then show ?thesis
      using f p span_bounds(1) [of "length d"] by (simp add: tarRead_def entry_at_def)
  qed
qed

lemma archive_file_small:
  assumes "archive buf es" "map_of es fname = Some d"
  shows "length d < TAR_BUF_SIZE"
proof -
  obtain p where "pos_of 0 es fname = Some p" using assms(2) pos_of_None [of 0 es fname] by auto
  then have "entry_at buf p (fname, d)"
    using pos_of_Some [of buf 0 es fname p] assms by (auto simp: archive_def)
  then show ?thesis using span_bounds(1) [of "length d"] by (simp add: entry_at_def)
qed

lemma tarGetSize_archive:
  assumes "archive buf es" "cstring fname"
  shows "tarGetSize buf fname =
    Inr (case map_of es fname of None \<Rightarrow> 0 | Some d \<Rightarrow> of_nat (length d))"
proof (cases "map_of es fname")
  case None
  then show ?thesis
    using tarFind_archive [OF assms] pos_of_None [of 0 es fname] by (simp add: tarGetSize_def)
next
  case (Some d)
  obtain p where p: "pos_of 0 es fname = Some p" using Some pos_of_None [of 0 es fname] by auto
  then have "entry_at buf p (fname, d)"
    using pos_of_Some [of buf 0 es fname p] assms(1) Some by (auto simp: archive_def)
  then show ?thesis
    using tarFind_archive [OF assms] p Some by (simp add: tarGetSize_def entry_at_def)
qed

section \<open>Appending\<close>

text \<open>A header written over zeros is that of an empty file, and nothing else changes.\<close>

lemma field_at_write:
  "p' = p \<Longrightarrow> n = length bs \<Longrightarrow> field (write_bytes buf p bs) p' n = bs"
  by (simp add: field_write_bytes)

lemma field_apart:
  "q + n \<le> p \<or> p + length bs \<le> q \<Longrightarrow> field (write_bytes buf p bs) q n = field buf q n"
  by (rule field_cong) (auto simp: write_bytes_apply)

lemma field_upd_apart: "a < q \<or> q + n \<le> a \<Longrightarrow> field (buf(a := c)) q n = field buf q n"
  by (rule field_cong) auto

lemma fill_header_fields:
  "field (fill_header p b) p 100 = field b p 100"
  "field (fill_header p b) (p + AT_SIZE) 11 = replicate 11 48"
  "field (fill_header p b) (p + AT_USTAR) 5 = bytes ''ustar''"
  "fill_header p b (p + AT_TYPE) = TAR_FILE"
proof -
  show "field (fill_header p b) p 100 = field b p 100"
    by (simp add: fill_header_def Let_def field_apart field_upd_apart del: write_bytes.simps)
  show "field (fill_header p b) (p + AT_SIZE) 11 = replicate 11 48"
    by (simp add: fill_header_def Let_def field_apart field_upd_apart field_at_write bin2oct_padded_zero
        del: write_bytes.simps replicate.simps)
  have "field (fill_header p b) (p + AT_USTAR) 6 = bytes ''ustar'' @ [0]"
    by (simp add: fill_header_def Let_def field_apart field_upd_apart field_at_write
        del: write_bytes.simps)
  moreover have "field (fill_header p b) (p + AT_USTAR) 5 = take 5 (field (fill_header p b) (p + AT_USTAR) 6)"
    by (rule nth_equalityI) simp_all
  ultimately show "field (fill_header p b) (p + AT_USTAR) 5 = bytes ''ustar''" by simp
  show "fill_header p b (p + AT_TYPE) = TAR_FILE"
    by (simp add: fill_header_def Let_def write_bytes_apply del: write_bytes.simps)
qed

lemma write_bytes_outside: "q < p \<or> p + length bs \<le> q \<Longrightarrow> write_bytes buf p bs q = buf q"
  by (auto simp: write_bytes_apply)

lemma fill_header_outside: "q < p \<or> p + 512 \<le> q \<Longrightarrow> fill_header p b q = b q"
  by (elim disjE) (simp_all add: fill_header_def Let_def write_bytes_outside del: write_bytes.simps)

lemma tarTouch_archive:
  assumes "archive buf es" "map_of es fname = None" "cstring fname" "length fname < 100"
    and room: "end_of 0 es + 1024 \<le> TAR_BUF_SIZE"
  shows "\<exists>buf'. tarTouch buf fname = Inr (1, buf') \<and> archive buf' (es @ [(fname, [])])"
proof -
  define p where "p = end_of 0 es"
  define b where "b = write_bytes buf p (fname @ [0])"
  define b' where "b' = fill_header p b"
  have touch: "tarTouch buf fname = Inr (1, b')"
    using tarRead_archive(1) [OF assms(1,3,2)] tarGetEnd_archive [OF assms(1)] assms(4) room
    by (simp add: tarTouch_def tarReadFile_def strcpy_to_def p_def b_def b'_def)
  have same: "b' i = buf i" if "i < p \<or> p + 512 \<le> i" for i
    using that assms(4) fill_header_outside [of i p b] by (auto simp: b'_def b_def write_bytes_apply)
  have "entries_at b' 0 es"
    using assms(1) same by (intro entries_at_cong [of buf 0 es b']) (auto simp: archive_def p_def)
  moreover have "entry_at b' p (fname, [])"
  proof -
    have "field b' p (length fname + 1) = take (length fname + 1) (field b' p 100)"
      using assms(4) by (intro nth_equalityI) simp_all
    also have "\<dots> = take (length fname + 1) (field b p 100)"
      by (simp add: b'_def fill_header_fields)
    also have "\<dots> = field b p (length fname + 1)"
      using assms(4) by (intro nth_equalityI) simp_all
    also have "\<dots> = fname @ [0]" by (simp add: b_def field_write_bytes del: write_bytes.simps)
    finally have name: "field b' p (length fname + 1) = fname @ [0]" .
    have "header_size b' p = 0"
      by (simp add: header_size_def b'_def fill_header_fields oct2bin_def del: replicate.simps)
    moreover have "tarValid b' p"
      by (simp add: tarValid_def b'_def fill_header_fields)
    ultimately show ?thesis
      using name assms(3,4) room by (simp add: entry_at_def span_def p_def)
  qed
  moreover have "zero_from b' (p + 512)"
    using same assms(1) room by (auto simp: zero_from_def archive_def p_def)
  ultimately have "archive b' (es @ [(fname, [])])"
    by (simp add: archive_def p_def span_def)
  then show ?thesis using touch by blast
qed

lemma tarTouch_there:
  assumes "archive buf es" "map_of es fname = Some d" "cstring fname"
  shows "tarTouch buf fname = Inr (0, buf)"
proof -
  have "length d < 2 ^ 31" using archive_file_small [OF assms(1,2)] by simp
  then have "sint (of_nat (length d) :: u32) = int (length d)" using sint_small [of "length d"] by simp
  then show ?thesis
    using tarRead_archive(2) [OF assms(1,3,2)] by (auto simp: tarTouch_def tarReadFile_def)
qed

section \<open>Deleting\<close>

lemma remove_file_split:
  "map_of es1 f = None \<Longrightarrow> remove_file f (es1 @ (f, d) # es2) = es1 @ es2"
  by (induction es1) (auto split: if_splits)

lemma end_of_le_buffer: "archive buf es \<Longrightarrow> end_of 0 es + 512 \<le> TAR_BUF_SIZE"
  by (simp add: archive_def zero_from_def)

lemma tarRm_result:
  assumes "archive buf es" "cstring fname" "pos_of 0 es fname = Some q" "map_of es fname = Some d"
  shows "tarRm buf fname = Inr (1, clear_bytes (TAR_BUF_SIZE - span (length d)) TAR_BUF_SIZE
    (shift_down (span (length d)) q (TAR_BUF_SIZE - span (length d)) buf))"
proof -
  have e: "entry_at buf q (fname, d)"
    using pos_of_Some [of buf 0 es fname q] assms by (auto simp: archive_def)
  have n: "header_size buf q = of_nat (length d)" "length d < 2 ^ 30" "span (length d) \<le> TAR_BUF_SIZE"
    using e archive_file_small [OF assms(1,4)] by (simp_all add: entry_at_def)
  have s: "sint (of_nat (length d) :: u32) = int (length d)"
    using n(2) sint_small [of "length d"] by simp
  show ?thesis
    using tarRead_archive(2) [OF assms(1,2,4)] tarFind_archive [OF assms(1,2)] s assms(3)
      file_bytes_eq [OF n(1,2)] copy_end_eq [OF n(3)]
    by (auto simp: tarRm_def tarReadFile_def Let_def nat_diff_distrib)
qed

lemma tarRm_archive:
  assumes "archive buf es" "cstring fname" "map_of es fname = Some d"
  shows "\<exists>buf'. tarRm buf fname = Inr (1, buf') \<and> archive buf' (remove_file fname es)"
proof -
  obtain q where q: "pos_of 0 es fname = Some q" using assms(3) pos_of_None [of 0 es fname] by auto
  obtain es1 es2 where es: "es = es1 @ (fname, d) # es2" "q = end_of 0 es1" "map_of es1 fname = None"
    using pos_of_Some [of buf 0 es fname q] assms q by (auto simp: archive_def)
  define k where "k = span (length d)"
  define b' where "b' = clear_bytes (TAR_BUF_SIZE - k) TAR_BUF_SIZE (shift_down k q (TAR_BUF_SIZE - k) buf)"
  have rm: "tarRm buf fname = Inr (1, b')"
    using tarRm_result [OF assms(1,2) q assms(3)] by (simp add: b'_def k_def)
  have parts: "entries_at buf 0 es1" "entries_at buf (q + k) es2"
    using assms(1) by (simp_all add: archive_def es k_def)
  have fin: "end_of 0 es = end_of q es2 + k" by (simp add: es k_def end_of_add)
  have bound: "end_of q es2 + k + 512 \<le> TAR_BUF_SIZE"
    using end_of_le_buffer [OF assms(1)] by (simp add: fin)
  have le: "q \<le> end_of q es2" by (rule end_of_ge)
  have b': "b' i = (if i < q then buf i else if i < TAR_BUF_SIZE - k then buf (i + k) else if i < TAR_BUF_SIZE then 0 else buf i)" for i
    using le bound by (auto simp: b'_def clear_bytes_apply shift_down_apply)
  have "entries_at b' 0 es1"
    by (rule entries_at_cong [OF parts(1)]) (simp add: b' flip: es(2))
  moreover have "entries_at b' q es2"
    by (rule entries_at_move [OF parts(2)]) (use bound in \<open>auto simp: b'\<close>)
  moreover have "zero_from b' (end_of q es2)"
    using assms(1) bound le by (auto simp: zero_from_def archive_def fin b')
  ultimately have "archive b' (remove_file fname es)"
    by (simp add: archive_def es(1) remove_file_split [OF es(3)] flip: es(2))
  then show ?thesis using rm by blast
qed

lemma tarRm_missing:
  assumes "archive buf es" "cstring fname" "map_of es fname = None"
  shows "tarRm buf fname = Inr (0, buf)"
  using tarRead_archive(1) [OF assms] by (simp add: tarRm_def tarReadFile_def)

section \<open>Editing\<close>

text \<open>
  \<open>tarTouch\<close> returns 1 when it creates the file, and \<open>tarEdit\<close> takes this for a failure: the
  file is emptied and moved to the end, and the new content is not written.
\<close>

lemma map_of_remove: "distinct (map fst es) \<Longrightarrow> map_of (remove_file f es) = (map_of es)(f := None)"
proof (induction es)
  case (Cons e es)
  have "map_of es (fst e) = None" using Cons.prems by (simp add: map_of_eq_None_iff)
  then show ?case using Cons by (cases e) (auto simp: fun_eq_iff)
qed simp

lemma names_remove: "map fst (remove_file f es) = remove1 f (map fst es)"
  by (induction es) auto

lemma end_of_remove:
  assumes "map_of es f = Some d"
  shows "end_of p (remove_file f es) + span (length d) = end_of p es"
  using assms
proof (induction es arbitrary: p)
  case (Cons e es)
  then show ?case by (cases e) (auto simp: end_of_add split: if_splits)
qed simp

lemma tarEdit_archive:
  assumes "archive buf es" "cstring fname" "map_of es fname = Some d" "distinct (map fst es)"
  shows "\<exists>buf'. tarEdit buf fname data len = Inr (1, buf') \<and>
    archive buf' (remove_file fname es @ [(fname, [])])"
proof -
  obtain q where q: "pos_of 0 es fname = Some q" using assms(3) pos_of_None [of 0 es fname] by auto
  then have e: "entry_at buf q (fname, d)"
    using pos_of_Some [of buf 0 es fname q] assms by (auto simp: archive_def)
  obtain b1 where b1: "tarRm buf fname = Inr (1, b1)" "archive b1 (remove_file fname es)"
    using tarRm_archive [OF assms(1-3)] by blast
  have gone: "map_of (remove_file fname es) fname = None" by (simp add: map_of_remove [OF assms(4)])
  have room: "end_of 0 (remove_file fname es) + 1024 \<le> TAR_BUF_SIZE"
    using end_of_remove [OF assms(3), of 0] span_bounds(3) [of "length d"] end_of_le_buffer [OF assms(1)]
    by linarith
  obtain b2 where "tarTouch b1 fname = Inr (1, b2)" "archive b2 (remove_file fname es @ [(fname, [])])"
    using tarTouch_archive [OF b1(2) gone assms(2) _ room] e by (auto simp: entry_at_def)
  then show ?thesis using tarFind_archive [OF assms(1,2)] q b1(1) by (simp add: tarEdit_def)
qed

section \<open>A store of named files\<close>

text \<open>The content of a file as a program sees it through \<open>tarRead\<close>.\<close>

definition content :: "buffer \<Rightarrow> u8 list \<Rightarrow> u8 list option" where
  "content buf fname =
     (if cstring fname then
        case tarRead buf fname of
          Inr (n, Some q) \<Rightarrow> Some (field buf q (unat n))
        | _ \<Rightarrow> None
      else None)"

definition good_archive :: "buffer \<Rightarrow> bool" where
  "good_archive buf \<longleftrightarrow> (\<exists>es. archive buf es \<and> distinct (map fst es))"

definition free_bytes :: "buffer \<Rightarrow> nat" where
  "free_bytes buf = (case tarGetEnd buf of Inr p \<Rightarrow> TAR_BUF_SIZE - p | Inl e \<Rightarrow> 0)"

definition outcome :: "fault + u32 \<times> 's \<Rightarrow> 's option" where
  "outcome r = (case r of Inr (n, s) \<Rightarrow> if n = 1 then Some s else None | Inl e \<Rightarrow> None)"

locale file_store =
  fixes lookup :: "'s \<Rightarrow> 'n \<Rightarrow> 'd option"
    and create :: "'n \<Rightarrow> 's \<Rightarrow> 's option"
    and remove :: "'n \<Rightarrow> 's \<Rightarrow> 's option"
    and inv :: "'s \<Rightarrow> bool"
    and room :: "'s \<Rightarrow> bool"
    and name_ok :: "'n \<Rightarrow> bool"
    and empty :: 'd
  assumes create_new: "inv s \<Longrightarrow> room s \<Longrightarrow> name_ok f \<Longrightarrow> lookup s f = None \<Longrightarrow>
      \<exists>s'. create f s = Some s' \<and> inv s' \<and> lookup s' = (lookup s)(f \<mapsto> empty)"
    and create_old: "inv s \<Longrightarrow> lookup s f = Some d \<Longrightarrow> create f s = None"
    and remove_old: "inv s \<Longrightarrow> lookup s f = Some d \<Longrightarrow>
      \<exists>s'. remove f s = Some s' \<and> inv s' \<and> room s' \<and> name_ok f \<and> lookup s' = (lookup s)(f := None)"
    and remove_new: "inv s \<Longrightarrow> name_ok f \<Longrightarrow> lookup s f = None \<Longrightarrow> remove f s = None"
begin

text \<open>Creating a file and deleting it leaves every file as it was.\<close>

lemma create_remove:
  assumes "inv s" "room s" "name_ok f" "lookup s f = None"
  shows "\<exists>s1 s2. create f s = Some s1 \<and> remove f s1 = Some s2 \<and> inv s2 \<and> lookup s2 = lookup s"
proof -
  obtain s1 where s1: "create f s = Some s1" "inv s1" "lookup s1 = (lookup s)(f \<mapsto> empty)"
    using create_new [OF assms] by blast
  then obtain s2 where "remove f s1 = Some s2" "inv s2" "lookup s2 = (lookup s1)(f := None)"
    using remove_old [of s1 f empty] by auto
  then show ?thesis using s1 assms(4) by (auto simp: fun_upd_idem)
qed

text \<open>Deleting a file makes room to create it again; it comes back empty.\<close>

lemma remove_create:
  assumes "inv s" "lookup s f = Some d"
  shows "\<exists>s1 s2. remove f s = Some s1 \<and> create f s1 = Some s2 \<and> inv s2 \<and>
    lookup s2 = (lookup s)(f \<mapsto> empty)"
proof -
  obtain s1 where s1: "remove f s = Some s1" "inv s1" "room s1" "name_ok f" "lookup s1 = (lookup s)(f := None)"
    using remove_old [OF assms] by blast
  then obtain s2 where "create f s1 = Some s2" "inv s2" "lookup s2 = (lookup s1)(f \<mapsto> empty)"
    using create_new [of s1 f] by auto
  then show ?thesis using s1 by auto
qed

text \<open>A file is deleted once.\<close>

lemma remove_twice:
  assumes "inv s" "lookup s f = Some d" "remove f s = Some s'"
  shows "remove f s' = None"
  using remove_old [OF assms(1,2)] assms(3) remove_new [of s' f] by auto

end

lemma content_archive:
  assumes "archive buf es"
  shows "content buf f = (if cstring f then map_of es f else None)"
proof (cases "cstring f")
  case True
  show ?thesis
  proof (cases "map_of es f")
    case None
    then show ?thesis using tarRead_archive(1) [OF assms True] by (simp add: content_def)
  next
    case (Some d)
    have "unat (of_nat (length d) :: u32) = length d"
      using archive_file_small [OF assms Some] by (simp add: unat_of_nat take_bit_nat_eq_self)
    then show ?thesis using tarRead_archive(2) [OF assms True Some] True Some by (auto simp: content_def)
  qed
qed (simp add: content_def)

lemma archive_names:
  assumes "archive buf es" "map_of es f = Some d"
  shows "cstring f" "length f < 100"
proof -
  obtain q where q: "pos_of 0 es f = Some q" using assms(2) pos_of_None [of 0 es f] by auto
  have "entry_at buf q (f, d)"
    using pos_of_Some [of buf 0 es f q] assms q by (auto simp: archive_def)
  then show "cstring f" "length f < 100" by (simp_all add: entry_at_def)
qed

lemma content_map:
  assumes "archive buf es"
  shows "content buf = map_of es"
proof (rule ext)
  fix f
  show "content buf f = map_of es f"
    using archive_names(1) [OF assms, of f] by (cases "map_of es f") (auto simp: content_archive [OF assms])
qed

lemma free_bytes_archive: "archive buf es \<Longrightarrow> free_bytes buf = TAR_BUF_SIZE - end_of 0 es"
  by (simp add: free_bytes_def tarGetEnd_archive)

interpretation tar: file_store content "\<lambda>f buf. outcome (tarTouch buf f)" "\<lambda>f buf. outcome (tarRm buf f)"
  good_archive "\<lambda>buf. 1024 \<le> free_bytes buf" "\<lambda>f. cstring f \<and> length f < 100" "[]"
proof unfold_locales
  fix buf f assume "good_archive buf" "1024 \<le> free_bytes buf"
    and f: "cstring f \<and> length f < 100" and new: "content buf f = None"
  then obtain es where es: "archive buf es" "distinct (map fst es)" "end_of 0 es + 1024 \<le> TAR_BUF_SIZE"
    by (auto simp: good_archive_def free_bytes_archive)
  have n: "map_of es f = None" using new by (simp add: content_map [OF es(1)])
  obtain b where b: "tarTouch buf f = Inr (1, b)" "archive b (es @ [(f, [])])"
    using tarTouch_archive [OF es(1) n _ _ es(3)] f by blast
  have "distinct (map fst (es @ [(f, [])]))" using es(2) n by (simp add: map_of_eq_None_iff)
  then have "good_archive b" using b(2) unfolding good_archive_def by blast
  moreover have "content b = (content buf)(f \<mapsto> [])"
    using n by (auto simp: content_map [OF b(2)] content_map [OF es(1)] fun_eq_iff map_add_def split: option.split)
  ultimately show "\<exists>s'. outcome (tarTouch buf f) = Some s' \<and> good_archive s' \<and> content s' = (content buf)(f \<mapsto> [])"
    using b(1) by (simp add: outcome_def)
next
  fix buf f d assume "good_archive buf" and old: "content buf f = Some d"
  then obtain es where es: "archive buf es" "distinct (map fst es)" by (auto simp: good_archive_def)
  have m: "map_of es f = Some d" using old by (simp add: content_map [OF es(1)])
  note names = archive_names [OF es(1) m]
  show "outcome (tarTouch buf f) = None"
    using tarTouch_there [OF es(1) m names(1)] by (simp add: outcome_def)
  obtain b where b: "tarRm buf f = Inr (1, b)" "archive b (remove_file f es)"
    using tarRm_archive [OF es(1) names(1) m] by blast
  have "distinct (map fst (remove_file f es))" using es(2) by (simp add: names_remove distinct_remove1)
  then have "good_archive b" using b(2) unfolding good_archive_def by blast
  moreover have "content b = (content buf)(f := None)"
    using es by (simp add: content_map [OF b(2)] content_map [OF es(1)] map_of_remove)
  moreover have "1024 \<le> free_bytes b"
    using end_of_remove [OF m, of 0] span_bounds(3) [of "length d"] end_of_le_buffer [OF es(1)]
    by (simp add: free_bytes_archive [OF b(2)])
  ultimately show "\<exists>s'. outcome (tarRm buf f) = Some s' \<and> good_archive s' \<and> 1024 \<le> free_bytes s' \<and>
      (cstring f \<and> length f < 100) \<and> content s' = (content buf)(f := None)"
    using b(1) names by (simp add: outcome_def)
next
  fix buf f assume "good_archive buf" "cstring f \<and> length f < 100" and new: "content buf f = None"
  then obtain es where es: "archive buf es" by (auto simp: good_archive_def)
  have "map_of es f = None" using new by (simp add: content_map [OF es])
  then show "outcome (tarRm buf f) = None"
    using tarRm_missing [OF es] \<open>cstring f \<and> length f < 100\<close> by (simp add: outcome_def)
qed

section \<open>A size field that leads back\<close>

text \<open>
  Eleven octal digits hold more than an \<open>int\<close>: the size \<open>37777777000\<close> is read as -512, the distance
  to the next header is 0, and every walk that meets the header stays on it.
\<close>

lemma tarNext_stuck:
  assumes "field buf (p + AT_SIZE) 11 = bytes ''37777777000''"
  shows "tarNext buf p = int p"
proof -
  have "header_size buf p = - 512"
    unfolding header_size_def assms by (simp add: oct2bin_def)
  moreover have "sint (- 512 :: u32) = - 512" by simp
  moreover have "ceilDiv (- 512) 512 = - 1"
    by (simp add: ceilDiv_def signed_divide_int_def signed_modulo_int_def)
  ultimately show ?thesis by (simp add: tarNext_def file_bytes_def)
qed

lemma walk_stuck:
  assumes "header_in (int p)" "tarValid buf p" "field buf (p + AT_SIZE) 11 = bytes ''37777777000''"
  shows "while_option (\<lambda>cur. header_in cur \<and> tarValid buf (nat cur))
      (\<lambda>cur. tarNext buf (nat cur)) (int p) = None"
proof -
  have fixed: "((\<lambda>cur. tarNext buf (nat cur)) ^^ k) (int p) = int p" for k
    by (induction k) (simp_all add: tarNext_stuck [OF assms(3)])
  then show ?thesis using assms(1,2) by (simp add: while_option_def)
qed

lemma tarGetEnd_stuck:
  assumes "tarValid buf 0" "field buf AT_SIZE 11 = bytes ''37777777000''"
  shows "tarGetEnd buf = Inl Diverges"
  using walk_stuck [of 0 buf] assms by (simp add: tarGetEnd_def header_in_def)

end
