(* ===== verification/Tar_Disk.thy ===== *)
theory Tar_Disk
  imports Archive
begin

text \<open>
  The archive on the disk: \<open>tarFlush\<close> writes the whole buffer, \<open>tarLoad\<close> reads it back, over the
  sector store of the ATA driver. The listing and the printing of files (src/ustar.c).
\<close>

section \<open>Bytes and words\<close>

lemma word_bytes:
  fixes a b :: u8
  shows "ucast (ucast a OR push_bit 8 (ucast b) :: u16) = a"
    and "ucast (drop_bit 8 (ucast a OR push_bit 8 (ucast b) :: u16)) = b"
  by (rule bit_word_eqI, auto simp: bit_simps dest: bit_imp_le_length)+

lemma length_load_words [simp]: "length (load_words buf p n) = n"
  by (simp add: load_words_def)

definition word_byte :: "u16 list \<Rightarrow> nat \<Rightarrow> u8" where
  "word_byte ws i = (if even i then ucast (ws ! (i div 2)) else ucast (drop_bit 8 (ws ! (i div 2))))"

lemma word_byte_Cons:
  "2 \<le> i \<Longrightarrow> word_byte (w # ws) i = word_byte ws (i - 2)"
proof -
  assume "2 \<le> i"
  then obtain j where "i = j + 2" by (metis add.commute le_Suc_ex)
  then show ?thesis by (simp add: word_byte_def)
qed

lemma store_words_apply:
  "store_words buf p ws q = (if p \<le> q \<and> q < p + 2 * length ws then word_byte ws (q - p) else buf q)"
proof (induction ws arbitrary: buf p)
  case (Cons w ws)
  consider "q < p" | "q = p" | "q = p + 1" | "p + 2 \<le> q" by linarith
  then show ?case
  proof cases
    case 4
    have "q - (p + 2) = q - p - 2" by simp
    then show ?thesis using 4 Cons word_byte_Cons [of "q - p" w ws] by auto
  qed (use Cons in \<open>auto simp: word_byte_def\<close>)
qed auto

lemma word_byte_load:
  assumes "i < 2 * n" shows "word_byte (load_words buf p n) i = buf (p + i)"
proof (cases "even i")
  case True
  then obtain j where "i = 2 * j" by blast
  then show ?thesis using assms by (simp add: word_byte_def load_words_def word_bytes)
next
  case False
  then obtain j where "i = 2 * j + 1" by (metis oddE)
  then show ?thesis
    using assms word_bytes(2) [of "buf (p + 2 * j)" "buf (p + 2 * j + 1)"]
    by (simp add: word_byte_def load_words_def)
qed

section \<open>Flushing and loading\<close>

lemma only_io_tarBuf: "only_io s s' \<Longrightarrow> tarBuf s' = tarBuf s"
proof -
  assume "only_io s s'"
  then obtain x where "s' = s\<lparr>trace := x\<rparr>" unfolding only_io_def by blast
  then show ?thesis by simp
qed

lemma tarBuf_ata [frame, simp]:
  "tarBuf (ataWrite dev l b s) = tarBuf s" "tarBuf (snd (ataRead dev l s)) = tarBuf s"
  by (rule only_io_tarBuf, simp)+

lemma ata_state_tarBuf [simp]:
  "ata_ready dev d0 k (s\<lparr>tarBuf := b\<rparr>) = ata_ready dev d0 k s"
  "ata_sector d0 k (s\<lparr>tarBuf := b\<rparr>) = ata_sector d0 k s"
  by (simp_all add: ata_ready_def ata_sector_def fun_eq_iff)

text \<open>The sectors of the archive are addressable.\<close>

lemma tar_lba: "i < TAR_MAX_SECTORS \<Longrightarrow> TAR_START_LBA + of_nat i < 2 ^ 28"
proof -
  assume "i < TAR_MAX_SECTORS"
  then have "unat (TAR_START_LBA + of_nat i) = 101 + i"
    by (simp add: unat_word_ariths unat_of_nat take_bit_nat_eq_self)
  then show ?thesis using \<open>i < TAR_MAX_SECTORS\<close> by (simp add: word_less_nat_alt)
qed

lemma tarFlush_writes:
  "for_to n (\<lambda>i s. ataWrite dev (TAR_START_LBA + of_nat i) (load_words (tarBuf s) (i * 512) 256) s) s =
     for_to n (\<lambda>i. ataWrite dev (TAR_START_LBA + of_nat i) (load_words (tarBuf s) (i * 512) 256)) s \<and>
   tarBuf (for_to n (\<lambda>i. ataWrite dev (TAR_START_LBA + of_nat i) (load_words (tarBuf s) (i * 512) 256)) s)
     = tarBuf s"
  by (induction n) simp_all

lemma tarFlush_disk:
  assumes "ata_ready dev d0 k s"
  shows "ata_ready dev d0 k (tarFlush dev s)" "tarBuf (tarFlush dev s) = tarBuf s"
    "i < TAR_MAX_SECTORS \<Longrightarrow>
      ata_sector d0 k (tarFlush dev s) (TAR_START_LBA + of_nat i) = load_words (tarBuf s) (i * 512) 256"
proof -
  let ?ws = "\<lambda>i. load_words (tarBuf s) (i * 512) 256"
  let ?t = "for_to TAR_MAX_SECTORS (\<lambda>i. ataWrite dev (TAR_START_LBA + of_nat i) (?ws i)) s"
  have t: "tarFlush dev s = ?t" "tarBuf ?t = tarBuf s"
    using tarFlush_writes [of dev TAR_MAX_SECTORS s] unfolding tarFlush_def by simp_all
  have "ata_ready dev d0 k ?t \<and> (\<forall>i<TAR_MAX_SECTORS. ata_sector d0 k ?t (TAR_START_LBA + of_nat i) = ?ws i)"
    by (rule ata.wr_all [OF assms]) (use tar_lba in simp_all)
  then show "ata_ready dev d0 k (tarFlush dev s)" "tarBuf (tarFlush dev s) = tarBuf s"
      "i < TAR_MAX_SECTORS \<Longrightarrow> ata_sector d0 k (tarFlush dev s) (TAR_START_LBA + of_nat i) = ?ws i"
    using t by simp_all
qed

lemma tarLoad_prefix:
  assumes "ata_ready dev d0 k s" "n \<le> TAR_MAX_SECTORS"
  defines "t m \<equiv> for_to m
       (\<lambda>i s. let (ws, s1) = ataRead dev (TAR_START_LBA + of_nat i) s
              in s1\<lparr>tarBuf := store_words (tarBuf s1) (i * 512) ws\<rparr>) s"
  shows "ata_ready dev d0 k (t n) \<and> ata_sector d0 k (t n) = ata_sector d0 k s \<and>
    (\<forall>q. tarBuf (t n) q =
       (if q < n * 512 then word_byte (ata_sector d0 k s (TAR_START_LBA + of_nat (q div 512))) (q mod 512)
        else tarBuf s q))"
  using assms(2)
proof (induction n)
  case 0
  then show ?case using assms(1) by (simp add: t_def)
next
  case (Suc n)
  let ?l = "TAR_START_LBA + of_nat n :: u32"
  have IH: "ata_ready dev d0 k (t n)" "ata_sector d0 k (t n) = ata_sector d0 k s"
    "tarBuf (t n) q = (if q < n * 512 then word_byte (ata_sector d0 k s (TAR_START_LBA + of_nat (q div 512))) (q mod 512)
        else tarBuf s q)" for q
    using Suc by simp_all
  have l: "?l < 2 ^ 28" using tar_lba [of n] Suc.prems by simp
  note rd = ata.rd_data [OF IH(1) l] ata.rd_keeps [OF IH(1) l] ata.rd_inv [OF IH(1) l]
  have step: "t (Suc n) = (snd (ataRead dev ?l (t n)))\<lparr>tarBuf := store_words (tarBuf (t n)) (n * 512) (ata_sector d0 k s ?l)\<rparr>"
    using rd(1) IH(2) unfolding t_def by (simp add: case_prod_beta Let_def)
  have q: "q div 512 = n" "q mod 512 = q - n * 512" if "n * 512 \<le> q" "q < Suc n * 512" for q
  proof -
    show "q div 512 = n" using that by (intro div_nat_eqI) (simp_all add: mult.commute)
    then show "q mod 512 = q - n * 512" by (simp add: minus_div_mult_eq_mod [symmetric])
  qed
  have len: "length (ata_sector d0 k s ?l) = 256" by (simp add: ata_sector_def)
  have "tarBuf (t (Suc n)) q =
     (if q < Suc n * 512 then word_byte (ata_sector d0 k s (TAR_START_LBA + of_nat (q div 512))) (q mod 512)
      else tarBuf s q)" for q
  proof (cases "n * 512 \<le> q \<and> q < Suc n * 512")
    case True
    then show ?thesis using q [of q] by (simp add: step store_words_apply len)
  next
    case False
    then show ?thesis by (auto simp: step store_words_apply len IH(3))
  qed
  then show ?case using rd(2,3) IH(2) by (simp add: step)
qed

lemma tarLoad_disk:
  assumes "ata_ready dev d0 k s"
  shows "ata_ready dev d0 k (tarLoad dev s)"
    "q < TAR_BUF_SIZE \<Longrightarrow> tarBuf (tarLoad dev s) q =
      word_byte (ata_sector d0 k s (TAR_START_LBA + of_nat (q div 512))) (q mod 512)"
  using tarLoad_prefix [OF assms order_refl] by (simp_all add: tarLoad_def)

text \<open>What was flushed comes back, whatever the buffer held in between.\<close>

lemma tarFlush_tarLoad:
  assumes "ata_ready dev d0 k s" "q < TAR_BUF_SIZE"
  shows "tarBuf (tarLoad dev ((tarFlush dev s)\<lparr>tarBuf := junk\<rparr>)) q = tarBuf s q"
proof -
  let ?s = "(tarFlush dev s)\<lparr>tarBuf := junk\<rparr>"
  have i: "q div 512 < TAR_MAX_SECTORS" using assms(2) by (simp add: div_less_iff_less_mult)
  have "ata_ready dev d0 k ?s" using tarFlush_disk(1) [OF assms(1)] by simp
  from tarLoad_disk(2) [OF this assms(2)] tarFlush_disk(3) [OF assms(1) i]
  have "tarBuf (tarLoad dev ?s) q = word_byte (load_words (tarBuf s) (q div 512 * 512) 256) (q mod 512)"
    by simp
  also have "\<dots> = tarBuf s q" by (subst word_byte_load) simp_all
  finally show ?thesis .
qed

text \<open>The buffer as the disk holds it, and what a well-formed archive on the disk is.\<close>

definition disk_buffer :: "drive \<Rightarrow> nat \<Rightarrow> 'a machine_scheme \<Rightarrow> buffer" where
  "disk_buffer d0 k s q = word_byte (ata_sector d0 k s (TAR_START_LBA + of_nat (q div 512))) (q mod 512)"

lemma archive_cong:
  assumes "archive buf es" "\<And>q. q < TAR_BUF_SIZE \<Longrightarrow> buf' q = buf q"
  shows "archive buf' es"
proof -
  have "end_of 0 es \<le> TAR_BUF_SIZE" using end_of_le_buffer [OF assms(1)] by simp
  then have "entries_at buf' 0 es"
    using assms by (intro entries_at_cong [of buf 0 es buf']) (auto simp: archive_def)
  then show ?thesis using assms by (simp add: archive_def zero_from_def)
qed

lemma tarLoad_archive:
  assumes "ata_ready dev d0 k s" "archive (disk_buffer d0 k s) es"
  shows "archive (tarBuf (tarLoad dev s)) es"
  by (rule archive_cong [OF assms(2)]) (simp add: tarLoad_disk(2) [OF assms(1)] disk_buffer_def)

lemma tarFlush_buffer:
  assumes "ata_ready dev d0 k s" "q < TAR_BUF_SIZE"
  shows "disk_buffer d0 k (tarFlush dev s) q = tarBuf s q"
proof -
  have i: "q div 512 < TAR_MAX_SECTORS" using assms(2) by (simp add: div_less_iff_less_mult)
  have "disk_buffer d0 k (tarFlush dev s) q = word_byte (load_words (tarBuf s) (q div 512 * 512) 256) (q mod 512)"
    by (simp add: disk_buffer_def tarFlush_disk(3) [OF assms(1) i])
  also have "\<dots> = tarBuf s q" by (subst word_byte_load) simp_all
  finally show ?thesis .
qed

lemma tarFlush_archive:
  assumes "ata_ready dev d0 k s" "archive (tarBuf s) es"
  shows "archive (disk_buffer d0 k (tarFlush dev s)) es"
  by (rule archive_cong [OF assms(2)]) (rule tarFlush_buffer [OF assms(1)])

lemma disk_buffer_fields [simp]:
  "disk_buffer d0 k (s\<lparr>tarBuf := b\<rparr>) = disk_buffer d0 k s"
  by (simp add: disk_buffer_def fun_eq_iff)

section \<open>Printing\<close>

lemma console_ops_tarBuf [frame, simp]:
  "tarBuf (moveCursor x y s) = tarBuf s"
  "tarBuf (put_cell c s) = tarBuf s"
  "tarBuf (scroll s) = tarBuf s"
  "tarBuf (writeChar c s) = tarBuf s"
  "tarBuf (writeStr str s) = tarBuf s"
proof -
  show 1: "tarBuf (moveCursor x y s) = tarBuf s" for x y and s :: "'a tarfs_scheme"
    by (simp add: moveCursor_def port_io_shape Let_def)
  show 2: "tarBuf (put_cell c s) = tarBuf s" for c and s :: "'a tarfs_scheme"
    by (simp add: put_cell_def Let_def)
  show 3: "tarBuf (scroll s) = tarBuf s" for s :: "'a tarfs_scheme"
    by (simp add: scroll_def Let_def)
  show 4: "tarBuf (writeChar c s) = tarBuf s" for c and s :: "'a tarfs_scheme"
    by (simp add: writeChar_shape fit_cursor_def Let_def 1 2 3)
  show "tarBuf (writeStr str s) = tarBuf s"
    by (induction str s rule: writeStr.induct) (simp_all add: 4)
qed

lemma writeStr_append: "cstring xs \<Longrightarrow> writeStr (xs @ ys) s = writeStr ys (writeStr xs s)"
  by (induction xs arbitrary: s) auto

lemma ucast_scast_byte: "(ucast (scast (c :: u8) :: u32) :: u8) = c"
  by (rule bit_word_eqI) (auto simp: bit_simps)

lemma fmtWrite_char: "fmtWrite (bytes ''%c'') [ArgInt (scast c)] s = Inr (writeStr [c] s)"
  by (simp add: fmtWrite_def vsfmtWrite_c ucast_scast_byte)

text \<open>\<open>tarPrintFile\<close> prints the bytes of the file that are not NUL.\<close>

lemma tarPrintFile_archive:
  assumes "archive (tarBuf s) es" "cstring fname" "map_of es fname = Some d"
  shows "tarPrintFile fname s = Inr (writeStr (filter (\<lambda>c. c \<noteq> 0) d) s)"
proof -
  obtain q where q: "tarRead (tarBuf s) fname = Inr (of_nat (length d), Some q)"
      "field (tarBuf s) q (length d) = d" "q + length d \<le> TAR_BUF_SIZE"
    using tarRead_archive(2) [OF assms] by blast
  have len: "unat (of_nat (length d) :: u32) = length d"
    using archive_file_small [OF assms(1,3)] by (simp add: unat_of_nat take_bit_nat_eq_self)
  define loop where "loop n = for_to n
     (\<lambda>i r. bindR r (\<lambda>t. if q + i < TAR_BUF_SIZE
        then fmtWrite (bytes ''%c'') [ArgInt (scast (tarBuf t (q + i)))] t else Inl OutOfBounds))
     (Inr s)" for n
  have "loop n = Inr (writeStr (filter (\<lambda>c. c \<noteq> 0) (take n d)) s)" if "n \<le> length d" for n
    using that
  proof (induction n)
    case 0
    then show ?case by (simp add: loop_def)
  next
    case (Suc n)
    let ?c = "tarBuf s (q + n)"
    have "?c = d ! n" using Suc.prems q(2) by (metis Suc_le_lessD nth_field)
    then have tk: "take (Suc n) d = take n d @ [?c]" using Suc.prems by (simp add: take_Suc_conv_app_nth)
    have "loop (Suc n) = fmtWrite (bytes ''%c'') [ArgInt (scast ?c)] (writeStr (filter (\<lambda>c. c \<noteq> 0) (take n d)) s)"
      using Suc q(3) by (simp add: loop_def)
    also have "\<dots> = Inr (writeStr [?c] (writeStr (filter (\<lambda>c. c \<noteq> 0) (take n d)) s))"
      by (rule fmtWrite_char)
    also have "\<dots> = Inr (writeStr (filter (\<lambda>c. c \<noteq> 0) (take (Suc n) d)) s)"
      unfolding tk by (simp add: writeStr_append cstring_def)
    finally show ?case .
  qed
  from this [of "length d"] show ?thesis
    using q(1) by (simp add: tarPrintFile_def loop_def len)
qed

text \<open>A file that is not there: the test fails, and the loop follows a pointer that was never set.\<close>

lemma tarPrintFile_missing:
  assumes "archive (tarBuf s) es" "cstring fname" "map_of es fname = None"
  shows "tarPrintFile fname s = Inl BadPointer"
  using tarRead_archive(1) [OF assms] by (simp add: tarPrintFile_def)

definition visible :: "u8 list \<Rightarrow> bool" where
  "visible name \<longleftrightarrow> asc CHR ''/'' \<notin> set (butlast name)"

definition listing :: "tar_file list \<Rightarrow> u8 list" where
  "listing es = concat (map (\<lambda>e. if visible (fst e) then fst e @ bytes ''  '' else []) es)"

lemma cstr_at_field:
  assumes "field buf p (length name + 1) = name @ [0]" "cstring name" "p + length name < TAR_BUF_SIZE"
  shows "cstr_at buf p = Inr name"
  using assms
proof (induction name arbitrary: p)
  case Nil
  then show ?case by (subst cstr_at.simps) (simp add: field_Suc)
next
  case (Cons c cs)
  have "cstr_at buf (p + 1) = Inr cs" using Cons by (simp add: field_Suc)
  then show ?case using Cons.prems by (subst cstr_at.simps) (simp add: field_Suc)
qed

lemma list_entry_name:
  assumes "entry_at (tarBuf s) p e" "fst e \<noteq> []"
  shows "list_entry False p s =
    Inr (writeStr (if visible (fst e) then fst e @ bytes ''  '' else []) s)"
proof -
  have n: "cstr_at (tarBuf s) p = Inr (fst e)"
    using assms(1) span_bounds(3) [of "length (snd e)"] by (intro cstr_at_field) (auto simp: entry_at_def)
  have "vsfmtWrite (bytes ''%s  '') [ArgStr (fst e)] = Inr (fst e @ bytes ''  '')"
    using assms(1) vsfmtWrite_only_text [of "bytes ''  ''" "[]"]
    by (simp add: vsfmtWrite_s entry_at_def)
  then have "fmtWrite (bytes ''%s  '') [ArgStr (fst e)] s = Inr (writeStr (fst e @ bytes ''  '') s)"
    using assms(1) by (intro fmtWrite_ok) (auto simp: entry_at_def)
  then show ?thesis using n assms(2) by (simp add: list_entry_def is_subfile_def visible_def)
qed

text \<open>
  What a listing prints, from the text of each entry (\<open>out\<close>, which may look at the header): one after the
  other, in archive order.
\<close>

fun listing_of :: "(nat \<Rightarrow> tar_file \<Rightarrow> u8 list) \<Rightarrow> nat \<Rightarrow> tar_file list \<Rightarrow> u8 list" where
  "listing_of out p [] = []"
| "listing_of out p (e # es) = out p e @ listing_of out (p + span (length (snd e))) es"

lemma tarList_walk:
  fixes s :: "'a tarfs_scheme"
  assumes "entries_at (tarBuf s) p es" "zero_from (tarBuf s) (end_of p es)" "\<forall>e\<in>set es. fst e \<noteq> []"
    and out: "\<And>p e (t :: 'a tarfs_scheme). tarBuf t = tarBuf s \<Longrightarrow> entry_at (tarBuf s) p e \<Longrightarrow> fst e \<noteq> [] \<Longrightarrow>
      list_entry long p t = Inr (writeStr (out p e) t) \<and> cstring (out p e)"
  shows "while_option
       (\<lambda>r. case r of Inl e \<Rightarrow> False | Inr (cur, t) \<Rightarrow> header_in cur \<and> tarValid (tarBuf t) (nat cur))
       (\<lambda>r. bindR r (\<lambda>(cur, t). bindR (list_entry long (nat cur) t)
              (\<lambda>t'. Inr (tarNext (tarBuf t') (nat cur), t'))))
       (Inr (int p, s)) = Some (Inr (int (end_of p es), writeStr (listing_of out p es) s))"
  using assms
proof (induction es arbitrary: p s)
  case Nil
  then show ?case using zero_from_end [of "tarBuf s" p] by (subst while_option_unfold) simp
next
  case (Cons e es)
  let ?t = "writeStr (out p e) s"
  have e: "entry_at (tarBuf s) p e" "fst e \<noteq> []" using Cons.prems by simp_all
  have t: "tarBuf ?t = tarBuf s" by simp
  have entry: "list_entry long p s = Inr (writeStr (out p e) s)" "cstring (out p e)"
    using Cons.prems(4) [of s p e] e by simp_all
  have "writeStr (listing_of out (p + span (length (snd e))) es) ?t = writeStr (listing_of out p (e # es)) s"
    using entry by (simp add: writeStr_append)
  moreover have "while_option
       (\<lambda>r. case r of Inl e \<Rightarrow> False | Inr (cur, t) \<Rightarrow> header_in cur \<and> tarValid (tarBuf t) (nat cur))
       (\<lambda>r. bindR r (\<lambda>(cur, t). bindR (list_entry long (nat cur) t)
              (\<lambda>t'. Inr (tarNext (tarBuf t') (nat cur), t'))))
       (Inr (int (p + span (length (snd e))), ?t))
     = Some (Inr (int (end_of p (e # es)), writeStr (listing_of out (p + span (length (snd e))) es) ?t))"
    using Cons.prems unfolding end_of.simps by (intro Cons.IH) (simp_all only: t, simp_all)
  ultimately show ?case
    using entry_header_in [OF e(1)] tarNext_entry [OF e(1)] entry t
    by (subst while_option_unfold) (simp del: of_nat_add)
qed

text \<open>The short listing prints the names that are not inside a directory.\<close>

lemma listing_short: "listing_of (\<lambda>p e. if visible (fst e) then fst e @ bytes ''  '' else []) p es = listing es"
  by (induction es arbitrary: p) (simp_all add: listing_def)

lemma tarList_archive:
  fixes s :: "'a tarfs_scheme"
  assumes "archive (tarBuf s) es" "\<forall>e\<in>set es. fst e \<noteq> []" "flag \<noteq> bytes ''-l''"
  shows "tarList flag s = Inr (writeStr (listing es) s)"
proof -
  let ?out = "\<lambda>p :: nat. \<lambda>e :: tar_file. if visible (fst e) then fst e @ bytes ''  '' else []"
  have out: "list_entry False p t = Inr (writeStr (?out p e) t) \<and> cstring (?out p e)"
    if "tarBuf t = tarBuf s" "entry_at (tarBuf s) p e" "fst e \<noteq> []" for p e and t :: "'a tarfs_scheme"
    using list_entry_name [of t p e] that by (simp add: entry_at_def)
  have "entries_at (tarBuf s) 0 es" "zero_from (tarBuf s) (end_of 0 es)" using assms(1) by (simp_all add: archive_def)
  from tarList_walk [OF this assms(2) out] show ?thesis
    using assms(3) zero_from_end [of "tarBuf s" "end_of 0 es"] \<open>zero_from (tarBuf s) (end_of 0 es)\<close>
    by (simp add: tarList_def listing_short)
qed

end
