(* ===== verification/Fd.thy ===== *)
theory Fd
  imports Tar_Disk
begin

text \<open>
  File descriptors (src/fd.c): a table of eight open files over the archive in \<open>tarBuf\<close>. The data
  pointer of a descriptor is an offset in \<open>tarBuf\<close>, or \<open>None\<close> when it does not point there. A
  negative descriptor number gives an index below the table: the fault \<open>OutOfBounds\<close>.
\<close>

abbreviation FD_MAX_FILES :: nat where "FD_MAX_FILES \<equiv> 8"
abbreviation O_CREAT :: u32 where "O_CREAT \<equiv> 4"
abbreviation O_TRUNC :: u32 where "O_TRUNC \<equiv> 8"

record FileDesc =
  fd_name :: "u8 list"
  isInUse :: u32
  dirty :: u32
  fd_data :: "nat option"
  fd_size :: u32
  rwPos :: u32
  fd_flags :: u32

record files = tarfs +
  fdTable :: "nat \<Rightarrow> FileDesc"

section \<open>The operations\<close>

text \<open>What \<open>fdInit\<close> and \<open>close\<close> clear; neither clears \<open>dirty\<close>.\<close>

definition clear_fd :: "FileDesc \<Rightarrow> FileDesc" where
  "clear_fd d = d\<lparr>isInUse := 0, fd_data := None, fd_size := 0, rwPos := 0, fd_flags := 0, fd_name := []\<rparr>"

definition fdInit :: "'a files_scheme \<Rightarrow> 'a files_scheme" where
  "fdInit s = for_to FD_MAX_FILES (\<lambda>i t. t\<lparr>fdTable := (fdTable t)(i := clear_fd (fdTable t i))\<rparr>) s"

definition free_slot :: "(nat \<Rightarrow> FileDesc) \<Rightarrow> nat option" where
  "free_slot tbl = find (\<lambda>slot. isInUse (tbl slot) = 0) [0..<FD_MAX_FILES]"

text \<open>
  The first half of \<open>open\<close>: the file is found, or created when \<open>O_CREAT\<close> is given. The outer
  option is \<open>None\<close> where the code returns -1.
\<close>

definition find_or_create ::
  "buffer \<Rightarrow> u8 list \<Rightarrow> u32 \<Rightarrow> fault + (nat option \<times> buffer) option" where
  "find_or_create buf path flags =
     bindR (tarFind buf path)
       (\<lambda>th. case th of
               Some p \<Rightarrow> Inr (Some (Some p, buf))
             | None \<Rightarrow>
                 if flags AND O_CREAT \<noteq> 0 then
                   bindR (tarTouch buf path)
                     (\<lambda>(r, b). bindR (tarFind b path) (\<lambda>th'. Inr (Some (th', b))))
                 else Inr None)"

definition truncate_file ::
  "buffer \<Rightarrow> u8 list \<Rightarrow> u32 \<Rightarrow> nat option \<Rightarrow> fault + nat option \<times> buffer" where
  "truncate_file buf path flags th =
     (if flags AND O_TRUNC \<noteq> 0 then
        bindR (tarEdit buf path [] 0) (\<lambda>(r, b). bindR (tarFind b path) (\<lambda>th'. Inr (th', b)))
      else Inr (th, buf))"

text \<open>
  \<open>open_file\<close> is \<open>open\<close>. The name is copied with \<open>strcpy\<close> into an array of 100 bytes.
\<close>

definition open_file ::
  "u8 list \<Rightarrow> u32 \<Rightarrow> 'a files_scheme \<Rightarrow> fault + u32 \<times> 'a files_scheme" where
  "open_file path flags s =
     bindR (find_or_create (tarBuf s) path flags)
       (\<lambda>r. case r of
              None \<Rightarrow> Inr (- 1, s)
            | Some (th, b) \<Rightarrow>
                bindR (truncate_file b path flags th)
                  (\<lambda>(usableTh, b').
                     let s1 = s\<lparr>tarBuf := b'\<rparr>
                     in case free_slot (fdTable s1) of
                          None \<Rightarrow> Inr (- 1, s1)
                        | Some slot \<Rightarrow>
                            bindR (tarGetSize b' path)
                              (\<lambda>sz. if length path < 100
                                    then Inr (of_nat slot + 3,
                                      s1\<lparr>fdTable := (fdTable s1)(slot :=
                                        \<lparr>fd_name = path, isInUse = 1, dirty = 0,
                                         fd_data = map_option (\<lambda>p. p + 512) usableTh, fd_size = sz,
                                         rwPos = 0, fd_flags = flags\<rparr>)\<rparr>)
                                    else Inl OutOfBounds)))"

text \<open>The descriptor behind a number that is not 0, 1 or 2.\<close>

definition fd_index :: "u32 \<Rightarrow> fault + nat option" where
  "fd_index fd =
     (if sint fd \<ge> int FD_MAX_FILES + 3 then Inr None
      else if sint fd < 3 then Inl OutOfBounds
      else Inr (Some (nat (sint fd - 3))))"

text \<open>How much of \<open>count\<close> is served; the sum wraps at 32 bits.\<close>

definition clip :: "FileDesc \<Rightarrow> u32 \<Rightarrow> u32" where
  "clip d count = (if rwPos d + count > fd_size d then fd_size d - rwPos d else count)"

text \<open>
  \<open>read_file\<close> is \<open>read\<close>; it returns the bytes stored at \<open>buf\<close>. On descriptor 0 it reads a line with
  \<open>fmtGet\<close>, whatever \<open>count\<close> is.
\<close>

definition read_file ::
  "device \<Rightarrow> nat list \<Rightarrow> u32 \<Rightarrow> u32 \<Rightarrow> 'a files_scheme \<Rightarrow> fault + u32 \<times> u8 list \<times> 'a files_scheme" where
  "read_file dev polls fd count s =
     (if fd = 0 then
        bindR (fmtGet dev polls (bytes ''%s'') s)
          (\<lambda>(gs, s1). case gs of
                        [GotStr str] \<Rightarrow> Inr (of_nat (length str), str @ [0], s1)
                      | _ \<Rightarrow> Inl BadPointer)
      else if fd = 1 \<or> fd = 2 then Inr (- 1, [], s)
      else bindR (fd_index fd)
        (\<lambda>i. case i of
               None \<Rightarrow> Inr (- 1, [], s)
             | Some k \<Rightarrow>
                 (let d = fdTable s k
                  in if isInUse d = 0 then Inr (- 1, [], s)
                     else if rwPos d \<ge> fd_size d then Inr (0, [], s)
                     else (let n = clip d count
                           in if n = 0 then Inr (0, [], s)
                              else case fd_data d of
                                None \<Rightarrow> Inl BadPointer
                              | Some p \<Rightarrow>
                                  if p + unat (rwPos d) + unat n \<le> TAR_BUF_SIZE
                                  then Inr (n, field (tarBuf s) (p + unat (rwPos d)) (unat n),
                                    s\<lparr>fdTable := (fdTable s)(k := d\<lparr>rwPos := rwPos d + n\<rparr>)\<rparr>)
                                  else Inl OutOfBounds))))"

text \<open>\<open>write_file\<close> is \<open>write\<close>; \<open>src\<close> is the memory at \<open>buf\<close>.\<close>

definition write_file ::
  "u32 \<Rightarrow> u8 list \<Rightarrow> u32 \<Rightarrow> 'a files_scheme \<Rightarrow> fault + u32 \<times> 'a files_scheme" where
  "write_file fd src count s =
     (if fd = 1 \<or> fd = 2 then
        (if unat count \<le> length src then Inr (count, fold writeChar (take (unat count) src) s)
         else Inl OutOfBounds)
      else if fd = 0 then Inr (- 1, s)
      else bindR (fd_index fd)
        (\<lambda>i. case i of
               None \<Rightarrow> Inr (- 1, s)
             | Some k \<Rightarrow>
                 (let d = fdTable s k
                  in if isInUse d = 0 then Inr (- 1, s)
                     else if rwPos d \<ge> fd_size d then Inr (0, s)
                     else (let n = clip d count
                           in case fd_data d of
                                None \<Rightarrow> if n = 0 then Inr (0, s\<lparr>fdTable := (fdTable s)(k := d\<lparr>dirty := 1\<rparr>)\<rparr>)
                                        else Inl BadPointer
                              | Some p \<Rightarrow>
                                  if p + unat (rwPos d) + unat n \<le> TAR_BUF_SIZE \<and> unat n \<le> length src
                                  then Inr (n, s\<lparr>tarBuf := write_bytes (tarBuf s) (p + unat (rwPos d)) (take (unat n) src),
                                    fdTable := (fdTable s)(k := d\<lparr>rwPos := rwPos d + n, dirty := 1\<rparr>)\<rparr>)
                                  else Inl OutOfBounds))))"

definition close_file :: "device \<Rightarrow> u32 \<Rightarrow> 'a files_scheme \<Rightarrow> u32 \<times> 'a files_scheme" where
  "close_file dev fd s =
     (if sint fd < 3 \<or> sint fd \<ge> int FD_MAX_FILES + 3 then (- 1, s)
      else (let k = nat (sint fd - 3); d = fdTable s k
            in if isInUse d = 0 then (- 1, s)
               else (let s1 = (if dirty d \<noteq> 0 then tarFlush dev s else s)
                     in (0, s1\<lparr>fdTable := (fdTable s1)(k := clear_fd d)\<rparr>))))"

section \<open>Descriptors and slots\<close>

lemma free_slot_Some:
  "free_slot tbl = Some k \<Longrightarrow> k < FD_MAX_FILES \<and> isInUse (tbl k) = 0 \<and> (\<forall>j<k. isInUse (tbl j) \<noteq> 0)"
  by (auto simp: free_slot_def find_Some_iff)

lemma free_slot_None: "free_slot tbl = None \<longleftrightarrow> (\<forall>k<FD_MAX_FILES. isInUse (tbl k) \<noteq> 0)"
  by (auto simp: free_slot_def find_None_iff)

lemma sint_fd: "k < FD_MAX_FILES \<Longrightarrow> sint (of_nat k + 3 :: u32) = int k + 3"
  using sint_small [of "k + 3"] by (simp add: add.commute)

lemma fd_index_slot: "k < FD_MAX_FILES \<Longrightarrow> fd_index (of_nat k + 3) = Inr (Some k)"
  using sint_fd [of k] by (simp add: fd_index_def)

lemma not_std: "sint (fd :: u32) \<ge> 3 \<Longrightarrow> fd \<noteq> 0 \<and> fd \<noteq> 1 \<and> fd \<noteq> 2"
  by auto

lemma fd_number:
  assumes "k < FD_MAX_FILES"
  shows "of_nat k + 3 \<noteq> (0 :: u32)" "of_nat k + 3 \<noteq> (1 :: u32)" "of_nat k + 3 \<noteq> (2 :: u32)"
proof -
  have "sint (of_nat k + 3 :: u32) \<ge> 3" by (simp only: sint_fd [OF assms])
  from not_std [OF this] show "of_nat k + 3 \<noteq> (0 :: u32)" "of_nat k + 3 \<noteq> (1 :: u32)"
      "of_nat k + 3 \<noteq> (2 :: u32)" by blast+
qed

text \<open>A negative descriptor is not rejected: \<open>read\<close> and \<open>write\<close> index below the table.\<close>

lemma negative_fd:
  assumes "sint fd < 0"
  shows "read_file dev polls fd count s = Inl OutOfBounds" "write_file fd src count s = Inl OutOfBounds"
    "close_file dev fd s = (- 1, s)"
proof -
  have "fd \<noteq> 0" "fd \<noteq> 1" "fd \<noteq> 2" using assms by auto
  then show "read_file dev polls fd count s = Inl OutOfBounds" "write_file fd src count s = Inl OutOfBounds"
      "close_file dev fd s = (- 1, s)"
    using assms by (simp_all add: read_file_def write_file_def close_file_def fd_index_def)
qed

section \<open>Writing inside a file\<close>

lemma field_write_inside:
  assumes "field buf q (length d) = d" "pos + length bs \<le> length d"
  shows "field (write_bytes buf (q + pos) bs) q (length d) = take pos d @ bs @ drop (pos + length bs) d"
proof (rule nth_equalityI)
  fix i assume i: "i < length (field (write_bytes buf (q + pos) bs) q (length d))"
  then have "d ! i = buf (q + i)" using assms(1) by (metis length_field nth_field)
  then show "field (write_bytes buf (q + pos) bs) q (length d) ! i = (take pos d @ bs @ drop (pos + length bs) d) ! i"
    using i assms(2) by (auto simp: write_bytes_apply nth_append min_def)
qed (use assms(2) in simp)

lemma archive_write:
  assumes "archive buf es" "j < length es" "es ! j = (f, d)" "pos + length bs \<le> length d"
  shows "archive (write_bytes buf (end_of 0 (take j es) + 512 + pos) bs)
    (es[j := (f, take pos d @ bs @ drop (pos + length bs) d)])"
proof -
  define q where "q = end_of 0 (take j es)"
  define b where "b = write_bytes buf (q + 512 + pos) bs"
  define d' where "d' = take pos d @ bs @ drop (pos + length bs) d"
  let ?tl = "drop (Suc j) es"
  have es: "es = take j es @ (f, d) # ?tl" using id_take_nth_drop [OF assms(2)] assms(3) by simp
  have es': "es[j := (f, d')] = take j es @ (f, d') # ?tl" by (rule upd_conv_take_nth_drop [OF assms(2)])
  have len: "length d' = length d" using assms(4) by (simp add: d'_def)
  have parts: "entries_at buf 0 (take j es)" "entry_at buf q (f, d)" "entries_at buf (q + span (length d)) ?tl"
      "zero_from buf (end_of (q + span (length d)) ?tl)"
    using assms(1) unfolding archive_def by (subst (asm) (1 2) es, simp add: q_def)+
  have same: "b i = buf i" if "i < q + 512 \<or> q + span (length d) \<le> i" for i
    using that assms(4) span_bounds(1) [of "length d"] by (auto simp: b_def write_bytes_apply)
  have after: "q + span (length d) \<le> end_of (q + span (length d)) ?tl" by (rule end_of_ge)
  have "entries_at b 0 (take j es)"
    by (rule entries_at_cong [OF parts(1)]) (simp add: same flip: q_def)
  moreover have "entries_at b (q + span (length d)) ?tl"
    by (rule entries_at_cong [OF parts(3)]) (simp add: same)
  moreover have "zero_from b (end_of (q + span (length d)) ?tl)"
    using parts(4) same after by (simp add: zero_from_def)
  moreover have "entry_at b q (f, d')"
  proof -
    have keep: "field b (q + a) n = field buf (q + a) n" if "a + n \<le> 512" for a n
      by (rule field_cong) (use that in \<open>simp add: same\<close>)
    have "field b q (length f + 1) = field buf q (length f + 1)"
      using keep [of 0 "length f + 1"] parts(2) by (simp add: entry_at_def)
    moreover have "field b (q + 512) (length d) = d'"
      using field_write_inside [of buf "q + 512" d pos bs] parts(2) assms(4)
      by (simp add: b_def d'_def entry_at_def add.assoc)
    moreover have "tarValid b q = tarValid buf q" "header_size b q = header_size buf q"
      using keep [of AT_USTAR 5] keep [of AT_SIZE 11] same [of "q + AT_TYPE"]
      by (simp_all add: tarValid_def header_size_def)
    ultimately show ?thesis using parts(2) by (simp add: entry_at_def len)
  qed
  ultimately have "archive b (es[j := (f, d')])"
    unfolding archive_def es' by (simp add: len flip: q_def)
  then show ?thesis by (simp add: b_def d'_def q_def)
qed

section \<open>Open files over a well-formed archive\<close>

text \<open>Slot \<open>k\<close> is open on the \<open>j\<close>-th file of the archive, at position \<open>pos\<close>.\<close>

definition fd_on :: "'a files_scheme \<Rightarrow> nat \<Rightarrow> tar_file list \<Rightarrow> nat \<Rightarrow> nat \<Rightarrow> bool" where
  "fd_on s k es j pos \<longleftrightarrow>
     (let d = fdTable s k
      in k < FD_MAX_FILES \<and> j < length es \<and> isInUse d \<noteq> 0 \<and>
         fd_data d = Some (end_of 0 (take j es) + 512) \<and>
         fd_size d = of_nat (length (snd (es ! j))) \<and>
         rwPos d = of_nat pos \<and> pos \<le> length (snd (es ! j)))"

lemma archive_entry:
  assumes "archive buf es" "j < length es"
  shows "entry_at buf (end_of 0 (take j es)) (es ! j)"
proof -
  have "es = take j es @ es ! j # drop (Suc j) es" using id_take_nth_drop [OF assms(2)] .
  then have "entries_at buf 0 (take j es @ es ! j # drop (Suc j) es)"
    using assms(1) by (simp add: archive_def)
  then show ?thesis by simp
qed

lemma unat_small: "n < 2 ^ 32 \<Longrightarrow> unat (of_nat n :: u32) = n"
  by (simp add: unat_of_nat take_bit_nat_eq_self)

text \<open>The clipping of \<open>count\<close>, when the sum does not wrap, is the minimum.\<close>

lemma clip_min:
  assumes "rwPos d = of_nat pos" "fd_size d = of_nat n" "pos \<le> n" "n < 2 ^ 30" "pos + unat count < 2 ^ 32"
  shows "unat (clip d count) = min (unat count) (n - pos)"
proof -
  have p: "unat (rwPos d) = pos" "unat (fd_size d) = n" using assms by (simp_all add: unat_small)
  have sum: "unat (rwPos d + count) = pos + unat count"
    using assms(5) by (simp add: unat_word_ariths p)
  have diff: "unat (fd_size d - rwPos d) = n - pos"
    using assms(3) p by (simp add: unat_sub word_le_nat_alt)
  show ?thesis using sum diff p by (auto simp: clip_def word_less_nat_alt)
qed

lemma fd_on_bounds:
  assumes "archive (tarBuf s) es" "fd_on s k es j pos"
  shows "length (snd (es ! j)) < 2 ^ 30"
    "end_of 0 (take j es) + 512 + length (snd (es ! j)) \<le> TAR_BUF_SIZE"
  using archive_entry [OF assms(1), of j] assms(2) span_bounds(1) [of "length (snd (es ! j))"]
  by (simp_all add: fd_on_def Let_def entry_at_def)

lemma read_fd_on:
  assumes "archive (tarBuf s) es" "fd_on s k es j pos" "pos + unat count < 2 ^ 32"
  defines "m \<equiv> min (unat count) (length (snd (es ! j)) - pos)"
  shows "\<exists>s'. read_file dev polls (of_nat k + 3) count s = Inr (of_nat m, take m (drop pos (snd (es ! j))), s')
    \<and> fd_on s' k es j (pos + m) \<and> tarBuf s' = tarBuf s"
proof -
  let ?d = "fdTable s k" and ?f = "snd (es ! j)" and ?q = "end_of 0 (take j es) + 512"
  have on: "k < FD_MAX_FILES" "j < length es" "isInUse ?d \<noteq> 0" "fd_data ?d = Some ?q"
      "fd_size ?d = of_nat (length ?f)" "rwPos ?d = of_nat pos" "pos \<le> length ?f"
    using assms(2) by (simp_all add: fd_on_def Let_def)
  note bnd = fd_on_bounds [OF assms(1,2)]
  have n: "unat (clip ?d count) = m"
    unfolding m_def using clip_min [OF on(6,5,7) bnd(1) assms(3)] .
  have "of_nat (unat (clip ?d count)) = clip ?d count" by simp
  then have cl: "clip ?d count = of_nat m" by (simp only: n)
  have m: "pos + m \<le> length ?f" using on(7) by (simp add: m_def)
  have upos: "unat (of_nat pos :: u32) = pos" "unat (of_nat (length ?f) :: u32) = length ?f"
    using on(7) bnd(1) by (simp_all add: unat_small)
  have eof: "rwPos ?d \<ge> fd_size ?d \<longleftrightarrow> pos = length ?f"
    using on upos by (auto simp: word_le_nat_alt)
  have data: "field (tarBuf s) (?q + pos) m = take m (drop pos ?f)"
  proof (rule nth_equalityI)
    fix i assume i: "i < length (field (tarBuf s) (?q + pos) m)"
    have f: "field (tarBuf s) ?q (length ?f) = ?f"
      using archive_entry [OF assms(1) on(2)] by (simp add: entry_at_def)
    have "pos + i < length ?f" using i m by simp
    then have "?f ! (pos + i) = tarBuf s (?q + (pos + i))"
      using nth_field [of "pos + i" "length ?f" "tarBuf s" ?q] unfolding f by blast
    then show "field (tarBuf s) (?q + pos) m ! i = take m (drop pos ?f) ! i"
      using i m by (simp add: add.assoc)
  qed (use m in simp)
  note num = fd_number [OF on(1)]
  show ?thesis
  proof (cases "m = 0")
    case True
    then have "read_file dev polls (of_nat k + 3) count s = Inr (0, [], s)"
      using num fd_index_slot [OF on(1)] on(3) cl by (simp add: read_file_def Let_def)
    then show ?thesis using True assms(2) by auto
  next
    case False
    let ?s' = "s\<lparr>fdTable := (fdTable s)(k := ?d\<lparr>rwPos := rwPos ?d + of_nat m\<rparr>)\<rparr>"
    have "pos \<noteq> length ?f" using False by (auto simp: m_def)
    moreover have "(of_nat m :: u32) \<noteq> 0" using n False by (metis cl unat_0)
    ultimately have "read_file dev polls (of_nat k + 3) count s = Inr (of_nat m, take m (drop pos ?f), ?s')"
      using num fd_index_slot [OF on(1)] on(3,4) eof bnd(2) m data n cl upos(1) on(6)
      by (simp add: read_file_def Let_def)
    moreover have "fd_on ?s' k es j (pos + m)"
      using on m by (simp add: fd_on_def Let_def)
    ultimately show ?thesis by fastforce
  qed
qed

text \<open>
  Writing never extends a file: it replaces the bytes from the position on, as far as the file goes.
\<close>

lemma write_fd_on:
  assumes "archive (tarBuf s) es" "fd_on s k es j pos" "pos + unat count < 2 ^ 32"
    "pos < length (snd (es ! j))" "unat count \<le> length src"
  defines "m \<equiv> min (unat count) (length (snd (es ! j)) - pos)"
  defines "es' \<equiv> es[j := (fst (es ! j), take pos (snd (es ! j)) @ take m src @ drop (pos + m) (snd (es ! j)))]"
  shows "\<exists>s'. write_file (of_nat k + 3) src count s = Inr (of_nat m, s') \<and>
    archive (tarBuf s') es' \<and> fd_on s' k es' j (pos + m) \<and> dirty (fdTable s' k) = 1"
proof -
  let ?d = "fdTable s k" and ?f = "snd (es ! j)" and ?q = "end_of 0 (take j es) + 512"
  have on: "k < FD_MAX_FILES" "j < length es" "isInUse ?d \<noteq> 0" "fd_data ?d = Some ?q"
      "fd_size ?d = of_nat (length ?f)" "rwPos ?d = of_nat pos" "pos \<le> length ?f"
    using assms(2) by (simp_all add: fd_on_def Let_def)
  note bnd = fd_on_bounds [OF assms(1,2)]
  have n: "unat (clip ?d count) = m"
    unfolding m_def using clip_min [OF on(6,5,7) bnd(1) assms(3)] .
  have "of_nat (unat (clip ?d count)) = clip ?d count" by simp
  then have cl: "clip ?d count = of_nat m" by (simp only: n)
  have um: "unat (of_nat m :: u32) = m" using n by (simp only: cl)
  have m: "pos + m \<le> length ?f" "m \<le> length src" using on(7) assms(5) by (simp_all add: m_def)
  have upos: "unat (of_nat pos :: u32) = pos" "unat (of_nat (length ?f) :: u32) = length ?f"
    using on(7) bnd(1) by (simp_all add: unat_small)
  have eof: "\<not> rwPos ?d \<ge> fd_size ?d"
    using on(5,6) upos assms(4) by (simp add: word_le_nat_alt)
  define b where "b = write_bytes (tarBuf s) (?q + pos) (take m src)"
  let ?s' = "s\<lparr>tarBuf := b, fdTable := (fdTable s)(k := ?d\<lparr>rwPos := rwPos ?d + of_nat m, dirty := 1\<rparr>)\<rparr>"
  have wr: "write_file (of_nat k + 3) src count s = Inr (of_nat m, ?s')"
    using fd_number [OF on(1)] fd_index_slot [OF on(1)] on(3,4) eof bnd(2) m um cl upos(1) on(6)
    by (simp add: write_file_def Let_def b_def)
  have arch: "archive b es'"
  proof -
    have "es ! j = (fst (es ! j), ?f)" "pos + length (take m src) \<le> length ?f" using m by simp_all
    from archive_write [OF assms(1) on(2) this] show ?thesis
      using m(2) by (simp add: b_def es'_def add.assoc)
  qed
  have "length es' = length es" "length (snd (es' ! j)) = length ?f" "take j es' = take j es"
    using m on(2) by (simp_all add: es'_def)
  then have "fd_on ?s' k es' j (pos + m)"
    using on m by (simp add: fd_on_def Let_def)
  then show ?thesis using wr arch by fastforce
qed

lemma close_fd_on:
  assumes "fd_on s k es j pos" "ata_ready dev d0 kk s"
  shows "\<exists>s'. close_file dev (of_nat k + 3) s = (0, s') \<and> isInUse (fdTable s' k) = 0 \<and>
    tarBuf s' = tarBuf s \<and> ata_ready dev d0 kk s' \<and>
    (dirty (fdTable s k) \<noteq> 0 \<longrightarrow> (\<forall>i<TAR_MAX_SECTORS.
       ata_sector d0 kk s' (TAR_START_LBA + of_nat i) = load_words (tarBuf s) (i * 512) 256))"
proof -
  let ?d = "fdTable s k" and ?t = "if dirty (fdTable s k) \<noteq> 0 then tarFlush dev s else s"
  have on: "k < FD_MAX_FILES" "isInUse ?d \<noteq> 0" using assms(1) by (simp_all add: fd_on_def Let_def)
  let ?s' = "?t\<lparr>fdTable := (fdTable ?t)(k := clear_fd ?d)\<rparr>"
  have c: "close_file dev (of_nat k + 3) s = (0, ?s')"
    using sint_fd [OF on(1)] on by (simp add: close_file_def Let_def)
  have frame: "ata_ready dev d0 kk (u\<lparr>fdTable := x\<rparr>) = ata_ready dev d0 kk u"
    "ata_sector d0 kk (u\<lparr>fdTable := x\<rparr>) = ata_sector d0 kk u" for u :: "'a files_scheme" and x
    by (simp_all add: ata_ready_def ata_sector_def fun_eq_iff)
  have "tarBuf ?s' = tarBuf s" using tarFlush_disk(2) [OF assms(2)] by simp
  moreover have "ata_ready dev d0 kk ?s'" using tarFlush_disk(1) [OF assms(2)] assms(2) by (simp add: frame)
  moreover have "\<forall>i<TAR_MAX_SECTORS.
       ata_sector d0 kk ?s' (TAR_START_LBA + of_nat i) = load_words (tarBuf s) (i * 512) 256" if "dirty ?d \<noteq> 0"
    using that tarFlush_disk(3) [OF assms(2)] by (simp add: frame)
  moreover have "isInUse (fdTable ?s' k) = 0" by (simp add: clear_fd_def)
  ultimately show ?thesis using c by blast
qed

lemma open_fd_on:
  assumes "archive (tarBuf s) es" "map_of es f = Some d" "flags AND O_TRUNC = 0" "free_slot (fdTable s) = Some k"
  shows "\<exists>s' j. open_file f flags s = Inr (of_nat k + 3, s') \<and> tarBuf s' = tarBuf s \<and>
    j < length es \<and> es ! j = (f, d) \<and> fd_on s' k es j 0 \<and> dirty (fdTable s' k) = 0"
proof -
  note names = archive_names [OF assms(1,2)]
  obtain q where q: "pos_of 0 es f = Some q" using assms(2) pos_of_None [of 0 es f] by auto
  obtain es1 es2 where es: "es = es1 @ (f, d) # es2" "q = end_of 0 es1"
    using pos_of_Some [of "tarBuf s" 0 es f q] assms(1,2) q by (auto simp: archive_def)
  let ?d = "\<lparr>fd_name = f, isInUse = 1, dirty = 0, fd_data = Some (q + 512), fd_size = of_nat (length d),
      rwPos = 0, fd_flags = flags\<rparr>"
  let ?s' = "s\<lparr>tarBuf := tarBuf s, fdTable := (fdTable s)(k := ?d)\<rparr>"
  have "open_file f flags s = Inr (of_nat k + 3, ?s')"
    using tarFind_archive [OF assms(1) names(1)] tarGetSize_archive [OF assms(1) names(1)] q names(2) assms(2-4)
    by (simp add: open_file_def find_or_create_def truncate_file_def Let_def)
  moreover have "fd_on ?s' k es (length es1) 0"
    using free_slot_Some [OF assms(4)] es by (simp add: fd_on_def Let_def)
  moreover have "length es1 < length es" "es ! length es1 = (f, d)" using es(1) by simp_all
  ultimately show ?thesis by fastforce
qed

lemma open_no_slot:
  assumes "archive (tarBuf s) es" "map_of es f = Some d" "flags AND O_TRUNC = 0" "free_slot (fdTable s) = None"
  shows "open_file f flags s = Inr (- 1, s)"
proof -
  obtain q where q: "pos_of 0 es f = Some q" using assms(2) pos_of_None [of 0 es f] by auto
  then show ?thesis
    using tarFind_archive [OF assms(1) archive_names(1) [OF assms(1,2)]] assms(3,4)
    by (simp add: open_file_def find_or_create_def truncate_file_def Let_def)
qed

lemma open_missing:
  assumes "archive (tarBuf s) es" "map_of es f = None" "cstring f" "flags AND O_CREAT = 0"
  shows "open_file f flags s = Inr (- 1, s)"
proof -
  have "pos_of 0 es f = None" using assms(2) pos_of_None by blast
  then show ?thesis
    using tarFind_archive [OF assms(1,3)] assms(4) by (simp add: open_file_def find_or_create_def)
qed

text \<open>
  The bound check of \<open>read\<close> adds position and count at 32 bits: the count \<open>2 ^ 32 - rwPos\<close> passes
  it, and the copy runs out of the buffer.
\<close>

lemma read_wraps:
  assumes "archive (tarBuf s) es" "fd_on s k es j pos" "0 < pos" "pos < length (snd (es ! j))"
  shows "read_file dev polls (of_nat k + 3) (- of_nat pos) s = Inl OutOfBounds"
proof -
  let ?d = "fdTable s k" and ?f = "snd (es ! j)" and ?q = "end_of 0 (take j es) + 512"
  have on: "k < FD_MAX_FILES" "isInUse ?d \<noteq> 0" "fd_data ?d = Some ?q" "fd_size ?d = of_nat (length ?f)"
      "rwPos ?d = of_nat pos"
    using assms(2) by (simp_all add: fd_on_def Let_def)
  note bnd = fd_on_bounds [OF assms(1,2)]
  have upos: "unat (of_nat pos :: u32) = pos" "unat (of_nat (length ?f) :: u32) = length ?f"
    using assms(4) bnd(1) by (simp_all add: unat_small)
  have cl: "clip ?d (- of_nat pos) = - of_nat pos" using on(5) by (simp add: clip_def)
  have nz: "(of_nat pos :: u32) \<noteq> 0" using upos(1) assms(3) by auto
  have p: "pos < 2 ^ 30" using bnd(1) assms(4) by simp
  then have "(- of_nat pos :: u32) = of_nat (2 ^ 32 - pos)" by (simp add: of_nat_diff)
  then have "unat (- of_nat pos :: u32) = 2 ^ 32 - pos"
    using unat_small [of "2 ^ 32 - pos"] assms(3) by simp
  moreover note p
  ultimately have big: "unat (- of_nat pos :: u32) > TAR_BUF_SIZE" by simp
  have "\<not> fd_size ?d \<le> rwPos ?d" using on(4,5) upos assms(4) by (simp add: word_le_nat_alt)
  then show ?thesis
    using fd_number [OF on(1)] fd_index_slot [OF on(1)] on(2,3) cl nz big
    by (simp add: read_file_def Let_def)
qed

section \<open>Reading in pieces\<close>

text \<open>What a program gets from a list of reads.\<close>

fun rd_pieces :: "(nat \<Rightarrow> 's \<Rightarrow> 'b list \<times> 's) \<Rightarrow> nat list \<Rightarrow> 's \<Rightarrow> 'b list" where
  "rd_pieces rd [] s = []"
| "rd_pieces rd (n # ns) s = fst (rd n s) @ rd_pieces rd ns (snd (rd n s))"

text \<open>A source of bytes that is read from front to back: the pieces of any reads join up.\<close>

locale byte_source =
  fixes rd :: "nat \<Rightarrow> 's \<Rightarrow> 'b list \<times> 's"
    and rest :: "'s \<Rightarrow> 'b list"
    and inv :: "'s \<Rightarrow> bool"
    and limit :: nat
  assumes rd_data: "inv s \<Longrightarrow> n < limit \<Longrightarrow> fst (rd n s) = take n (rest s)"
    and rd_rest: "inv s \<Longrightarrow> n < limit \<Longrightarrow> rest (snd (rd n s)) = drop n (rest s)"
    and rd_inv: "inv s \<Longrightarrow> n < limit \<Longrightarrow> inv (snd (rd n s))"
begin

lemma rd_pieces_take:
  "inv s \<Longrightarrow> \<forall>n\<in>set ns. n < limit \<Longrightarrow> rd_pieces rd ns s = take (sum_list ns) (rest s)"
  by (induction ns arbitrary: s) (simp_all add: rd_data rd_rest rd_inv take_add)

end

definition rd_fd :: "device \<Rightarrow> nat list \<Rightarrow> nat \<Rightarrow> nat \<Rightarrow> 'a files_scheme \<Rightarrow> u8 list \<times> 'a files_scheme" where
  "rd_fd dev polls k n s =
     (case read_file dev polls (of_nat k + 3) (of_nat n) s of
        Inr (r, bs, s') \<Rightarrow> (bs, s')
      | Inl e \<Rightarrow> ([], s))"

definition fd_rest :: "nat \<Rightarrow> tar_file list \<Rightarrow> nat \<Rightarrow> 'a files_scheme \<Rightarrow> u8 list" where
  "fd_rest k es j s = drop (unat (rwPos (fdTable s k))) (snd (es ! j))"

definition fd_inv :: "nat \<Rightarrow> tar_file list \<Rightarrow> nat \<Rightarrow> 'a files_scheme \<Rightarrow> bool" where
  "fd_inv k es j s \<longleftrightarrow> archive (tarBuf s) es \<and> (\<exists>pos. fd_on s k es j pos)"

lemma rd_fd_step:
  assumes "fd_inv k es j s" "n < 2 ^ 31"
  shows "fst (rd_fd dev polls k n s) = take n (fd_rest k es j s)"
    "fd_rest k es j (snd (rd_fd dev polls k n s)) = drop n (fd_rest k es j s)"
    "fd_inv k es j (snd (rd_fd dev polls k n s))"
proof -
  obtain pos where on: "archive (tarBuf s) es" "fd_on s k es j pos"
    using assms(1) by (auto simp: fd_inv_def)
  let ?f = "snd (es ! j)"
  have le: "pos \<le> length ?f" "rwPos (fdTable s k) = of_nat pos" "length ?f < 2 ^ 30"
    using on(2) fd_on_bounds(1) [OF on] by (simp_all add: fd_on_def Let_def)
  have u: "unat (of_nat n :: u32) = n" using assms(2) by (simp add: unat_small)
  have pos: "unat (rwPos (fdTable s k)) = pos" using le by (simp add: unat_small)
  define m where "m = min n (length ?f - pos)"
  obtain s' where s': "read_file dev polls (of_nat k + 3) (of_nat n) s = Inr (of_nat m, take m (drop pos ?f), s')"
      "fd_on s' k es j (pos + m)" "tarBuf s' = tarBuf s"
    using read_fd_on [OF on, of "of_nat n" dev polls] assms(2) le u by (auto simp: m_def)
  have pos': "unat (rwPos (fdTable s' k)) = pos + m"
    using s'(2) le(3) by (simp add: fd_on_def Let_def unat_small del: of_nat_add)
  have "take m (drop pos ?f) = take n (drop pos ?f)" "drop (pos + m) ?f = drop n (drop pos ?f)"
    by (auto simp: m_def min_def add.commute)
  then show "fst (rd_fd dev polls k n s) = take n (fd_rest k es j s)"
    "fd_rest k es j (snd (rd_fd dev polls k n s)) = drop n (fd_rest k es j s)"
    "fd_inv k es j (snd (rd_fd dev polls k n s))"
    using s' on(1) by (auto simp: rd_fd_def fd_rest_def fd_inv_def pos pos')
qed

interpretation fd: byte_source "rd_fd dev polls k" "fd_rest k es j" "fd_inv k es j" "2 ^ 31"
  for dev polls k es j
  by unfold_locales (rule rd_fd_step, assumption, assumption)+

end
