(* ===== verification/Gdt.thy ===== *)
theory Gdt
  imports Fd
begin

text \<open>
  The global descriptor table (src/gdt.c). The addresses of \<open>gdt\<close>, \<open>tss\<close> and \<open>tss_stack_top\<close> are
  link-time symbols and parameters; the assembly that loads the registers is in Handoff.
\<close>

record GdtEntry =
  limitLow :: u16
  baseLow :: u16
  baseMiddle :: u8
  access :: u8
  granularity :: u8
  baseHigh :: u8

record Tss =
  prevTss :: u32
  tss_esp0 :: u32
  tss_ss0 :: u32
  tss_esp1 :: u32
  tss_ss1 :: u32
  tss_esp2 :: u32
  tss_ss2 :: u32
  tss_cr3 :: u32
  tss_eip :: u32
  tss_eflags :: u32
  tss_general :: "u32 list"
  tss_segments :: "u32 list"
  tss_ldt :: u32
  tss_trap :: u16
  iomapBase :: u16

abbreviation SIZEOF_TSS :: u32 where "SIZEOF_TSS \<equiv> 104"

text \<open>
  \<open>tss_general\<close> is eax to edi and \<open>tss_segments\<close> is es to gs, in the order of the struct.
\<close>

record descs = files +
  gdt :: "nat \<Rightarrow> GdtEntry"
  gdtp_limit :: u16
  gdtp_base :: u32
  tss :: Tss

definition gdt_entry :: "u32 \<Rightarrow> u32 \<Rightarrow> u8 \<Rightarrow> u8 \<Rightarrow> GdtEntry" where
  "gdt_entry base limit acc gran =
     \<lparr>limitLow = ucast (limit AND 0xFFFF), baseLow = ucast (base AND 0xFFFF),
      baseMiddle = ucast (drop_bit 16 base AND 0xFF), access = acc,
      granularity = ucast (drop_bit 16 limit AND 0x0F) OR (gran AND 0xF0),
      baseHigh = ucast (drop_bit 24 base AND 0xFF)\<rparr>"

definition setGdtGate :: "nat \<Rightarrow> u32 \<Rightarrow> u32 \<Rightarrow> u8 \<Rightarrow> u8 \<Rightarrow> 'a descs_scheme \<Rightarrow> 'a descs_scheme" where
  "setGdtGate num base limit acc gran s = s\<lparr>gdt := (gdt s)(num := gdt_entry base limit acc gran)\<rparr>"

text \<open>\<open>memset\<close> to zero.\<close>

definition zero_tss :: Tss where
  "zero_tss = \<lparr>prevTss = 0, tss_esp0 = 0, tss_ss0 = 0, tss_esp1 = 0, tss_ss1 = 0, tss_esp2 = 0,
     tss_ss2 = 0, tss_cr3 = 0, tss_eip = 0, tss_eflags = 0, tss_general = replicate 8 0,
     tss_segments = replicate 6 0, tss_ldt = 0, tss_trap = 0, iomapBase = 0\<rparr>"

definition setTssGate :: "u32 \<Rightarrow> nat \<Rightarrow> u32 \<Rightarrow> u32 \<Rightarrow> 'a descs_scheme \<Rightarrow> 'a descs_scheme" where
  "setTssGate tss_addr num esp0 ss0 s =
     (let s1 = setGdtGate num tss_addr SIZEOF_TSS 0xE9 0x00 s
      in s1\<lparr>tss := zero_tss\<lparr>tss_ss0 := ss0, tss_esp0 := esp0\<rparr>\<rparr>)"

definition initGdt :: "u32 \<Rightarrow> u32 \<Rightarrow> u32 \<Rightarrow> 'a descs_scheme \<Rightarrow> 'a descs_scheme" where
  "initGdt gdt_addr tss_addr tss_stack_top s =
     (let s1 = s\<lparr>gdtp_limit := 8 * 6 - 1, gdtp_base := gdt_addr\<rparr>;
          s2 = setGdtGate 0 0 0 0 0 s1;
          s3 = setGdtGate 1 0 0xFFFFFFFF 0x9A 0xCF s2;
          s4 = setGdtGate 2 0 0xFFFFFFFF 0x92 0xCF s3;
          s5 = setGdtGate 3 0 0xFFFFFFFF 0xFA 0xCF s4;
          s6 = setGdtGate 4 0 0xFFFFFFFF 0xF2 0xCF s5
      in setTssGate tss_addr 5 tss_stack_top 0x10 s6)"

section \<open>What the processor reads\<close>

text \<open>The processor's reading of a descriptor: base, 20 bit limit, granularity flags.\<close>

definition seg_base :: "GdtEntry \<Rightarrow> u32" where
  "seg_base e = ucast (baseLow e) OR push_bit 16 (ucast (baseMiddle e)) OR push_bit 24 (ucast (baseHigh e))"

definition seg_limit :: "GdtEntry \<Rightarrow> u32" where
  "seg_limit e = ucast (limitLow e) OR push_bit 16 (ucast (granularity e AND 0x0F))"

definition seg_flags :: "GdtEntry \<Rightarrow> u8" where
  "seg_flags e = drop_bit 4 (granularity e)"

text \<open>The last byte of the segment: the limit counts 4 KiB pages when flag bit 3 is set.\<close>

definition seg_last :: "GdtEntry \<Rightarrow> u32" where
  "seg_last e = (if bit (seg_flags e) 3 then push_bit 12 (seg_limit e) OR 0xFFF else seg_limit e)"

definition seg_dpl :: "GdtEntry \<Rightarrow> u8" where
  "seg_dpl e = drop_bit 5 (access e) AND 3"

lemma low_half: "(w AND 0xFFFF :: u32) = take_bit 16 w"
  by (simp add: take_bit_eq_mask mask_numeral)

lemma low_nibble: "(w AND 0x0F :: 'a::len word) = take_bit 4 w"
  by (simp add: take_bit_eq_mask mask_numeral)

lemma high_nibble: "(w AND 0xF0 :: u8) = push_bit 4 (drop_bit 4 w)"
proof (rule bit_word_eqI)
  fix n assume "n < LENGTH(8)"
  then have "n \<in> {0, 1, 2, 3, 4, 5, 6, 7}" by auto
  then show "bit (w AND 0xF0) n = bit (push_bit 4 (drop_bit 4 w)) n"
    by (auto simp: bit_and_iff bit_push_bit_iff bit_drop_bit_eq)
qed

text \<open>A gate holds the base it is given, the low 20 bits of the limit, and the flags.\<close>

lemma gdt_entry_read [simp]:
  "seg_base (gdt_entry base limit acc gran) = base"
  "seg_limit (gdt_entry base limit acc gran) = take_bit 20 limit"
  "seg_flags (gdt_entry base limit acc gran) = drop_bit 4 gran"
  "access (gdt_entry base limit acc gran) = acc"
proof -
  let ?e = "gdt_entry base limit acc gran"
  have e: "?e = \<lparr>limitLow = ucast limit, baseLow = ucast base, baseMiddle = ucast (drop_bit 16 base),
        access = acc, granularity = take_bit 4 (ucast (drop_bit 16 limit)) OR push_bit 4 (drop_bit 4 gran),
        baseHigh = ucast (drop_bit 24 base)\<rparr>"
    unfolding gdt_entry_def
    by (simp add: low_half low_nibble high_nibble low_byte)
       (intro conjI; rule bit_word_eqI; auto simp: bit_simps)
  show "seg_base ?e = base"
  proof (rule bit_word_eqI)
    fix n assume "n < LENGTH(32)"
    then show "bit (seg_base ?e) n = bit base n"
      unfolding e seg_base_def by (cases "n < 16"; cases "n < 24") (auto simp: bit_simps)
  qed
  show "seg_limit ?e = take_bit 20 limit"
    unfolding e seg_limit_def low_nibble by (rule bit_word_eqI) (auto simp: bit_simps)
  show "seg_flags ?e = drop_bit 4 gran"
    unfolding e seg_flags_def by (rule bit_word_eqI) (auto simp: bit_simps dest: bit_imp_le_length)
  show "access ?e = acc" by (simp add: e)
qed

text \<open>The table after \<open>initGdt\<close>: two flat ring 0 segments, two flat ring 3 segments, the TSS.\<close>

lemma initGdt_segments:
  fixes s :: "'a descs_scheme" and ga ta stk :: u32
  defines "g \<equiv> gdt (initGdt ga ta stk s)"
  shows "n \<in> {1, 2, 3, 4} \<Longrightarrow> seg_base (g n) = 0 \<and> seg_last (g n) = 0xFFFFFFFF"
    and "seg_base (g 5) = ta \<and> seg_last (g 5) = SIZEOF_TSS"
    and "map access (map g [0..<6]) = [0, 0x9A, 0x92, 0xFA, 0xF2, 0xE9]"
    and "map (seg_dpl \<circ> g) [0..<6] = [0, 0, 0, 3, 3, 3]"
proof -
  have g: "g = (gdt s)(0 := gdt_entry 0 0 0 0, 1 := gdt_entry 0 0xFFFFFFFF 0x9A 0xCF,
      2 := gdt_entry 0 0xFFFFFFFF 0x92 0xCF, 3 := gdt_entry 0 0xFFFFFFFF 0xFA 0xCF,
      4 := gdt_entry 0 0xFFFFFFFF 0xF2 0xCF, 5 := gdt_entry ta SIZEOF_TSS 0xE9 0)"
    by (simp add: g_def initGdt_def setTssGate_def setGdtGate_def Let_def)
  have last: "seg_last (gdt_entry 0 0xFFFFFFFF acc 0xCF) = 0xFFFFFFFF" for acc
    by (simp add: seg_last_def)
  show "n \<in> {1, 2, 3, 4} \<Longrightarrow> seg_base (g n) = 0 \<and> seg_last (g n) = 0xFFFFFFFF"
    using last by (auto simp: g)
  show "seg_base (g 5) = ta \<and> seg_last (g 5) = SIZEOF_TSS"
    by (simp add: g seg_last_def)
  show "map access (map g [0..<6]) = [0, 0x9A, 0x92, 0xFA, 0xF2, 0xE9]"
    by (simp add: g upt_rec)
  show "map (seg_dpl \<circ> g) [0..<6] = [0, 0, 0, 3, 3, 3]"
    by (simp add: g seg_dpl_def upt_rec)
qed

text \<open>
  The I/O map base is 0, inside the segment: the processor takes the zeroed bytes of the TSS itself
  as permission bits.
\<close>

lemma initGdt_tss:
  "iomapBase (tss (initGdt ga ta stk s)) = 0"
  "tss_ss0 (tss (initGdt ga ta stk s)) = 0x10" "tss_esp0 (tss (initGdt ga ta stk s)) = stk"
  by (simp_all add: initGdt_def setTssGate_def Let_def zero_tss_def)

end
