(* ===== verification/Idt.thy ===== *)
theory Idt
  imports Gdt
begin

text \<open>
  Interrupts (src/idt.c): the interrupt descriptor table, the PIC and the timer, the panic screen
  and the dispatcher of the interrupt stubs. The addresses of the assembly stubs are link-time
  symbols, the parameter \<open>addr\<close>. Loading the table (\<open>loadIdt\<close>) is not modelled.
\<close>

record idtEntry =
  base_lo :: u16
  sel :: u16
  always0 :: u8
  idt_flags :: u8
  base_hi :: u16

datatype stub = IsrDefault | Isr nat | Irq0 | Irq1 | Int80Handler

record traps = descs +
  idt :: "nat \<Rightarrow> idtEntry"
  idtp_limit :: u16
  idtp_base :: u32
  sysTicks :: u32

text \<open>\<open>struct Registers\<close>, as the stubs push it.\<close>

record Registers =
  r_edi :: u32
  r_esi :: u32
  r_ebp :: u32
  r_esp :: u32
  r_ebx :: u32
  r_edx :: u32
  r_ecx :: u32
  r_eax :: u32
  int_no :: u32
  err_code :: u32
  r_eip :: u32
  r_cs :: u32
  r_eflags :: u32

section \<open>The table\<close>

definition setIdtGateWithFlags :: "u8 \<Rightarrow> u32 \<Rightarrow> u8 \<Rightarrow> 'a traps_scheme \<Rightarrow> 'a traps_scheme" where
  "setIdtGateWithFlags num base flags s =
     s\<lparr>idt := (idt s)(unat num :=
       \<lparr>base_lo = ucast (base AND 0xFFFF), sel = 0x08, always0 = 0, idt_flags = flags,
        base_hi = ucast (drop_bit 16 base AND 0xFFFF)\<rparr>)\<rparr>"

definition setIdtGate :: "u8 \<Rightarrow> u32 \<Rightarrow> 'a traps_scheme \<Rightarrow> 'a traps_scheme" where
  "setIdtGate num base s =
     s\<lparr>idt := (idt s)(unat num :=
       \<lparr>base_lo = ucast (base AND 0xFFFF), sel = 0x08, always0 = 0, idt_flags = 0x8E,
        base_hi = ucast (drop_bit 16 base AND 0xFFFF)\<rparr>)\<rparr>"

text \<open>The interrupt numbers that get the stub of their own number, in the order of the code.\<close>

definition fault_vectors :: "u8 list" where
  "fault_vectors = [0, 1, 4, 5, 6, 7, 8, 10, 11, 12, 13, 14, 16, 17, 19, 21]"

definition remapPic :: "'a machine_scheme \<Rightarrow> 'a machine_scheme" where
  "remapPic s =
     fold (\<lambda>(port, val). outb port val)
       [(0x20, 0x11), (0xA0, 0x11), (0x21, 0x20), (0xA1, 0x28), (0x21, 0x04), (0xA1, 0x02),
        (0x21, 0x01), (0xA1, 0x01), (0x21, 0x0), (0xA1, 0x0)] s"

definition initIdt :: "(stub \<Rightarrow> u32) \<Rightarrow> u32 \<Rightarrow> 'a traps_scheme \<Rightarrow> 'a traps_scheme" where
  "initIdt addr idt_addr s =
     (let s1 = s\<lparr>idtp_limit := 8 * 256 - 1, idtp_base := idt_addr\<rparr>;
          s2 = for_to 256 (\<lambda>i. setIdtGate (of_nat i) (addr IsrDefault)) s1;
          s3 = fold (\<lambda>n. setIdtGate n (addr (Isr (unat n)))) fault_vectors s2;
          s4 = setIdtGate 32 (addr Irq0) s3;
          s5 = setIdtGate 33 (addr Irq1) s4;
          s6 = setIdtGate 34 (addr (Isr 34)) s5;
          s7 = setIdtGateWithFlags 0x80 (addr Int80Handler) 0xEE s6
      in remapPic s7)"

section \<open>Timer and acknowledgement\<close>

text \<open>A frequency of 0 is a division by zero.\<close>

definition initTimer :: "u32 \<Rightarrow> 'a machine_scheme \<Rightarrow> 'a machine_scheme option" where
  "initTimer frequency s =
     (if frequency = 0 then None
      else let divisor = 1193180 div frequency
           in Some (outb 0x40 (ucast (drop_bit 8 divisor AND 0xFF))
                (outb 0x40 (ucast (divisor AND 0xFF)) (outb 0x43 0x36 s))))"

definition irqHandler :: "Registers \<Rightarrow> 'a traps_scheme \<Rightarrow> 'a traps_scheme" where
  "irqHandler r s =
     (let s1 = (if int_no r \<ge> 40 then outb 0xA0 0x20 s else s);
          s2 = outb 0x20 0x20 s1
      in if int_no r = 32 then s2\<lparr>sysTicks := sysTicks s2 + 1\<rparr> else s2)"

section \<open>The panic screen\<close>

type_synonym line = "string \<times> fmt_arg list"

fun print_lines :: "line list \<Rightarrow> 'a console_scheme \<Rightarrow> fault + 'a console_scheme" where
  "print_lines [] s = Inr s"
| "print_lines (l # ls) s = bindR (fmtWrite (bytes (fst l)) (snd l) s) (print_lines ls)"

text \<open>The lines of the \<open>switch\<close>; \<open>cr2\<close> is the register the page fault case reads.\<close>

definition fault_name :: "u32 \<Rightarrow> u32 \<Rightarrow> line list" where
  "fault_name n cr2 =
     (if n = 0 then [(''Division Error (#DE)'', [])]
      else if n = 1 then [(''Debug Exception (#DB)'', [])]
      else if n = 4 then [(''Overflow (#OF)'', [])]
      else if n = 5 then [(''BOUND Range Exceeded (#BR)'', [])]
      else if n = 6 then [(''Invalid Opcode (#UD)'', [])]
      else if n = 7 then [(''Device Not Available (#NM)'', [])]
      else if n = 8 then [(''Double Fault (#DF)'', [])]
      else if n = 10 then [(''Invalid TSS (#TS)'', [])]
      else if n = 11 then [(''Segment Not Present (#NP)'', [])]
      else if n = 12 then [(''Stack-Segment Fault (#SS)'', [])]
      else if n = 13 then [(''General Protection Fault (#GP)'', [])]
      else if n = 14 then [(''Page Fault (#PF)'', []), (''\<newline>Address: 0x%08x'', [ArgInt cr2])]
      else if n = 16 then [(''x87 Floating-Point Exception (#MF)'', [])]
      else if n = 17 then [(''Alignment Check (#AC)'', [])]
      else if n = 19 then [(''SIMD Floating-Point Exception (#XM)'', [])]
      else if n = 21 then [(''Control Protection Exception (#CP)'', [])]
      else if n = 34 then [(''User-thrown Exception'', [])]
      else [(''Unknown Exception #%d'', [ArgInt n])])"

definition panic_lines :: "u32 \<Rightarrow> Registers \<Rightarrow> line list" where
  "panic_lines cr2 r =
     [(''--- KERNEL PANIC!!! ---\<newline>\<newline>'', [])] @ fault_name (int_no r) cr2 @
     [(''\<newline>\<newline>INT: 0x%02x (%d)  ERR: 0x%x\<newline>'', [ArgInt (int_no r), ArgInt (int_no r), ArgInt (err_code r)]),
      (''\<newline>EIP: 0x%08x  CS: 0x%08x\<newline>'', [ArgInt (r_eip r), ArgInt (r_cs r)]),
      (''EAX: 0x%08x EBX: 0x%08x\<newline>ECX: 0x%08x EDX: 0x%08x\<newline>'',
         [ArgInt (r_eax r), ArgInt (r_ebx r), ArgInt (r_ecx r), ArgInt (r_edx r)]),
      (''EDI: 0x%08x ESI: 0x%08x\<newline>EBP: 0x%08x ESP: 0x%08x\<newline>'',
         [ArgInt (r_edi r), ArgInt (r_esi r), ArgInt (r_ebp r), ArgInt (r_esp r)]),
      (''\<newline>\<newline>System Halted.'', [])]"

text \<open>\<open>isr_fault\<close> is \<open>fault\<close>. The result is the state in which \<open>halt\<close> stops the machine.\<close>

definition isr_fault :: "u32 \<Rightarrow> Registers \<Rightarrow> 'a console_scheme \<Rightarrow> fault + 'a console_scheme" where
  "isr_fault cr2 r s =
     (let s1 = clearScreen (s\<lparr>COLOR := vgaColor WHITE BLUE\<rparr>)
      in bindR (print_lines (panic_lines cr2 r) s1)
           (\<lambda>s2. let s3 = s2\<lparr>vram := (vram s2)(3998 := 0x46, 3999 := 0x4F)\<rparr>
                 in Inr (disableCursor s3)))"

section \<open>The dispatcher\<close>

datatype 'a after = Returned 'a | Halted 'a

definition interruptDispatcher ::
  "device \<Rightarrow> u32 \<Rightarrow> Registers \<Rightarrow> 'a traps_scheme \<Rightarrow> fault + 'a traps_scheme after" where
  "interruptDispatcher dev cr2 r s =
     (if int_no r = 0xFF then
        (let s1 = (if int_no r \<ge> 40 then outb 0xA0 0x20 s else s) in Inr (Returned (outb 0x20 0x20 s1)))
      else if int_no r \<ge> 32 \<and> int_no r < 48 \<and> int_no r \<noteq> 34 then
        (if int_no r = 33 then Inr (Returned (keyboardHandler dev s)) else Inr (Returned (irqHandler r s)))
      else bindR (isr_fault cr2 r s) (\<lambda>t. Inr (Halted t)))"

section \<open>The table after initIdt\<close>

definition gate_addr :: "idtEntry \<Rightarrow> u32" where
  "gate_addr e = ucast (base_lo e) OR push_bit 16 (ucast (base_hi e))"

definition gate_dpl :: "idtEntry \<Rightarrow> u8" where
  "gate_dpl e = drop_bit 5 (idt_flags e) AND 3"

text \<open>The stub an interrupt number is meant to reach.\<close>

definition stub_of :: "u8 \<Rightarrow> stub" where
  "stub_of n =
     (if n = 0x80 then Int80Handler else if n = 34 then Isr 34 else if n = 33 then Irq1
      else if n = 32 then Irq0 else if n \<in> set fault_vectors then Isr (unat n) else IsrDefault)"

definition gate :: "u32 \<Rightarrow> u8 \<Rightarrow> idtEntry" where
  "gate base flags = \<lparr>base_lo = ucast (base AND 0xFFFF), sel = 0x08, always0 = 0, idt_flags = flags,
     base_hi = ucast (drop_bit 16 base AND 0xFFFF)\<rparr>"

lemma gate_read [simp]: "gate_addr (gate base flags) = base" "idt_flags (gate base flags) = flags"
  "sel (gate base flags) = 0x08" "always0 (gate base flags) = 0"
proof -
  have "base_lo (gate base flags) = ucast base" "base_hi (gate base flags) = ucast (drop_bit 16 base)"
    unfolding gate_def low_half by (simp_all add: unsigned_take_bit_eq take_bit_word_eq_self)
  then show "gate_addr (gate base flags) = base"
    unfolding gate_addr_def by simp (rule bit_word_eqI, auto simp: bit_simps)
qed (simp_all add: gate_def)

lemma idt_setIdtGate [simp]:
  "idt (setIdtGate n base s) (unat m) = (if m = n then gate base 0x8E else idt s (unat m))"
  "idt (setIdtGateWithFlags n base flags s) (unat m) = (if m = n then gate base flags else idt s (unat m))"
  by (auto simp: setIdtGate_def setIdtGateWithFlags_def gate_def unsigned_word_eqI)

lemma idt_remapPic [simp]: "idt (remapPic s) = idt s"
  by (simp add: remapPic_def port_io_shape)

lemma idt_fold_gates:
  "idt (fold (\<lambda>n. setIdtGate n (a n)) ns s) (unat m) =
     (if m \<in> set ns then gate (a m) 0x8E else idt s (unat m))"
  by (induction ns arbitrary: s) (auto simp: unsigned_word_eqI)

lemma initIdt_gates:
  fixes m :: u8 and s :: "'a traps_scheme"
  shows "idt (initIdt addr ia s) (unat m) = gate (addr (stub_of m)) (if m = 0x80 then 0xEE else 0x8E)"
proof -
  have all: "for_to 256 (\<lambda>i. setIdtGate (of_nat i) a) t = fold (\<lambda>n. setIdtGate n a) (map of_nat [0..<256]) t"
    for a and t :: "'a traps_scheme" by (simp add: fold_map o_def)
  have "m = of_nat (unat m)" "unat m < 256" using unsigned_less [of m] by simp_all
  then have "m \<in> set (map of_nat [0..<256])" by (metis atLeastLessThan_iff image_eqI list.set_map set_upt zero_le)
  then show ?thesis
    unfolding initIdt_def Let_def all
    by (simp add: idt_fold_gates stub_of_def del: set_map set_upt)
qed

text \<open>Only the system call can be raised from ring 3.\<close>

lemma initIdt_dpl:
  "gate_dpl (idt (initIdt addr ia s) (unat (m :: u8))) = (if m = 0x80 then 3 else 0)"
  by (simp add: initIdt_gates gate_dpl_def)

section \<open>Timer\<close>

lemma initTimer_bytes:
  assumes "19 \<le> unat f"
  shows "\<exists>lo hi. initTimer f s = Some (outb 0x40 hi (outb 0x40 lo (outb 0x43 0x36 s))) \<and>
    unat lo + 256 * unat hi = 1193180 div unat f"
proof -
  define d where "d = (1193180 :: u32) div f"
  have d: "unat d = 1193180 div unat f" by (simp add: d_def unat_div)
  have "1193180 div unat f \<le> 1193180 div 19" using assms by (rule div_le_mono2 [OF zero_less_numeral])
  then have small: "unat d < 2 ^ 16" using d by simp
  let ?lo = "ucast d :: u8" and ?hi = "ucast (drop_bit 8 d) :: u8"
  have "unat ?lo = unat d mod 256" by (simp add: unsigned_ucast_eq take_bit_eq_mod)
  moreover have "unat ?hi = unat d div 256"
    using small by (simp add: unsigned_ucast_eq take_bit_eq_mod unsigned_drop_bit_eq drop_bit_eq_div unat_div)
  ultimately have "unat ?lo + 256 * unat ?hi = unat d" by simp
  moreover have "f \<noteq> 0" using assms by auto
  ultimately show ?thesis using d by (auto simp: initTimer_def Let_def d_def)
qed

section \<open>Interrupt requests\<close>

lemma eoi_outb: "eoi_count (trace (outb p v s)) = (if p = 0x20 \<and> v = 0x20 then 1 else 0) + eoi_count (trace s)"
  by (simp add: eoi_count_def port_io_shape)

lemma trace_sysTicks [simp]: "trace (s\<lparr>sysTicks := x\<rparr>) = trace s" for s :: "'a traps_scheme"
  by simp

text \<open>Every interrupt request is acknowledged exactly once, and returns.\<close>

lemma dispatch_irq:
  assumes "int_no r = 0xFF \<or> 32 \<le> int_no r \<and> int_no r < 48 \<and> int_no r \<noteq> 34"
  shows "\<exists>t. interruptDispatcher dev cr2 r s = Inr (Returned t) \<and>
    eoi_count (trace t) = Suc (eoi_count (trace s))"
proof (cases "int_no r = 33")
  case True
  then show ?thesis using eoi_keyboardHandler [of dev s] by (simp add: interruptDispatcher_def)
next
  case False
  then show ?thesis
    using assms by (auto simp: interruptDispatcher_def irqHandler_def Let_def eoi_outb)
qed

lemma dispatch_ticks:
  assumes "interruptDispatcher dev cr2 r s = Inr (Returned t)" "int_no r \<noteq> 33"
  shows "sysTicks t = sysTicks s + (if int_no r = 32 then 1 else 0)"
  using assms
  by (cases "int_no r = 32")
    (auto simp: interruptDispatcher_def irqHandler_def Let_def port_io_shape bindR_Inr_iff split: if_splits)

text \<open>Every other number stops the machine on the panic screen.\<close>

lemma dispatch_fault:
  assumes "int_no r < 32 \<or> int_no r \<ge> 48 \<and> int_no r \<noteq> 0xFF \<or> int_no r = 34"
  shows "interruptDispatcher dev cr2 r s = bindR (isr_fault cr2 r s) (\<lambda>t. Inr (Halted t))"
  using assms by (auto simp: interruptDispatcher_def)

section \<open>The panic screen is printed\<close>

definition line_text :: "line \<Rightarrow> u8 list" where
  "line_text l = (case vsfmtWrite (bytes (fst l)) (snd l) of Inr out \<Rightarrow> out | Inl e \<Rightarrow> [])"

definition line_ok :: "line \<Rightarrow> bool" where
  "line_ok l \<longleftrightarrow> (\<exists>out. vsfmtWrite (bytes (fst l)) (snd l) = Inr out \<and> length out < 256 \<and> cstring out)"

lemma print_lines_ok:
  "list_all line_ok ls \<Longrightarrow> print_lines ls s = Inr (writeStr (concat (map line_text ls)) s)"
proof (induction ls arbitrary: s)
  case (Cons l ls s)
  then obtain out where out: "vsfmtWrite (bytes (fst l)) (snd l) = Inr out" "length out < 256" "cstring out"
    by (auto simp: line_ok_def)
  then have "line_text l = out" by (simp add: line_text_def)
  then show ?case using Cons out fmtWrite_ok [OF out(1,2), of s] by (simp add: writeStr_append)
qed simp

lemma is_digit_nonzero: "list_all is_digit xs \<Longrightarrow> cstring xs"
  by (auto simp: cstring_def list_all_iff)

lemma cstring_intToStr: "cstring (intToStr n)"
proof -
  have "cstring (rev (dec_digits m))" for m
    using is_digit_nonzero [OF dec_digits_are_digits [of m]] by (simp add: cstring_def)
  then show ?thesis by (simp add: intToStr_def)
qed

lemma cstring_hexToStr: "cstring (hexToStr n w)"
proof -
  have d: "hexChars ! k \<noteq> 0" if "k < 16" for k
  proof -
    have "list_all (\<lambda>c. c \<noteq> 0) hexChars" "length hexChars = 16" by (simp_all add: hexChars_def)
    then show ?thesis using that by (simp add: list_all_length)
  qed
  have "cstring (hex_digits m)" for m
  proof (induction m rule: hex_digits.induct)
    case (1 m)
    then show ?case by (cases "m > 0") (simp_all add: hex_digits_step d)
  qed
  then have "cstring (hex_text n)" by (auto simp: hex_text_def cstring_def)
  then show ?thesis by (auto simp: hexToStr_eq cstring_def)
qed

lemma hexToStr_short: "length (hexToStr n w) \<le> 8"
  using hex_text_length(1) [of n] by (simp add: hexToStr_length)

text \<open>The conversions of the panic screen.\<close>

lemma vsfmtWrite_zero_x:
  "vsfmtWrite (37 # 48 # 56 # 120 # cs) (ArgInt n # args) =
     bindR (vsfmtWrite cs args) (\<lambda>out. Inr (hexToStr n 8 @ out))"
  "vsfmtWrite (37 # 48 # 50 # 120 # cs) (ArgInt n # args) =
     bindR (vsfmtWrite cs args) (\<lambda>out. Inr (hexToStr n 2 @ out))"
  by (simp_all add: vsfmtWrite.simps(2) conversion_def is_digit_def)

lemmas panic_text = line_ok_def vsfmtWrite_eqs vsfmtWrite_zero_x cstring_intToStr cstring_hexToStr

lemma fault_name_ok: "list_all line_ok (fault_name n cr2)"
  using hexToStr_short [of cr2 8] intToStr_length [of n]
  by (auto simp: fault_name_def panic_text)

lemma panic_lines_ok: "list_all line_ok (panic_lines cr2 r)"
  using hexToStr_short [of "int_no r" 2] intToStr_length [of "int_no r"] hexToStr_short [of "err_code r" 0]
    hexToStr_short [of "r_eip r" 8] hexToStr_short [of "r_cs r" 8]
    hexToStr_short [of "r_eax r" 8] hexToStr_short [of "r_ebx r" 8]
    hexToStr_short [of "r_ecx r" 8] hexToStr_short [of "r_edx r" 8]
    hexToStr_short [of "r_edi r" 8] hexToStr_short [of "r_esi r" 8]
    hexToStr_short [of "r_ebp r" 8] hexToStr_short [of "r_esp r" 8] fault_name_ok [of "int_no r" cr2]
  by (simp add: panic_lines_def panic_text)

definition panic_message :: "u32 \<Rightarrow> Registers \<Rightarrow> u8 list" where
  "panic_message cr2 r = concat (map line_text (panic_lines cr2 r))"

lemma isr_fault_prints:
  "isr_fault cr2 r s =
     (let s2 = writeStr (panic_message cr2 r) (clearScreen (s\<lparr>COLOR := 0x1F\<rparr>))
      in Inr (disableCursor (s2\<lparr>vram := (vram s2)(3998 := 0x46, 3999 := 0x4F)\<rparr>)))"
  by (simp add: isr_fault_def Let_def vgaColor_def panic_message_def print_lines_ok [OF panic_lines_ok])

text \<open>What the terminal shows: the message, typed on an empty blue screen, but for the last cell.\<close>

lemma cstring_concat: "list_all (\<lambda>l. cstring (f l)) ls \<Longrightarrow> cstring (concat (map f ls))"
  by (induction ls) auto

lemma cstring_panic_message: "cstring (panic_message cr2 r)"
proof -
  have "list_all (\<lambda>l. cstring (line_text l)) (panic_lines cr2 r)"
    using panic_lines_ok [of cr2 r] by (auto simp: list_all_iff line_ok_def line_text_def)
  then show ?thesis unfolding panic_message_def by (rule cstring_concat)
qed

lemma isr_fault_screen:
  fixes s :: "'a console_scheme"
  shows "\<exists>t. isr_fault cr2 r s = Inr t \<and> vram t 3998 = 0x46 \<and> vram t 3999 = 0x4F \<and>
     (\<exists>u :: 'a console_scheme. term_view u = fold (term_put 0x1F) (panic_message cr2 r) (term_view (clearScreen (s\<lparr>COLOR := 0x1F\<rparr>)))
        \<and> (\<forall>a. a \<noteq> 3998 \<and> a \<noteq> 3999 \<longrightarrow> vram t a = vram u a))"
proof -
  let ?c = "clearScreen (s\<lparr>COLOR := 0x1F\<rparr>)"
  let ?u = "writeStr (panic_message cr2 r) ?c"
  have "term_view ?u = fold (term_put (COLOR ?c)) (panic_message cr2 r) (term_view ?c)"
    by (rule view_writeStr [OF clearScreen_keeps cstring_panic_message])
  moreover have "COLOR ?c = 0x1F" by (simp add: clearScreen_def moveCursor_def port_io_shape Let_def)
  ultimately have v: "term_view ?u = fold (term_put 0x1F) (panic_message cr2 r) (term_view ?c)" by simp
  let ?t = "disableCursor (?u\<lparr>vram := (vram ?u)(3998 := 0x46, 3999 := 0x4F)\<rparr>)"
  have "isr_fault cr2 r s = Inr ?t" by (simp add: isr_fault_prints Let_def)
  moreover have "vram ?t = (vram ?u)(3998 := 0x46, 3999 := 0x4F)"
    by (simp add: disableCursor_def port_io_shape)
  ultimately show ?thesis using v by (intro exI [where x = ?t] conjI exI [where x = ?u]) simp_all
qed

end
