(* ===== verification/Kmem.thy ===== *)
theory Kmem
  imports Lantern_Prelude
begin

text \<open>
  The kernel heap (src/mem.c): \<open>kbrk\<close> moves the end of a one MiB area. The address of the area is
  a link-time symbol, the parameter \<open>heap_memory\<close>; \<open>heap_brk\<close> is the state.
\<close>

abbreviation HEAP_SIZE :: u32 where "HEAP_SIZE \<equiv> 0x100000"

definition kbrk :: "u32 \<Rightarrow> u32 \<Rightarrow> u32 \<Rightarrow> u32 \<times> u32" where
  "kbrk heap_memory increment heap_brk =
     (if increment = 0 then (heap_brk, heap_brk)
      else if heap_brk + increment > heap_memory + HEAP_SIZE then (- 1, heap_brk)
      else (heap_brk, heap_brk + increment))"

section \<open>Blocks\<close>

definition heap_ok :: "u32 \<Rightarrow> u32 \<Rightarrow> bool" where
  "heap_ok base brk \<longleftrightarrow> unat base + 0x100000 < 2 ^ 31 \<and> unat base \<le> unat brk \<and>
     unat brk \<le> unat base + 0x100000"

lemma heap_limit: "heap_ok base brk \<Longrightarrow> unat (base + HEAP_SIZE) = unat base + 0x100000"
  by (simp add: heap_ok_def unat_word_ariths)

lemma kbrk_spec:
  assumes "heap_ok base brk" "unat n < 2 ^ 31"
  shows "kbrk base n brk =
    (if unat brk + unat n \<le> unat base + 0x100000 then (brk, brk + n) else (- 1, brk))"
    and "heap_ok base (snd (kbrk base n brk))"
    and "unat brk + unat n \<le> unat base + 0x100000 \<Longrightarrow> unat (brk + n) = unat brk + unat n"
proof -
  have s: "unat (brk + n) = unat brk + unat n"
    using assms by (simp add: heap_ok_def unat_word_ariths)
  have k: "kbrk base n brk = (if unat brk + unat n \<le> unat base + 0x100000 then (brk, brk + n) else (- 1, brk))"
    using heap_limit [OF assms(1)] s assms(1)
    by (auto simp: kbrk_def word_less_nat_alt heap_ok_def)
  then show "kbrk base n brk =
    (if unat brk + unat n \<le> unat base + 0x100000 then (brk, brk + n) else (- 1, brk))" .
  show "heap_ok base (snd (kbrk base n brk))"
    using k s assms(1) by (auto simp: heap_ok_def)
  show "unat (brk + n) = unat brk + unat n" by (rule s)
qed

text \<open>A program of \<open>sbrk\<close> calls, and the blocks it is given.\<close>

fun kbrk_blocks :: "u32 \<Rightarrow> u32 list \<Rightarrow> u32 \<Rightarrow> (nat \<times> nat) list" where
  "kbrk_blocks base [] brk = []"
| "kbrk_blocks base (n # ns) brk =
     (let (p, brk') = kbrk base n brk
      in if p = - 1 then kbrk_blocks base ns brk'
         else (unat p, unat n) # kbrk_blocks base ns brk')"

lemma kbrk_blocks_spec:
  assumes "heap_ok base brk" "\<forall>n\<in>set ns. unat n < 2 ^ 31"
  shows "sorted_wrt (\<lambda>(a, n) (b, m). a + n \<le> b) (kbrk_blocks base ns brk) \<and>
    (\<forall>(a, n)\<in>set (kbrk_blocks base ns brk). unat brk \<le> a \<and> a + n \<le> unat base + 0x100000)"
  using assms
proof (induction ns arbitrary: brk)
  case (Cons n ns)
  have n: "unat n < 2 ^ 31" using Cons.prems(2) by simp
  note k = kbrk_spec [OF Cons.prems(1) n]
  show ?case
  proof (cases "unat brk + unat n \<le> unat base + 0x100000")
    case True
    have "brk \<noteq> - 1"
    proof
      assume "brk = - 1"
      then have "unat brk = 2 ^ 32 - 1" by (simp add: unsigned_minus_1_eq_mask mask_eq_exp_minus_1)
      then show False using Cons.prems(1) by (auto simp: heap_ok_def)
    qed
    moreover have "heap_ok base (brk + n)" using k(1,2) True by simp
    note IH = Cons.IH [OF this]
    ultimately show ?thesis
      using True k(1) k(3) [OF True] Cons.prems(2) IH by fastforce
  next
    case False
    then show ?thesis using k(1) Cons.prems Cons.IH [of brk] by simp
  qed
qed simp

text \<open>A negative increment is not checked against the start of the area.\<close>

lemma kbrk_below: "0 < unat base \<Longrightarrow> unat base + 0x100000 < 2 ^ 31 \<Longrightarrow> kbrk base (- 1) base = (base, base - 1)"
proof -
  assume b: "0 < unat base" "unat base + 0x100000 < 2 ^ 31"
  have "unat (base + HEAP_SIZE) = unat base + 0x100000" using b(2) by (simp add: unat_word_ariths)
  moreover have "unat (base - 1) = unat base - 1" using b(1) by (metis unat_minus_one unat_0 less_irrefl)
  ultimately show ?thesis by (simp add: kbrk_def word_less_nat_alt)
qed

end
