(* ===== verification/Syscalls.thy ===== *)
theory Syscalls
  imports Idt Kmem
begin

text \<open>
  System calls: the line-buffered standard input, the handlers and the dispatcher of
  src/syscalls.c, the entry stub src/int80.asm, and the user side of apps/user_syscalls.c.
  User memory is the map \<open>umem\<close>; buffers and strings passed by a program lie in it, apart from the
  kernel's own arrays. Constants and layouts of picolibc are the parameter \<open>libc\<close>.
\<close>

abbreviation STDIN_BUF_LEN :: nat where "STDIN_BUF_LEN \<equiv> 256"

record proc = traps +
  umem :: "u32 \<Rightarrow> u8"
  heap_brk :: u32
  stdinBuf :: "nat \<Rightarrow> u8"
  stdinBufLen :: u32
  stdinBufPos :: u32
  stdinLineReady :: u32
  errnum :: u32

text \<open>The error numbers the code uses, and the bytes of the \<open>struct stat\<close> that \<open>fstat\<close> fills in.\<close>

record libc =
  ENOSYS :: u32
  ESPIPE :: u32
  ENOMEM :: u32
  stat_image :: "u8 list"

record InterruptFrame =
  f_ebx :: u32
  f_ecx :: u32
  f_edx :: u32
  f_esi :: u32
  f_edi :: u32
  f_ebp :: u32
  f_eax :: u32
  f_xds :: u32
  f_xes :: u32
  f_xfs :: u32
  f_xgs :: u32
  orig_eax :: u32

section \<open>Standard input\<close>

text \<open>
  \<open>polls\<close> is the schedule of keyboard interrupts before each poll, as for \<open>fmtGet\<close>. \<open>pos\<close> is not
  compared with the size of the buffer: a store at 256 leaves it.
\<close>

fun readStdin_loop ::
  "device \<Rightarrow> nat list \<Rightarrow> nat \<Rightarrow> 'a proc_scheme \<Rightarrow> fault + nat \<times> 'a proc_scheme" where
  "readStdin_loop dev [] pos s = Inl Blocked"
| "readStdin_loop dev (n # polls) pos s =
     (let (c, s1) = getInput (interrupts dev n s)
      in if c = 0 then readStdin_loop dev polls pos s1
         else if c = asc CHR ''\<newline>'' \<or> c = 13 then
           (if pos < STDIN_BUF_LEN
            then Inr (pos + 1, writeChar (asc CHR ''\<newline>'') (s1\<lparr>stdinBuf := (stdinBuf s1)(pos := asc CHR ''\<newline>'')\<rparr>))
            else Inl OutOfBounds)
         else if c = 8 then
           (if pos > 0 then readStdin_loop dev polls (pos - 1) (writeChar 8 s1)
            else readStdin_loop dev polls pos s1)
         else if pos < STDIN_BUF_LEN
           then readStdin_loop dev polls (pos + 1) (writeChar c (s1\<lparr>stdinBuf := (stdinBuf s1)(pos := c)\<rparr>))
         else Inl OutOfBounds)"

definition readStdinLine :: "device \<Rightarrow> nat list \<Rightarrow> 'a proc_scheme \<Rightarrow> fault + 'a proc_scheme" where
  "readStdinLine dev polls s =
     bindR (readStdin_loop dev polls 0 s)
       (\<lambda>(pos, s1).
          if pos < STDIN_BUF_LEN
          then Inr (s1\<lparr>stdinLineReady := 1, stdinBufLen := of_nat pos,
                       stdinBuf := (stdinBuf s1)(pos := 0), stdinBufPos := 0\<rparr>)
          else Inl OutOfBounds)"

definition stdout_put :: "u8 \<Rightarrow> 'a console_scheme \<Rightarrow> u32 \<times> 'a console_scheme" where
  "stdout_put c s = (0, writeChar c s)"

text \<open>\<open>kread_impl\<close> returns the bytes it stores at \<open>buf\<close>.\<close>

definition stdin_bytes :: "u32 \<Rightarrow> 'a proc_scheme \<Rightarrow> u8 list" where
  "stdin_bytes n s = map (\<lambda>i. stdinBuf s (unat (stdinBufPos s) + i)) [0..<unat n]"

definition copy_count :: "u32 \<Rightarrow> 'a proc_scheme \<Rightarrow> u32" where
  "copy_count count s =
     (let actualCount = stdinBufLen s - stdinBufPos s
      in if count > actualCount then actualCount else count)"

definition stdin_advance :: "u32 \<Rightarrow> 'a proc_scheme \<Rightarrow> 'a proc_scheme" where
  "stdin_advance n s =
     (let s1 = s\<lparr>stdinBufPos := stdinBufPos s + n\<rparr>
      in if stdinBufPos s1 \<ge> stdinBufLen s1 then s1\<lparr>stdinLineReady := 0\<rparr> else s1)"

definition kread_impl ::
  "device \<Rightarrow> nat list \<Rightarrow> u32 \<Rightarrow> u32 \<Rightarrow> 'a proc_scheme \<Rightarrow> fault + u32 \<times> u8 list \<times> 'a proc_scheme" where
  "kread_impl dev polls fd count s =
     (if fd = 0 then
        bindR (if stdinLineReady s = 0 then readStdinLine dev polls s else Inr s)
          (\<lambda>s1. let copyCount = copy_count count s1
                in if unat (stdinBufPos s1) + unat copyCount \<le> STDIN_BUF_LEN
                   then Inr (copyCount, stdin_bytes copyCount s1, stdin_advance copyCount s1)
                   else Inl OutOfBounds)
      else read_file dev polls fd count s)"

text \<open>\<open>__stdin_get\<close>; \<open>None\<close> is \<open>EOF\<close>.\<close>

definition stdin_get :: "device \<Rightarrow> nat list \<Rightarrow> 'a proc_scheme \<Rightarrow> fault + u8 option \<times> 'a proc_scheme" where
  "stdin_get dev polls s =
     bindR (kread_impl dev polls 0 1 s)
       (\<lambda>(n, bs, s1). Inr (if n = 1 then Some (hd bs) else None, s1))"

section \<open>User memory\<close>

definition umem_bytes :: "(u32 \<Rightarrow> u8) \<Rightarrow> u32 \<Rightarrow> nat \<Rightarrow> u8 list" where
  "umem_bytes m p n = map (\<lambda>i. m (p + of_nat i)) [0..<n]"

fun umem_store :: "(u32 \<Rightarrow> u8) \<Rightarrow> u32 \<Rightarrow> u8 list \<Rightarrow> (u32 \<Rightarrow> u8)" where
  "umem_store m p [] = m"
| "umem_store m p (c # cs) = umem_store (m(p := c)) (p + 1) cs"

text \<open>A C string in user memory; \<open>None\<close> when no NUL ends it.\<close>

partial_function (option) umem_string :: "(u32 \<Rightarrow> u8) \<Rightarrow> u32 \<Rightarrow> u8 list option" where
  "umem_string m p =
     (if m p = 0 then Some [] else Option.bind (umem_string m (p + 1)) (\<lambda>cs. Some (m p # cs)))"

section \<open>The handlers\<close>

text \<open>
  A handler returns its result and the state. The result \<open>None\<close> is \<open>exit\<close>: it enters a shell that
  does not return.
\<close>

type_synonym 'a handled = "fault + u32 option \<times> 'a"

text \<open>
  The macros \<open>SYSCALL_DEFINE0\<close> to \<open>SYSCALL_DEFINE3\<close>: the entry in the table takes the frame, and calls the
  body \<open>do_sys_...\<close> with EBX, ECX and EDX as far as the call has arguments.
\<close>

type_synonym 's handler = "InterruptFrame \<Rightarrow> 's \<Rightarrow> 's handled"

definition SYSCALL_DEFINE0 :: "('s \<Rightarrow> 's handled) \<Rightarrow> 's handler" where
  "SYSCALL_DEFINE0 body regs = body"

definition SYSCALL_DEFINE1 :: "(u32 \<Rightarrow> 's \<Rightarrow> 's handled) \<Rightarrow> 's handler" where
  "SYSCALL_DEFINE1 do_sys regs = do_sys (f_ebx regs)"

definition SYSCALL_DEFINE2 :: "(u32 \<Rightarrow> u32 \<Rightarrow> 's \<Rightarrow> 's handled) \<Rightarrow> 's handler" where
  "SYSCALL_DEFINE2 do_sys regs = do_sys (f_ebx regs) (f_ecx regs)"

definition SYSCALL_DEFINE3 :: "(u32 \<Rightarrow> u32 \<Rightarrow> u32 \<Rightarrow> 's \<Rightarrow> 's handled) \<Rightarrow> 's handler" where
  "SYSCALL_DEFINE3 do_sys regs = do_sys (f_ebx regs) (f_ecx regs) (f_edx regs)"

lemmas syscall_macros = SYSCALL_DEFINE0_def SYSCALL_DEFINE1_def SYSCALL_DEFINE2_def SYSCALL_DEFINE3_def

definition sys_open :: "'a proc_scheme handler" where
  "sys_open = SYSCALL_DEFINE3 (\<lambda>path flags mode s.
     case umem_string (umem s) path of
       None \<Rightarrow> Inl Diverges
     | Some name \<Rightarrow> bindR (open_file name flags s) (\<lambda>(r, s1). Inr (Some r, s1)))"

definition sys_close :: "device \<Rightarrow> 'a proc_scheme handler" where
  "sys_close dev = SYSCALL_DEFINE1 (\<lambda>fd s.
     let (r, s1) = close_file dev fd s in Inr (Some r, s1))"

definition sys_read :: "device \<Rightarrow> nat list \<Rightarrow> 'a proc_scheme handler" where
  "sys_read dev polls = SYSCALL_DEFINE3 (\<lambda>fd buf count s.
     bindR (kread_impl dev polls fd count s)
       (\<lambda>(r, bs, s1). Inr (Some r, s1\<lparr>umem := umem_store (umem s1) buf bs\<rparr>)))"

definition sys_write :: "'a proc_scheme handler" where
  "sys_write = SYSCALL_DEFINE3 (\<lambda>fd buf count s.
     bindR (write_file fd (umem_bytes (umem s) buf (unat count)) count s) (\<lambda>(r, s1). Inr (Some r, s1)))"

definition sys_lseek :: "libc \<Rightarrow> 'a proc_scheme handler" where
  "sys_lseek lc = SYSCALL_DEFINE3 (\<lambda>fd offset whence s. Inr (Some (- 1), s\<lparr>errnum := ESPIPE lc\<rparr>))"

definition sys_fstat :: "libc \<Rightarrow> 'a proc_scheme handler" where
  "sys_fstat lc = SYSCALL_DEFINE2 (\<lambda>fd st s.
     Inr (Some 0, s\<lparr>umem := umem_store (umem s) st (stat_image lc)\<rparr>))"

definition sys_isatty :: "'a proc_scheme handler" where
  "sys_isatty = SYSCALL_DEFINE1 (\<lambda>fd s. Inr (Some (if fd = 0 \<or> fd = 1 \<or> fd = 2 then 1 else 0), s))"

definition sys_getpid :: "'a proc_scheme handler" where
  "sys_getpid = SYSCALL_DEFINE0 (\<lambda>s. Inr (Some 1, s))"

definition sys_kill :: "'a proc_scheme handler" where
  "sys_kill = SYSCALL_DEFINE2 (\<lambda>pid sig s. Inr (Some (- 1), s))"

definition sys_exit :: "'a proc_scheme handler" where
  "sys_exit = SYSCALL_DEFINE1 (\<lambda>status s. Inr (None, s))"

definition sys_sbrk :: "u32 \<Rightarrow> 'a proc_scheme handler" where
  "sys_sbrk heap = SYSCALL_DEFINE1 (\<lambda>increment s.
     let (p, brk) = kbrk heap increment (heap_brk s) in Inr (Some p, s\<lparr>heap_brk := brk\<rparr>))"

text \<open>The calls that are not implemented.\<close>

definition sys_times :: "libc \<Rightarrow> 'a proc_scheme handler" where
  "sys_times lc = SYSCALL_DEFINE1 (\<lambda>buf s. Inr (Some (- 1), s\<lparr>errnum := ENOSYS lc\<rparr>))"

definition sys_wait :: "libc \<Rightarrow> 'a proc_scheme handler" where
  "sys_wait lc = SYSCALL_DEFINE1 (\<lambda>status s. Inr (Some (- 1), s\<lparr>errnum := ENOSYS lc\<rparr>))"

definition sys_link :: "libc \<Rightarrow> 'a proc_scheme handler" where
  "sys_link lc = SYSCALL_DEFINE2 (\<lambda>old new s. Inr (Some (- 1), s\<lparr>errnum := ENOSYS lc\<rparr>))"

definition sys_unlink :: "libc \<Rightarrow> 'a proc_scheme handler" where
  "sys_unlink lc = SYSCALL_DEFINE1 (\<lambda>name s. Inr (Some (- 1), s\<lparr>errnum := ENOSYS lc\<rparr>))"

definition sys_stat :: "libc \<Rightarrow> 'a proc_scheme handler" where
  "sys_stat lc = SYSCALL_DEFINE2 (\<lambda>file st s. Inr (Some (- 1), s\<lparr>errnum := ENOSYS lc\<rparr>))"

definition sys_gettimeofday :: "libc \<Rightarrow> 'a proc_scheme handler" where
  "sys_gettimeofday lc = SYSCALL_DEFINE2 (\<lambda>tv tz s. Inr (Some (- 1), s\<lparr>errnum := ENOSYS lc\<rparr>))"

definition sys_clock :: "libc \<Rightarrow> 'a proc_scheme handler" where
  "sys_clock lc = SYSCALL_DEFINE0 (\<lambda>s. Inr (Some (- 1), s\<lparr>errnum := ENOSYS lc\<rparr>))"

text \<open>They are all the same.\<close>

definition sys_nosys :: "libc \<Rightarrow> 'a proc_scheme handler" where
  "sys_nosys lc regs s = Inr (Some (- 1), s\<lparr>errnum := ENOSYS lc\<rparr>)"

lemma nosys_handlers:
  "sys_times = sys_nosys" "sys_wait = sys_nosys" "sys_link = sys_nosys" "sys_unlink = sys_nosys"
  "sys_stat = sys_nosys" "sys_gettimeofday = sys_nosys" "sys_clock = sys_nosys"
  by (intro ext; simp add: sys_times_def sys_wait_def sys_link_def sys_unlink_def sys_stat_def sys_gettimeofday_def
      sys_clock_def sys_nosys_def syscall_macros)+

text \<open>The numbers of include/syscall_nums.h.\<close>

abbreviation (input) SYS_open :: u32 where "SYS_open \<equiv> 0"
abbreviation (input) SYS_close :: u32 where "SYS_close \<equiv> 1"
abbreviation (input) SYS_read :: u32 where "SYS_read \<equiv> 2"
abbreviation (input) SYS_write :: u32 where "SYS_write \<equiv> 3"
abbreviation (input) SYS_lseek :: u32 where "SYS_lseek \<equiv> 4"
abbreviation (input) SYS_fstat :: u32 where "SYS_fstat \<equiv> 5"
abbreviation (input) SYS_isatty :: u32 where "SYS_isatty \<equiv> 6"
abbreviation (input) SYS_getpid :: u32 where "SYS_getpid \<equiv> 7"
abbreviation (input) SYS_kill :: u32 where "SYS_kill \<equiv> 8"
abbreviation (input) SYS_exit :: u32 where "SYS_exit \<equiv> 9"
abbreviation (input) SYS_sbrk :: u32 where "SYS_sbrk \<equiv> 10"
abbreviation (input) SYS_times :: u32 where "SYS_times \<equiv> 11"
abbreviation (input) SYS_wait :: u32 where "SYS_wait \<equiv> 12"
abbreviation (input) SYS_link :: u32 where "SYS_link \<equiv> 13"
abbreviation (input) SYS_unlink :: u32 where "SYS_unlink \<equiv> 14"
abbreviation (input) SYS_stat :: u32 where "SYS_stat \<equiv> 15"
abbreviation (input) SYS_gettimeofday :: u32 where "SYS_gettimeofday \<equiv> 16"
abbreviation (input) SYS_clock :: u32 where "SYS_clock \<equiv> 17"

text \<open>The table, with designated initialisers; an entry that is not set is NULL. It has 18 elements.\<close>

definition syscallTable :: "libc \<Rightarrow> device \<Rightarrow> nat list \<Rightarrow> u32 \<Rightarrow> u32 \<rightharpoonup> 'a proc_scheme handler" where
  "syscallTable lc dev polls heap =
     [SYS_read \<mapsto> sys_read dev polls, SYS_write \<mapsto> sys_write, SYS_exit \<mapsto> sys_exit, SYS_sbrk \<mapsto> sys_sbrk heap,
      SYS_times \<mapsto> sys_times lc, SYS_wait \<mapsto> sys_wait lc, SYS_link \<mapsto> sys_link lc, SYS_unlink \<mapsto> sys_unlink lc,
      SYS_stat \<mapsto> sys_stat lc, SYS_gettimeofday \<mapsto> sys_gettimeofday lc, SYS_clock \<mapsto> sys_clock lc,
      SYS_open \<mapsto> sys_open, SYS_close \<mapsto> sys_close dev, SYS_fstat \<mapsto> sys_fstat lc, SYS_isatty \<mapsto> sys_isatty,
      SYS_getpid \<mapsto> sys_getpid, SYS_kill \<mapsto> sys_kill, SYS_lseek \<mapsto> sys_lseek lc]"

abbreviation SYSCALL_COUNT :: u32 where "SYSCALL_COUNT \<equiv> 18"

definition syscallDispatcher ::
  "libc \<Rightarrow> device \<Rightarrow> nat list \<Rightarrow> u32 \<Rightarrow> 'a proc_scheme handler" where
  "syscallDispatcher lc dev polls heap regs s =
     (let nr = orig_eax regs; table = syscallTable lc dev polls heap
      in if nr \<ge> SYSCALL_COUNT \<or> table nr = None then
           bindR (fmtWrite (bytes ''Unhandled syscall: %d\<newline>'') [ArgInt nr] s)
             (\<lambda>s1. Inr (Some (- ENOSYS lc), s1))
         else the (table nr) regs s)"

section \<open>The entry stub and the user side\<close>

text \<open>
  The registers of the program. \<open>int80_frame\<close> is what the pushes of \<open>int80Handler\<close> build; the pops
  after the call read every register back from the frame, EAX included.
\<close>

record uregs =
  u_eax :: u32
  u_ebx :: u32
  u_ecx :: u32
  u_edx :: u32
  u_esi :: u32
  u_edi :: u32
  u_ebp :: u32
  u_ds :: u32
  u_es :: u32
  u_fs :: u32
  u_gs :: u32

definition int80_frame :: "uregs \<Rightarrow> InterruptFrame" where
  "int80_frame u =
     \<lparr>f_ebx = u_ebx u, f_ecx = u_ecx u, f_edx = u_edx u, f_esi = u_esi u, f_edi = u_edi u,
      f_ebp = u_ebp u, f_eax = u_eax u, f_xds = u_ds u, f_xes = u_es u, f_xfs = u_fs u, f_xgs = u_gs u,
      orig_eax = u_eax u\<rparr>"

definition int80_pops :: "InterruptFrame \<Rightarrow> uregs" where
  "int80_pops f =
     \<lparr>u_eax = f_eax f, u_ebx = f_ebx f, u_ecx = f_ecx f, u_edx = f_edx f, u_esi = f_esi f,
      u_edi = f_edi f, u_ebp = f_ebp f, u_ds = f_xds f, u_es = f_xes f, u_fs = f_xfs f, u_gs = f_xgs f\<rparr>"

text \<open>
  The C function gets a pointer to the frame, which no handler writes to, and returns in EAX; the
  value in EAX is then replaced by the pops.
\<close>

definition int80Handler ::
  "(InterruptFrame \<Rightarrow> 's \<Rightarrow> fault + u32 option \<times> 's) \<Rightarrow> uregs \<Rightarrow> 's \<Rightarrow> fault + uregs option \<times> 's" where
  "int80Handler dispatch u s =
     (let frame = int80_frame u
      in bindR (dispatch frame s)
           (\<lambda>(result, s1). case result of
                              None \<Rightarrow> Inr (None, s1)
                            | Some eax \<Rightarrow> Inr (Some (int80_pops frame), s1)))"

text \<open>\<open>__syscall3\<close> loads the registers, raises the interrupt and reads EAX.\<close>

definition syscall3 ::
  "(InterruptFrame \<Rightarrow> 's \<Rightarrow> fault + u32 option \<times> 's) \<Rightarrow> uregs \<Rightarrow> u32 \<Rightarrow> u32 \<Rightarrow> u32 \<Rightarrow> u32 \<Rightarrow> 's \<Rightarrow>
     fault + u32 option \<times> 's" where
  "syscall3 dispatch u nr a1 a2 a3 s =
     bindR (int80Handler dispatch (u\<lparr>u_eax := nr, u_ebx := a1, u_ecx := a2, u_edx := a3\<rparr>) s)
       (\<lambda>(u', s1). Inr (map_option u_eax u', s1))"

definition syscall1 ::
  "(InterruptFrame \<Rightarrow> 's \<Rightarrow> fault + u32 option \<times> 's) \<Rightarrow> uregs \<Rightarrow> u32 \<Rightarrow> u32 \<Rightarrow> 's \<Rightarrow>
     fault + u32 option \<times> 's" where
  "syscall1 dispatch u nr a1 s =
     bindR (int80Handler dispatch (u\<lparr>u_eax := nr, u_ebx := a1\<rparr>) s)
       (\<lambda>(u', s1). Inr (map_option u_eax u', s1))"

text \<open>\<open>_check_ret\<close>: the value returned to the program, and the \<open>errno\<close> it sets.\<close>

definition check_ret :: "u32 \<Rightarrow> u32 \<times> u32 option" where
  "check_ret res = (if sint res < 0 then (- 1, Some (- res)) else (res, None))"

type_synonym 's dispatch = "InterruptFrame \<Rightarrow> 's \<Rightarrow> fault + u32 option \<times> 's"

definition user_read ::
  "'s dispatch \<Rightarrow> uregs \<Rightarrow> u32 \<Rightarrow> u32 \<Rightarrow> u32 \<Rightarrow> 's \<Rightarrow> fault + (u32 \<times> u32 option) option \<times> 's" where
  "user_read dispatch u fd buf count s =
     bindR (syscall3 dispatch u SYS_read fd buf count s) (\<lambda>(r, s1). Inr (map_option check_ret r, s1))"

definition user_write ::
  "'s dispatch \<Rightarrow> uregs \<Rightarrow> u32 \<Rightarrow> u32 \<Rightarrow> u32 \<Rightarrow> 's \<Rightarrow> fault + (u32 \<times> u32 option) option \<times> 's" where
  "user_write dispatch u fd buf count s =
     bindR (syscall3 dispatch u SYS_write fd buf count s) (\<lambda>(r, s1). Inr (map_option check_ret r, s1))"

definition user_exit :: "'s dispatch \<Rightarrow> uregs \<Rightarrow> u32 \<Rightarrow> 's \<Rightarrow> fault + unit option \<times> 's" where
  "user_exit dispatch u status s =
     bindR (syscall1 dispatch u SYS_exit status s) (\<lambda>(r, s1). Inr (map_option (\<lambda>_. ()) r, s1))"

definition user_sbrk ::
  "libc \<Rightarrow> 's dispatch \<Rightarrow> uregs \<Rightarrow> u32 \<Rightarrow> 's \<Rightarrow> fault + (u32 \<times> u32 option) option \<times> 's" where
  "user_sbrk lc dispatch u inc s =
     bindR (syscall1 dispatch u SYS_sbrk inc s)
       (\<lambda>(r, s1). Inr (map_option (\<lambda>res. if res = - 1 then (- 1, Some (ENOMEM lc)) else (res, None)) r, s1))"

definition user_stdout_put :: "'s dispatch \<Rightarrow> uregs \<Rightarrow> u32 \<Rightarrow> 's \<Rightarrow> fault + u32 \<times> 's" where
  "user_stdout_put dispatch u c_addr s =
     bindR (user_write dispatch u 1 c_addr 1 s) (\<lambda>(r, s1). Inr (0, s1))"

section \<open>The result of a system call is lost\<close>

text \<open>Every register comes back as it was, so EAX is the number of the call, not its result.\<close>

lemma int80_pops_frame: "int80_pops (int80_frame u) = u"
  by (simp add: int80_pops_def int80_frame_def)

lemma int80_lost:
  "int80Handler dispatch u s =
     bindR (dispatch (int80_frame u) s) (\<lambda>(r, s1). Inr (map_option (\<lambda>_. u) r, s1))"
  by (auto simp: int80Handler_def Let_def int80_pops_frame fun_eq_iff split: option.split
      intro!: arg_cong [where f = "bindR _"])

lemma syscall_number_back:
  "syscall3 dispatch u nr a b c s =
     bindR (dispatch (int80_frame (u\<lparr>u_eax := nr, u_ebx := a, u_ecx := b, u_edx := c\<rparr>)) s)
       (\<lambda>(r, s1). Inr (map_option (\<lambda>_. nr) r, s1))"
  "syscall1 dispatch u nr a s =
     bindR (dispatch (int80_frame (u\<lparr>u_eax := nr, u_ebx := a\<rparr>)) s)
       (\<lambda>(r, s1). Inr (map_option (\<lambda>_. nr) r, s1))"
  by (cases "dispatch (int80_frame (u\<lparr>u_eax := nr, u_ebx := a, u_ecx := b, u_edx := c\<rparr>)) s",
      simp_all add: syscall3_def int80_lost case_prod_beta option.map_comp o_def)
    (cases "dispatch (int80_frame (u\<lparr>u_eax := nr, u_ebx := a\<rparr>)) s",
      simp_all add: syscall1_def int80_lost case_prod_beta option.map_comp o_def)

lemma user_calls_constant:
  "user_read dispatch u fd buf n s = Inr (Some r, s1) \<Longrightarrow> r = (2, None)"
  "user_write dispatch u fd buf n s = Inr (Some r, s1) \<Longrightarrow> r = (3, None)"
  "user_sbrk lc dispatch u inc s = Inr (Some r, s1) \<Longrightarrow> r = (10, None)"
  by (auto simp: user_read_def user_write_def user_sbrk_def syscall_number_back check_ret_def
      bindR_Inr_iff case_prod_beta)

section \<open>The dispatcher\<close>

lemma dispatch_unknown:
  assumes "orig_eax regs \<ge> SYSCALL_COUNT"
  shows "syscallDispatcher lc dev polls heap regs s =
    Inr (Some (- ENOSYS lc),
      writeStr (bytes ''Unhandled syscall: '' @ intToStr (orig_eax regs) @ [10]) s)"
proof -
  have "vsfmtWrite (bytes ''Unhandled syscall: %d\<newline>'') [ArgInt (orig_eax regs)] =
      Inr (bytes ''Unhandled syscall: '' @ intToStr (orig_eax regs) @ [10])"
    by (simp add: vsfmtWrite_eqs)
  from fmtWrite_ok [OF this, of s] show ?thesis
    using assms intToStr_length [of "orig_eax regs"] by (simp add: syscallDispatcher_def Let_def)
qed

text \<open>The table has a handler for every number below the count.\<close>

lemma syscallTable_total: "nr < SYSCALL_COUNT \<Longrightarrow> syscallTable lc dev polls heap nr \<noteq> None"
proof -
  assume "nr < SYSCALL_COUNT"
  then have "unat nr \<in> set [0..<18]" by (simp add: word_less_nat_alt)
  moreover have "nr = of_nat (unat nr)" by simp
  ultimately have "nr \<in> of_nat ` set [0..<18]" by blast
  then show ?thesis by (auto simp: syscallTable_def upt_rec)
qed

lemma dispatch_known:
  "orig_eax regs = 0 \<Longrightarrow> syscallDispatcher lc dev polls heap regs s = sys_open regs s"
  "orig_eax regs = 1 \<Longrightarrow> syscallDispatcher lc dev polls heap regs s = sys_close dev regs s"
  "orig_eax regs = 2 \<Longrightarrow> syscallDispatcher lc dev polls heap regs s = sys_read dev polls regs s"
  "orig_eax regs = 3 \<Longrightarrow> syscallDispatcher lc dev polls heap regs s = sys_write regs s"
  "orig_eax regs = 9 \<Longrightarrow> syscallDispatcher lc dev polls heap regs s = sys_exit regs s"
  "orig_eax regs = 10 \<Longrightarrow> syscallDispatcher lc dev polls heap regs s = sys_sbrk heap regs s"
  by (simp_all add: syscallDispatcher_def syscallTable_def Let_def word_le_nat_alt)

section \<open>A line of standard input\<close>

lemma proc_frame [frame, simp]:
  "stdinBuf (writeChar c s) = stdinBuf s" "stdinBuf (snd (getInput s)) = stdinBuf s"
  by (simp_all add: writeChar_def moveCursor_def scroll_def put_cell_def port_io_shape Let_def getInput_def)

lemma console_view_stdin [simp]:
  "console_inv (s\<lparr>stdinBuf := b\<rparr>) = console_inv s" "keyboard_inv (s\<lparr>stdinBuf := b\<rparr>) = keyboard_inv s"
  "pending (s\<lparr>stdinBuf := b\<rparr>) = pending s" "term_view (s\<lparr>stdinBuf := b\<rparr>) = term_view s"
  by (simp_all add: console_inv_def keyboard_inv_def pending_def term_view_def)

text \<open>The reference: one key edits the line; a backspace on the empty line does nothing.\<close>

definition line_key :: "u8 \<Rightarrow> u8 list \<Rightarrow> u8 list" where
  "line_key c line = (if c = 8 then butlast line else line @ [c])"

definition line_echo :: "u8 \<Rightarrow> u8 list \<Rightarrow> u8 list" where
  "line_echo c line = (if c = 8 then (if line = [] then [] else [8]) else [c])"

fun line_echoes :: "u8 list \<Rightarrow> u8 list \<Rightarrow> u8 list" where
  "line_echoes [] line = [10]"
| "line_echoes (c # cs) line = line_echo c line @ line_echoes cs (line_key c line)"

definition stdin_prefix :: "'a proc_scheme \<Rightarrow> nat \<Rightarrow> u8 list" where
  "stdin_prefix s n = map (stdinBuf s) [0..<n]"

lemma readStdin_key:
  assumes "fst (getInput s) = c" "c \<noteq> 0" "c \<noteq> 10" "c \<noteq> 13" "stdin_prefix s (length line) = line"
    "length line < 256"
  shows "\<exists>s'. readStdin_loop dev (0 # polls) (length line) s =
      readStdin_loop dev polls (length (line_key c line)) s' \<and>
    stdin_prefix s' (length (line_key c line)) = line_key c line \<and>
    (\<exists>b. s' = fold writeChar (line_echo c line) ((snd (getInput s))\<lparr>stdinBuf := b\<rparr>))"
proof -
  let ?g = "snd (getInput s)"
  have id: "?g\<lparr>stdinBuf := stdinBuf s\<rparr> = ?g" by (simp add: getInput_def)
  consider "c = 8" "line = []" | "c = 8" "line \<noteq> []" | "c \<noteq> 8" by blast
  then show ?thesis
  proof cases
    case 1
    then show ?thesis
      using assms by (intro exI [where x = ?g] conjI exI [where x = "stdinBuf s"])
        (simp_all add: id case_prod_beta Let_def line_key_def line_echo_def stdin_prefix_def)
  next
    case 2
    have "stdin_prefix s (length line - 1) = butlast line"
      using assms(5) by (metis butlast_conv_take diff_le_self stdin_prefix_def take_map take_upt add_0 length_map length_upt min.absorb2)
    then show ?thesis
      using assms 2 by (intro exI [where x = "writeChar 8 ?g"] conjI exI [where x = "stdinBuf s"])
        (simp_all add: id case_prod_beta Let_def line_key_def line_echo_def stdin_prefix_def)
  next
    case 3
    let ?b = "(stdinBuf s)(length line := c)"
    have "map ?b [0..<Suc (length line)] = line @ [c]"
      using assms(5) by (simp add: stdin_prefix_def)
    then show ?thesis
      using assms 3 by (intro exI [where x = "writeChar c (?g\<lparr>stdinBuf := ?b\<rparr>)"] conjI exI [where x = ?b])
        (simp_all add: case_prod_beta Let_def line_key_def line_echo_def stdin_prefix_def)
  qed
qed

lemma readStdin_typed:
  assumes "keyboard_inv s" "console_inv s" "pending s = cs @ 10 # later"
    "0 \<notin> set cs" "10 \<notin> set cs" "13 \<notin> set cs" "stdin_prefix s (length line) = line"
    "length line + length cs < 255"
  shows "\<exists>s'. readStdin_loop dev (replicate (Suc (length cs)) 0) (length line) s =
      Inr (Suc (length (fold line_key cs line)), s') \<and>
    stdin_prefix s' (Suc (length (fold line_key cs line))) = fold line_key cs line @ [10] \<and>
    length (fold line_key cs line) \<le> length line + length cs \<and> pending s' = later \<and> keyboard_inv s' \<and>
    term_view s' = fold (term_put (COLOR s)) (line_echoes cs line) (term_view s)"
  using assms
proof (induction cs arbitrary: line s)
  case Nil
  let ?g = "snd (getInput s)" and ?b = "(stdinBuf s)(length line := 10)"
  have g: "fst (getInput s) = 10" "pending ?g = later" "keyboard_inv ?g"
    using getInput_pending [OF Nil.prems(1), of 10 later] Nil.prems(3) getInput_keeps [OF Nil.prems(1)] by simp_all
  have "map ?b [0..<Suc (length line)] = line @ [10]"
    using Nil.prems(7) by (simp add: stdin_prefix_def)
  then show ?case
    using g Nil.prems by (intro exI [where x = "writeChar 10 (?g\<lparr>stdinBuf := ?b\<rparr>)"])
      (simp add: case_prod_beta Let_def stdin_prefix_def view_writeChar)
next
  case (Cons c cs)
  have g: "fst (getInput s) = c" "pending (snd (getInput s)) = cs @ 10 # later"
    using getInput_pending [OF Cons.prems(1), of c "cs @ 10 # later"] Cons.prems(3) by simp_all
  obtain s' b where s': "readStdin_loop dev (0 # replicate (Suc (length cs)) 0) (length line) s =
      readStdin_loop dev (replicate (Suc (length cs)) 0) (length (line_key c line)) s'"
      "stdin_prefix s' (length (line_key c line)) = line_key c line"
      "s' = fold writeChar (line_echo c line) ((snd (getInput s))\<lparr>stdinBuf := b\<rparr>)"
    using readStdin_key [OF g(1), of line dev "replicate (Suc (length cs)) 0"] Cons.prems by fastforce
  have inv: "keyboard_inv s'" "console_inv s'" "pending s' = cs @ 10 # later" "COLOR s' = COLOR s"
      "term_view s' = fold (term_put (COLOR s)) (line_echo c line) (term_view s)"
    using Cons.prems g(2) getInput_keeps [OF Cons.prems(1)]
    by (simp_all add: s'(3) line_echo_def writeChar_keeps view_writeChar)
  have len: "length (line_key c line) \<le> Suc (length line)" by (auto simp: line_key_def)
  obtain t where t: "readStdin_loop dev (replicate (Suc (length cs)) 0) (length (line_key c line)) s' =
      Inr (Suc (length (fold line_key cs (line_key c line))), t)"
    "stdin_prefix t (Suc (length (fold line_key cs (line_key c line)))) = fold line_key cs (line_key c line) @ [10]"
    "length (fold line_key cs (line_key c line)) \<le> length (line_key c line) + length cs"
    "pending t = later" "keyboard_inv t"
    "term_view t = fold (term_put (COLOR s')) (line_echoes cs (line_key c line)) (term_view s')"
    using Cons.IH [OF inv(1-3) _ _ _ s'(2)] Cons.prems(4-6,8) len by auto
  show ?case
    using t s'(1) len inv(4,5) by (intro exI [where x = t]) simp
qed

text \<open>The line with its newline is in the buffer, its length counts the newline.\<close>

lemma readStdinLine_typed:
  assumes "keyboard_inv s" "console_inv s" "pending s = cs @ 10 # later"
    "0 \<notin> set cs" "10 \<notin> set cs" "13 \<notin> set cs" "length cs < 255"
  shows "\<exists>s'. readStdinLine dev (replicate (Suc (length cs)) 0) s = Inr s' \<and>
    stdinLineReady s' = 1 \<and> stdinBufPos s' = 0 \<and>
    stdinBufLen s' = of_nat (Suc (length (fold line_key cs []))) \<and>
    Suc (length (fold line_key cs [])) \<le> 255 \<and>
    stdin_prefix s' (Suc (length (fold line_key cs []))) = fold line_key cs [] @ [10] \<and>
    pending s' = later \<and> term_view s' = fold (term_put (COLOR s)) (line_echoes cs []) (term_view s)"
proof -
  let ?n = "Suc (length (fold line_key cs []))"
  obtain t where t: "readStdin_loop dev (replicate (Suc (length cs)) 0) 0 s = Inr (?n, t)"
    "stdin_prefix t ?n = fold line_key cs [] @ [10]" "?n \<le> 255" "pending t = later"
    "term_view t = fold (term_put (COLOR s)) (line_echoes cs []) (term_view s)"
    using readStdin_typed [OF assms(1-6), of "[]" dev] assms(7) by (auto simp: stdin_prefix_def)
  let ?s' = "t\<lparr>stdinLineReady := 1, stdinBufLen := of_nat ?n, stdinBuf := (stdinBuf t)(?n := 0), stdinBufPos := 0\<rparr>"
  have "readStdinLine dev (replicate (Suc (length cs)) 0) s = Inr ?s'"
    using t(1,3) by (simp add: readStdinLine_def del: replicate.simps)
  moreover have "stdin_prefix ?s' ?n = stdin_prefix t ?n" by (simp add: stdin_prefix_def)
  ultimately show ?thesis
    using t by (intro exI [where x = ?s']) (simp add: pending_def term_view_def)
qed

lemma kread_line:
  fixes count :: u32
  assumes "stdinLineReady s \<noteq> 0" "stdinBufLen s = of_nat len" "stdinBufPos s = of_nat pos"
    "pos \<le> len" "len < 256"
  defines "m \<equiv> min (unat count) (len - pos)"
  shows "\<exists>s'. kread_impl dev polls 0 count s = Inr (of_nat m, take m (drop pos (stdin_prefix s len)), s') \<and>
    stdinBufPos s' = of_nat (pos + m) \<and> stdinBufLen s' = of_nat len \<and> stdinBuf s' = stdinBuf s \<and>
    (stdinLineReady s' \<noteq> 0 \<longleftrightarrow> pos + m < len)"
proof -
  have u: "unat (of_nat len :: u32) = len" "unat (of_nat pos :: u32) = pos" "unat (of_nat m :: u32) = m"
    "unat (of_nat (pos + m) :: u32) = pos + m"
    using assms(4,5) by (simp_all add: unat_small m_def del: of_nat_add)
  have diff: "unat (of_nat len - of_nat pos :: u32) = len - pos"
    using assms(4) u by (simp add: unat_sub word_le_nat_alt)
  define copy where "copy = copy_count count s"
  have "unat copy = m"
    using diff assms(2,3) by (simp add: copy_def copy_count_def Let_def m_def word_less_nat_alt)
  moreover have "of_nat (unat copy) = copy" by simp
  ultimately have copy: "copy = of_nat m" by simp
  have le: "pos + m \<le> len" using assms(4) by (simp add: m_def)
  have data: "stdin_bytes (of_nat m) s = take m (drop pos (stdin_prefix s len))"
    using le u by (intro nth_equalityI) (simp_all add: stdin_bytes_def stdin_prefix_def assms(3))
  let ?s2 = "s\<lparr>stdinBufPos := of_nat (pos + m)\<rparr>"
  let ?s3 = "if pos + m = len then ?s2\<lparr>stdinLineReady := 0\<rparr> else ?s2"
  have ge: "(of_nat len :: u32) \<le> of_nat (pos + m) \<longleftrightarrow> pos + m = len"
    using u le by (auto simp: word_le_nat_alt simp del: of_nat_add)
  have "stdin_advance (of_nat m) s = ?s3"
    using assms(2,3) ge by (auto simp: stdin_advance_def Let_def simp flip: of_nat_add)
  then have "kread_impl dev polls 0 count s = Inr (of_nat m, take m (drop pos (stdin_prefix s len)), ?s3)"
    using assms(1,3,5) le u copy data by (simp add: kread_impl_def Let_def copy_def)
  then show ?thesis using assms(1,2) le by (intro exI [where x = ?s3]) auto
qed

text \<open>
  The line is not bounded: a key held down for 257 keyboard interrupts runs past the end of
  \<open>stdinBuf\<close>.
\<close>

definition space_held :: device where
  "space_held tr port = 0x39"

lemma space_key:
  assumes "keyboard_inv s" "pending s = []" "controlActive s = 0"
  shows "pending (keyboardHandler space_held s) = [32]"
    and "controlActive (keyboardHandler space_held s) = 0"
proof -
  have "keymap ! 57 = 32" "keymapShifted ! 57 = 32"
    by (simp_all add: keymap_def keymapShifted_def)
  then have "typed s 0x39 = Some 32"
    using assms(3) by (simp add: typed_def modifier_key_def printable_def)
  then show "pending (keyboardHandler space_held s) = [32]"
    using pending_keyboardHandler [OF assms(1), of space_held] assms(2) by (simp add: space_held_def)
  show "controlActive (keyboardHandler space_held s) = 0"
    using assms(3) by (simp add: keyboardHandler_shape space_held_def Let_def port_io_shape key_pressed_fields)
qed

lemma readStdin_overrun:
  assumes "keyboard_inv s" "pending s = []" "controlActive s = 0" "pos = 256 - k" "k \<le> 256"
  shows "readStdin_loop space_held (replicate (Suc k) 1) pos s = Inl OutOfBounds"
  using assms
proof (induction k arbitrary: pos s)
  case 0
  have "interrupts space_held 1 s = keyboardHandler space_held s" by (simp add: interrupts_def)
  moreover have "fst (getInput (keyboardHandler space_held s)) = 32"
    using getInput_pending [OF keyboardHandler_keeps(1)] space_key 0 by metis
  ultimately show ?case using 0 by (simp add: case_prod_beta Let_def)
next
  case (Suc k)
  let ?s = "keyboardHandler space_held s"
  let ?g = "snd (getInput ?s)"
  let ?t = "writeChar 32 (?g\<lparr>stdinBuf := (stdinBuf ?g)(pos := 32)\<rparr>)"
  have p: "pending ?s = [32]" "controlActive ?s = 0" "keyboard_inv ?s"
    using space_key [of s] Suc.prems keyboardHandler_keeps(1) [of s] by simp_all
  have g: "fst (getInput ?s) = 32" "pending ?t = []" "keyboard_inv ?t" "controlActive ?t = 0"
    using getInput_pending [OF p(3) p(1)] p getInput_keeps [OF p(3)] by simp_all
  have i: "interrupts space_held 1 s = ?s" by (simp add: interrupts_def)
  have "readStdin_loop space_held (replicate (Suc (Suc k)) 1) pos s =
      readStdin_loop space_held (replicate (Suc k) 1) (pos + 1) ?t"
    using g(1) Suc.prems(4,5) i unfolding replicate_Suc [of "Suc k"] by (simp add: case_prod_beta Let_def)
  also have "\<dots> = Inl OutOfBounds"
    by (rule Suc.IH [OF g(3,2,4)]) (use Suc.prems in simp_all)
  finally show ?case .
qed

end
