(* ===== verification/Binary.thy ===== *)
theory Binary
  imports Syscalls
begin

text \<open>
  The ELF loader (src/binary.c, include/elf.h): the program is a file of the archive, its segments
  are copied to the memory \<open>umem\<close>. Program has the jump to the entry.
\<close>

section \<open>Header fields\<close>

definition le16 :: "buffer \<Rightarrow> nat \<Rightarrow> u16" where
  "le16 buf p = ucast (buf p) OR push_bit 8 (ucast (buf (p + 1)))"

definition le32 :: "buffer \<Rightarrow> nat \<Rightarrow> u32" where
  "le32 buf p =
     ucast (buf p) OR push_bit 8 (ucast (buf (p + 1))) OR push_bit 16 (ucast (buf (p + 2))) OR
     push_bit 24 (ucast (buf (p + 3)))"

abbreviation SIZEOF_EHDR :: nat where "SIZEOF_EHDR \<equiv> 52"
abbreviation SIZEOF_PHDR :: nat where "SIZEOF_PHDR \<equiv> 32"

text \<open>The fields of \<open>Elf32_Ehdr\<close> and \<open>Elf32_Phdr\<close> that the loader reads.\<close>

definition e_type :: "buffer \<Rightarrow> nat \<Rightarrow> u16" where "e_type buf d = le16 buf (d + 16)"
definition e_machine :: "buffer \<Rightarrow> nat \<Rightarrow> u16" where "e_machine buf d = le16 buf (d + 18)"
definition e_entry :: "buffer \<Rightarrow> nat \<Rightarrow> u32" where "e_entry buf d = le32 buf (d + 24)"
definition e_phoff :: "buffer \<Rightarrow> nat \<Rightarrow> u32" where "e_phoff buf d = le32 buf (d + 28)"
definition e_phentsize :: "buffer \<Rightarrow> nat \<Rightarrow> u16" where "e_phentsize buf d = le16 buf (d + 42)"
definition e_phnum :: "buffer \<Rightarrow> nat \<Rightarrow> u16" where "e_phnum buf d = le16 buf (d + 44)"

record Elf32_Phdr =
  p_type :: u32
  p_offset :: u32
  p_vaddr :: u32
  p_filesz :: u32
  p_memsz :: u32

definition read_phdr :: "buffer \<Rightarrow> nat \<Rightarrow> Elf32_Phdr" where
  "read_phdr buf p =
     \<lparr>p_type = le32 buf p, p_offset = le32 buf (p + 4), p_vaddr = le32 buf (p + 8),
      p_filesz = le32 buf (p + 16), p_memsz = le32 buf (p + 20)\<rparr>"

section \<open>Loading\<close>

text \<open>\<open>memset\<close> of \<open>n\<close> bytes to zero; addresses wrap.\<close>

definition umem_clear :: "(u32 \<Rightarrow> u8) \<Rightarrow> u32 \<Rightarrow> u32 \<Rightarrow> (u32 \<Rightarrow> u8)" where
  "umem_clear m p n = (\<lambda>a. if a - p < n then 0 else m a)"

text \<open>
  One pass of the loop over the program headers. Pointers are 32 bit sums, so an offset is taken
  modulo \<open>2 ^ 32\<close> from the start of \<open>tarBuf\<close>.
\<close>

definition load_segment :: "nat \<Rightarrow> Elf32_Phdr \<Rightarrow> 'a proc_scheme \<Rightarrow> fault + 'a proc_scheme" where
  "load_segment d ph s =
     (if p_type ph \<noteq> 1 then Inr s
      else
        (let src = unat (of_nat d + p_offset ph)
         in if src + unat (p_filesz ph) \<le> TAR_BUF_SIZE then
              (let m1 = umem_store (umem s) (p_vaddr ph) (field (tarBuf s) src (unat (p_filesz ph)));
                   bssSize = p_memsz ph - p_filesz ph
               in Inr (s\<lparr>umem := umem_clear m1 (p_vaddr ph + p_filesz ph) bssSize\<rparr>))
            else Inl OutOfBounds))"

definition phdr_pos :: "buffer \<Rightarrow> nat \<Rightarrow> nat \<Rightarrow> nat" where
  "phdr_pos buf d i = unat (of_nat d + e_phoff buf d + of_nat i * ucast (e_phentsize buf d) :: u32)"

definition load_segments :: "nat \<Rightarrow> 'a proc_scheme \<Rightarrow> fault + 'a proc_scheme" where
  "load_segments d s =
     for_to (unat (e_phnum (tarBuf s) d))
       (\<lambda>i r. bindR r (\<lambda>t.
          let p = phdr_pos (tarBuf t) d i
          in if p + SIZEOF_PHDR \<le> TAR_BUF_SIZE then load_segment d (read_phdr (tarBuf t) p) t
             else Inl OutOfBounds))
       (Inr s)"

definition is_elf :: "buffer \<Rightarrow> nat \<Rightarrow> u32 \<Rightarrow> bool" where
  "is_elf buf d sz \<longleftrightarrow>
     unat sz \<ge> SIZEOF_EHDR \<and> buf d = 0x7F \<and> buf (d + 1) = asc CHR ''E'' \<and> buf (d + 2) = asc CHR ''L'' \<and>
     buf (d + 3) = asc CHR ''F'' \<and> buf (d + 4) = 1"

text \<open>
  The result is \<open>None\<close> where the code returns 0, and the entry point where it enters user mode. The
  header is read before the size decides whether there is one.
\<close>

definition loadBinary :: "u8 list \<Rightarrow> 'a proc_scheme \<Rightarrow> fault + u32 option \<times> 'a proc_scheme" where
  "loadBinary fname s =
     bindR (tarReadFile (tarBuf s) fname)
       (\<lambda>(sz, ptr).
          if sint sz < 0 then Inr (None, s)
          else case ptr of
                 None \<Rightarrow> Inl BadPointer
               | Some d \<Rightarrow>
                   if d + SIZEOF_EHDR > TAR_BUF_SIZE then Inl OutOfBounds
                   else if e_machine (tarBuf s) d \<noteq> 3 then Inr (None, s)
                   else if e_type (tarBuf s) d \<noteq> 2 then Inr (None, s)
                   else if is_elf (tarBuf s) d sz then
                     bindR (load_segments d s)
                       (\<lambda>s1. bindR (fmtWrite (bytes ''about to run, entry=0x%x\<newline>'')
                                      [ArgInt (e_entry (tarBuf s1) d)] s1)
                         (\<lambda>s2. Inr (Some (e_entry (tarBuf s2) d), s2)))
                   else Inr (None, s))"

section \<open>What a segment does to memory\<close>

lemma umem_store_apply:
  "length bs \<le> 2 ^ 32 \<Longrightarrow>
    umem_store m p bs a = (if unat (a - p) < length bs then bs ! unat (a - p) else m a)"
proof (induction bs arbitrary: m p)
  case (Cons c cs)
  show ?case
  proof (cases "a = p")
    case True
    have "unat (p - (p + 1)) = 2 ^ 32 - 1"
      by (simp add: unsigned_minus_1_eq_mask mask_eq_exp_minus_1)
    then show ?thesis using True Cons by simp
  next
    case False
    then have nz: "a - p \<noteq> 0" by simp
    have "a - (p + 1) = a - p - 1" by simp
    then have d: "unat (a - (p + 1)) = unat (a - p) - 1" using nz by (metis unat_minus_one)
    have "unat (a - p) > 0" using nz by (simp add: unat_gt_0)
    then show ?thesis using False Cons d by (auto simp: nth_Cons')
  qed
qed simp

text \<open>The file part is copied, the rest of the segment is zero, nothing else changes.\<close>

lemma load_segment_memory:
  assumes "p_type ph = 1" "unat (of_nat d + p_offset ph :: u32) + unat (p_filesz ph) \<le> TAR_BUF_SIZE"
    "p_filesz ph \<le> p_memsz ph"
  shows "\<exists>s'. load_segment d ph s = Inr s' \<and> tarBuf s' = tarBuf s \<and>
    (\<forall>a. umem s' a =
       (let i = unat (a - p_vaddr ph)
        in if i < unat (p_filesz ph) then tarBuf s (unat (of_nat d + p_offset ph :: u32) + i)
           else if i < unat (p_memsz ph) then 0 else umem s a))"
proof -
  define src where "src = unat (of_nat d + p_offset ph :: u32)"
  let ?n = "unat (p_filesz ph)" and ?v = "p_vaddr ph"
  let ?m1 = "umem_store (umem s) ?v (field (tarBuf s) src ?n)"
  let ?s' = "s\<lparr>umem := umem_clear ?m1 (?v + p_filesz ph) (p_memsz ph - p_filesz ph)\<rparr>"
  have load: "load_segment d ph s = Inr ?s'"
    using assms(1,2) by (simp add: load_segment_def Let_def src_def)
  have "?n < 2 ^ LENGTH(32)" by (rule unsigned_less)
  then have "?n \<le> 2 ^ 32" by simp
  then have m1: "?m1 a = (if unat (a - ?v) < ?n then tarBuf s (src + unat (a - ?v)) else umem s a)" for a
    by (simp add: umem_store_apply)
  have bss: "a - (?v + p_filesz ph) < p_memsz ph - p_filesz ph \<longleftrightarrow>
      ?n \<le> unat (a - ?v) \<and> unat (a - ?v) < unat (p_memsz ph)" for a
  proof -
    have e: "a - (?v + p_filesz ph) = (a - ?v) - p_filesz ph" by simp
    have m: "unat (p_memsz ph - p_filesz ph) = unat (p_memsz ph) - ?n"
      using assms(3) by (simp add: unat_sub)
    show ?thesis
    proof (cases "p_filesz ph \<le> a - ?v")
      case True
      then show ?thesis
        using assms(3) m unfolding e by (simp add: word_less_nat_alt unat_sub word_le_nat_alt) linarith
    next
      case False
      have "unat ((a - ?v) - p_filesz ph) = unat (a - ?v) + 2 ^ 32 - ?n"
        using False by (simp add: unat_sub_if' word_le_nat_alt)
      moreover have "unat (p_memsz ph) < 2 ^ LENGTH(32)" by (rule unsigned_less)
      ultimately show ?thesis
        using False m unfolding e by (simp add: word_less_nat_alt word_le_nat_alt)
    qed
  qed
  have "umem ?s' a = (let i = unat (a - ?v) in if i < ?n then tarBuf s (src + i)
      else if i < unat (p_memsz ph) then 0 else umem s a)" for a
    using assms(3) by (simp add: umem_clear_def bss m1 Let_def word_le_nat_alt)
  then show ?thesis
    unfolding src_def [symmetric] using load by (intro exI [where x = ?s']) simp
qed

text \<open>
  A memory size below the file size is not rejected: the rest of the segment, as a 32 bit number, is
  almost all of memory, and it is cleared.
\<close>

lemma load_segment_wraps:
  assumes "p_type ph = 1" "unat (of_nat d + p_offset ph :: u32) + unat (p_filesz ph) \<le> TAR_BUF_SIZE"
    "p_memsz ph = p_filesz ph - 1"
  shows "\<exists>s'. load_segment d ph s = Inr s' \<and> (\<forall>a. a \<noteq> p_vaddr ph + p_filesz ph - 1 \<longrightarrow> umem s' a = 0)"
proof -
  define src where "src = unat (of_nat d + p_offset ph :: u32)"
  let ?v = "p_vaddr ph"
  let ?m1 = "umem_store (umem s) ?v (field (tarBuf s) src (unat (p_filesz ph)))"
  let ?s' = "s\<lparr>umem := umem_clear ?m1 (?v + p_filesz ph) (p_memsz ph - p_filesz ph)\<rparr>"
  have load: "load_segment d ph s = Inr ?s'"
    using assms(1,2) by (simp add: load_segment_def Let_def src_def)
  have "p_memsz ph - p_filesz ph = - 1" using assms(3) by simp
  moreover have "x < - 1" if "x \<noteq> (- 1 :: u32)" for x
    using that by (simp add: word_order.not_eq_extremum)
  moreover have "a - (?v + p_filesz ph) \<noteq> - 1" if "a \<noteq> ?v + p_filesz ph - 1" for a
    using that by (metis add_diff_cancel_left' diff_add_cancel uminus_add_conv_diff)
  ultimately have "umem ?s' a = 0" if "a \<noteq> ?v + p_filesz ph - 1" for a
    using that by (simp add: umem_clear_def)
  then show ?thesis using load by (intro exI [where x = ?s']) simp
qed

section \<open>Loading all segments\<close>

lemma load_segment_keeps:
  "load_segment d ph s = Inr s' \<Longrightarrow> s' = s\<lparr>umem := umem s'\<rparr>"
  by (auto simp: load_segment_def Let_def split: if_splits)

lemma load_segments_keeps:
  assumes "load_segments d s = Inr s'"
  shows "s' = s\<lparr>umem := umem s'\<rparr>"
proof -
  define body where "body = (\<lambda>i r. bindR r (\<lambda>t.
          let p = phdr_pos (tarBuf t) d i
          in if p + SIZEOF_PHDR \<le> TAR_BUF_SIZE then load_segment d (read_phdr (tarBuf t) p) t
             else Inl OutOfBounds) :: fault + 'a proc_scheme)"
  have "for_to n body (Inr s) = Inr t \<Longrightarrow> t = s\<lparr>umem := umem t\<rparr>" for n t
  proof (induction n arbitrary: t)
    case (Suc n)
    then obtain u where u: "for_to n body (Inr s) = Inr u"
        "load_segment d (read_phdr (tarBuf u) (phdr_pos (tarBuf u) d n)) u = Inr t"
      by (auto simp: body_def bindR_Inr_iff Let_def split: if_splits)
    then show ?case using Suc.IH load_segment_keeps [OF u(2)] by (metis proc.update_convs(1) proc.surjective)
  qed simp
  then show ?thesis using assms by (simp add: load_segments_def body_def)
qed

section \<open>The file in the archive\<close>

text \<open>The bytes of a file as the loader sees them, at offset 0.\<close>

definition file_buf :: "u8 list \<Rightarrow> buffer" where
  "file_buf d = (\<lambda>i. if i < length d then d ! i else 0)"

text \<open>The checks of the loader, on the file.\<close>

definition elf_header :: "u8 list \<Rightarrow> bool" where
  "elf_header d \<longleftrightarrow> SIZEOF_EHDR \<le> length d \<and> take 5 d = [0x7F, 0x45, 0x4C, 0x46, 1] \<and>
     e_machine (file_buf d) 0 = 3 \<and> e_type (file_buf d) 0 = 2"

text \<open>A field of the file is read from the archive as from the file.\<close>

definition holds_file :: "buffer \<Rightarrow> nat \<Rightarrow> u8 list \<Rightarrow> bool" where
  "holds_file buf q d \<longleftrightarrow> field buf q (length d) = d \<and> q + length d \<le> TAR_BUF_SIZE"

lemma holds_file_byte: "holds_file buf q d \<Longrightarrow> i < length d \<Longrightarrow> buf (q + i) = d ! i"
  unfolding holds_file_def by (metis nth_field)

lemma file_words:
  assumes "holds_file buf q d"
  shows "p + 2 \<le> length d \<Longrightarrow> le16 buf (q + p) = le16 (file_buf d) p"
    and "p + 4 \<le> length d \<Longrightarrow> le32 buf (q + p) = le32 (file_buf d) p"
  using holds_file_byte [OF assms, of p] holds_file_byte [OF assms, of "p + 1"]
    holds_file_byte [OF assms, of "p + 2"] holds_file_byte [OF assms, of "p + 3"]
  by (simp_all add: le16_def le32_def file_buf_def add.assoc)

lemma file_fields:
  assumes "holds_file buf q d" "SIZEOF_EHDR \<le> length d"
  shows "e_type buf q = e_type (file_buf d) 0" "e_machine buf q = e_machine (file_buf d) 0"
    "e_entry buf q = e_entry (file_buf d) 0" "e_phoff buf q = e_phoff (file_buf d) 0"
    "e_phentsize buf q = e_phentsize (file_buf d) 0" "e_phnum buf q = e_phnum (file_buf d) 0"
  using file_words [OF assms(1)] assms(2)
  by (simp_all add: e_type_def e_machine_def e_entry_def e_phoff_def e_phentsize_def e_phnum_def)

lemma is_elf_file:
  assumes "holds_file buf q d" "length d < 2 ^ 32"
  shows "is_elf buf q (of_nat (length d)) \<longleftrightarrow> SIZEOF_EHDR \<le> length d \<and> take 5 d = [0x7F, 0x45, 0x4C, 0x46, 1]"
proof -
  have u: "unat (of_nat (length d) :: u32) = length d" using assms(2) by (simp add: unat_small)
  have "take 5 d = map buf [q, q + 1, q + 2, q + 3, q + 4]" if "SIZEOF_EHDR \<le> length d"
  proof (rule nth_equalityI)
    fix i assume i: "i < length (take 5 d)"
    then have "d ! i = buf (q + i)" using holds_file_byte [OF assms(1), of i] by simp
    moreover have "i \<in> {0, 1, 2, 3, 4}" using i by auto
    ultimately show "take 5 d ! i = map buf [q, q + 1, q + 2, q + 3, q + 4] ! i" by auto
  qed (use that in simp)
  then show ?thesis using u by (auto simp: is_elf_def)
qed

lemma entry_room: "pos_of p es f = Some q \<Longrightarrow> q + 512 \<le> end_of p es"
proof (induction es arbitrary: p)
  case (Cons e es)
  then show ?case
    using span_bounds(3) [of "length (snd e)"] end_of_ge [of "p + span (length (snd e))" es] by (auto split: if_splits)
qed simp

lemma tarRead_held:
  assumes "archive buf es" "cstring f" "map_of es f = Some d"
  shows "\<exists>q. tarRead buf f = Inr (of_nat (length d), Some q) \<and> holds_file buf q d \<and> q + SIZEOF_EHDR \<le> TAR_BUF_SIZE"
proof -
  obtain q where q: "tarRead buf f = Inr (of_nat (length d), Some q)" "holds_file buf q d"
    using tarRead_archive(2) [OF assms] unfolding holds_file_def by blast
  obtain p where p: "pos_of 0 es f = Some p" using assms(3) pos_of_None [of 0 es f] by auto
  have "q = p + 512"
    using q(1) p tarFind_archive [OF assms(1,2)] by (auto simp: tarRead_def bindR_Inr_iff split: if_splits)
  moreover have "end_of 0 es + 512 \<le> TAR_BUF_SIZE" using assms(1) by (simp add: archive_def zero_from_def)
  ultimately show ?thesis using q entry_room [OF p] by auto
qed

text \<open>
  The files that are refused: not found, or with a header that is not there, not for this machine, not executable
  or without the magic number. Nothing is changed.
\<close>

lemma loadBinary_missing:
  assumes "archive (tarBuf s) es" "cstring f" "map_of es f = None"
  shows "loadBinary f s = Inr (None, s)"
  using tarRead_archive(1) [OF assms] by (simp add: loadBinary_def tarReadFile_def)

lemma loadBinary_rejects:
  assumes "archive (tarBuf s) es" "cstring f" "map_of es f = Some d" "\<not> elf_header d"
  shows "loadBinary f s = Inr (None, s)"
proof -
  obtain q where q: "tarRead (tarBuf s) f = Inr (of_nat (length d), Some q)" "holds_file (tarBuf s) q d"
      "q + SIZEOF_EHDR \<le> TAR_BUF_SIZE"
    using tarRead_held [OF assms(1-3)] by blast
  have len: "length d < TAR_BUF_SIZE" by (rule archive_file_small [OF assms(1,3)])
  have "e_machine (tarBuf s) q \<noteq> 3 \<or> e_type (tarBuf s) q \<noteq> 2 \<or> \<not> is_elf (tarBuf s) q (of_nat (length d))"
    using assms(4) is_elf_file [OF q(2)] len file_fields(1,2) [OF q(2)] by (auto simp: elf_header_def)
  then show ?thesis
    using q len sint_small [of "length d"] by (auto simp: loadBinary_def tarReadFile_def)
qed

end
