(* ===== verification/Sys.thy ===== *)
theory Sys
  imports Port_IO "HOL-Library.While_Combinator"
begin

text \<open>
  src/sys.c: memory sizes, the CPUID test, reboot and shutdown. The linker symbols and the
  processor (\<open>cpuid\<close>) are parameters.
\<close>

record E820Entry =
  e820_base :: u64
  e820_length :: u64
  e820_type :: u32
  e820_extended :: u32

definition getUsedMem :: "u32 \<Rightarrow> u32 \<Rightarrow> u32" where
  "getUsedMem kernelStart kernelEnd = kernelEnd - kernelStart"

text \<open>\<open>cpuid leaf\<close> is the pair of EAX and EDX.\<close>

definition supports64bit :: "(u32 \<Rightarrow> u32 \<times> u32) \<Rightarrow> bool" where
  "supports64bit cpuid =
     (if fst (cpuid 0x80000000) < 0x80000001 then False
      else snd (cpuid 0x80000001) AND push_bit 29 1 \<noteq> 0)"

definition getTotalMem :: "E820Entry list \<Rightarrow> u32" where
  "getTotalMem entries =
     ucast (fold (\<lambda>e total. if e820_type e = 1 then total + e820_length e else total) entries (0 :: u64))"

text \<open>\<open>halt\<close> does not return; the state is the one it is called in.\<close>

definition reboot :: "device \<Rightarrow> 'a machine_scheme \<Rightarrow> fault + 'a machine_scheme" where
  "reboot dev s =
     (case while_option (\<lambda>(good, t). good AND 0x02 \<noteq> 0) (\<lambda>(good, t). inb dev 0x64 t) (0x02, s) of
        None \<Rightarrow> Inl Diverges
      | Some (good, t) \<Rightarrow> Inr (outb 0x64 0xFE t))"

definition shutdown :: "'a machine_scheme \<Rightarrow> 'a machine_scheme" where
  "shutdown s = outw 0x604 0x2000 s"

section \<open>Memory\<close>

definition ram_bytes :: "E820Entry list \<Rightarrow> nat" where
  "ram_bytes entries = sum_list (map (\<lambda>e. unat (e820_length e)) (filter (\<lambda>e. e820_type e = 1) entries))"

text \<open>The sum is kept at 64 bits and returned at 32: a machine with 4 GiB reports 0.\<close>

lemma getTotalMem_mod: "unat (getTotalMem entries) = ram_bytes entries mod 2 ^ 32"
proof -
  have "fold (\<lambda>e total. if e820_type e = 1 then total + e820_length e else total) entries t =
      t + of_nat (ram_bytes entries)" for t :: u64
    by (induction entries arbitrary: t) (simp_all add: ram_bytes_def)
  then have "getTotalMem entries = ucast (of_nat (ram_bytes entries) :: u64)"
    by (simp add: getTotalMem_def)
  then show ?thesis
    by (simp add: unsigned_ucast_eq unsigned_of_nat take_bit_eq_mod mod_mod_cancel)
qed

section \<open>Reboot\<close>

text \<open>The keyboard controller is polled until its input buffer is empty (bit 1 clear).\<close>

fun polled :: "device \<Rightarrow> nat \<Rightarrow> 'a machine_scheme \<Rightarrow> 'a machine_scheme" where
  "polled dev 0 s = s"
| "polled dev (Suc n) s = polled dev n (snd (inb dev 0x64 s))"

definition buffer_empty :: "device \<Rightarrow> 'a machine_scheme \<Rightarrow> bool" where
  "buffer_empty dev s \<longleftrightarrow> fst (inb dev 0x64 s) AND 0x02 = 0"

lemma reboot_loop:
  assumes "good AND 2 \<noteq> 0" "\<And>i. i < n \<Longrightarrow> \<not> buffer_empty dev (polled dev i s)"
    "buffer_empty dev (polled dev n s)"
  shows "\<exists>g. while_option (\<lambda>(good, t). good AND 0x02 \<noteq> 0) (\<lambda>(good, t). inb dev 0x64 t) (good, s)
    = Some (g, polled dev (Suc n) s)"
  using assms
proof (induction n arbitrary: good s)
  case 0
  obtain v t where vt: "inb dev 0x64 s = (v, t)" by fastforce
  then have "v AND 2 = 0" using 0 by (simp add: buffer_empty_def)
  then show ?case using 0 vt
    by (subst while_option_unfold, simp, subst while_option_unfold) simp
next
  case (Suc n)
  obtain v t where vt: "inb dev 0x64 s = (v, t)" by fastforce
  have "v AND 2 \<noteq> 0" using Suc.prems(2) [of 0] vt by (simp add: buffer_empty_def)
  moreover have "\<not> buffer_empty dev (polled dev i t)" if "i < n" for i
    using Suc.prems(2) [of "Suc i"] that vt by simp
  moreover have "buffer_empty dev (polled dev n t)" using Suc.prems(3) vt by simp
  ultimately have "\<exists>g. while_option (\<lambda>(good, t). good AND 0x02 \<noteq> 0) (\<lambda>(good, t). inb dev 0x64 t) (v, t)
    = Some (g, polled dev (Suc n) t)" by (rule Suc.IH)
  then show ?case using Suc.prems(1) vt by (subst while_option_unfold) simp
qed

lemma reboot_sends:
  assumes "\<And>i. i < n \<Longrightarrow> \<not> buffer_empty dev (polled dev i s)" "buffer_empty dev (polled dev n s)"
  shows "reboot dev s = Inr (outb 0x64 0xFE (polled dev (Suc n) s))"
  using reboot_loop [of 2, OF _ assms] by (auto simp: reboot_def)

text \<open>A controller that stays busy keeps \<open>reboot\<close> in the loop.\<close>

lemma reboot_stuck:
  assumes "\<And>tr. dev tr 0x64 AND 2 \<noteq> 0"
  shows "reboot dev s = Inl Diverges"
proof -
  have "bit (dev tr 0x64) 1" for tr
    using assms [of tr] and_exp_eq_0_iff_not_bit [of "dev tr 0x64" 1] by simp
  then have "bit (fst (inb dev 0x64 t)) 1" for t :: "'a machine_scheme"
    by (simp add: port_io_shape bit_simps)
  then have busy: "fst (inb dev 0x64 t) AND 2 \<noteq> 0" for t :: "'a machine_scheme"
    using and_exp_eq_0_iff_not_bit [of "fst (inb dev 0x64 t)" 1] by simp
  let ?step = "\<lambda>(good, t). inb dev 0x64 t"
  have "fst ((?step ^^ k) (2 :: u8, s)) AND 2 \<noteq> 0" for k
    by (cases k) (simp_all add: busy case_prod_beta)
  then have "\<forall>k. (\<lambda>(good, t). good AND 2 \<noteq> 0) ((?step ^^ k) (2 :: u8, s))"
    by (simp add: case_prod_beta)
  then show ?thesis by (simp add: reboot_def while_option_def)
qed

end
