(* ===== verification/Shell.thy ===== *)
theory Shell
  imports Binary Sys
begin

text \<open>
  The shell (src/sh.c) and the start of the kernel (src/kernel.c). The shell's input comes from
  \<open>scanf\<close> and its output goes through \<open>printf\<close>, both of picolibc: the text of a \<open>printf\<close> is the
  parameter \<open>sh_printf\<close>, written character by character through \<open>__stdout_put\<close>; what a \<open>scanf\<close>
  stored is an argument. Raising an interrupt is the parameter \<open>trap\<close>,
  for which Reachable puts the stubs.
\<close>

abbreviation MAX_TOKENS :: nat where "MAX_TOKENS \<equiv> 16"

section \<open>Splitting the line\<close>

text \<open>
  The loop over the characters: the start of each token is recorded, each space becomes a NUL. The
  result is the recorded positions and the changed line.
\<close>

fun tokenize_loop :: "nat \<Rightarrow> nat \<Rightarrow> bool \<Rightarrow> nat list \<Rightarrow> u8 list \<Rightarrow> nat list \<times> u8 list" where
  "tokenize_loop max_tokens i in_token toks [] = (toks, [])"
| "tokenize_loop max_tokens i in_token toks (c # cs) =
     (if c = 0 then (toks, c # cs)
      else if c \<noteq> asc CHR '' '' \<and> \<not> in_token then
        (if length toks < max_tokens
         then (let (ts, out) = tokenize_loop max_tokens (i + 1) True (toks @ [i]) cs in (ts, c # out))
         else (let (ts, out) = tokenize_loop max_tokens (i + 1) in_token toks cs in (ts, c # out)))
      else if c = asc CHR '' '' then
        (let (ts, out) = tokenize_loop max_tokens (i + 1) False toks cs in (ts, 0 # out))
      else (let (ts, out) = tokenize_loop max_tokens (i + 1) in_token toks cs in (ts, c # out)))"

definition token_at :: "u8 list \<Rightarrow> nat \<Rightarrow> u8 list" where
  "token_at str p = takeWhile (\<lambda>c. c \<noteq> 0) (drop p str)"

definition tokenize :: "u8 list \<Rightarrow> nat \<Rightarrow> u8 list list" where
  "tokenize str max_tokens =
     (let (toks, out) = tokenize_loop max_tokens 0 False [] str in map (token_at out) toks)"

text \<open>The reference: the maximal runs of characters that are not spaces.\<close>

fun words_of :: "u8 list \<Rightarrow> u8 list \<Rightarrow> u8 list list" where
  "words_of w [] = (if w = [] then [] else [w])"
| "words_of w (c # cs) =
     (if c = 32 then (if w = [] then [] else [w]) @ words_of [] cs else words_of (w @ [c]) cs)"

text \<open>
  With room left, the loop inside a token of which \<open>w\<close> was seen, and the loop between tokens.
\<close>

lemma tokenize_loop_full:
  assumes "cstring cs" "length toks \<ge> max_tokens"
  shows "fst (tokenize_loop max_tokens i b toks cs) = toks"
  using assms by (induction cs arbitrary: i b) (auto simp: case_prod_beta Let_def)

lemma tokenize_loop_out:
  "cstring cs \<Longrightarrow> snd (tokenize_loop m i b toks cs) = map (\<lambda>c. if c = 32 then 0 else c) cs"
  by (induction cs arbitrary: i b toks) (auto simp: case_prod_beta Let_def)

definition blanked :: "u8 list \<Rightarrow> u8 list" where
  "blanked cs = map (\<lambda>c. if c = 32 then 0 else c) cs"

lemma blanked_simps [simp]:
  "blanked [] = []" "blanked (c # cs) = (if c = 32 then 0 else c) # blanked cs"
  "blanked (xs @ ys) = blanked xs @ blanked ys" "length (blanked xs) = length xs"
  by (simp_all add: blanked_def)

text \<open>
  The starts the loop finds in \<open>cs\<close>, which lies at position \<open>i\<close>: inside a token, or outside of one.
\<close>

fun starts :: "nat \<Rightarrow> bool \<Rightarrow> u8 list \<Rightarrow> nat list" where
  "starts i b [] = []"
| "starts i b (c # cs) =
     (if c = 32 then starts (i + 1) False cs
      else if b then starts (i + 1) True cs else i # starts (i + 1) True cs)"

lemma tokenize_loop_starts:
  "cstring cs \<Longrightarrow> length toks \<le> m \<Longrightarrow> b \<longrightarrow> toks \<noteq> [] \<Longrightarrow>
    fst (tokenize_loop m i b toks cs) = toks @ take (m - length toks) (starts i b cs)"
proof (induction cs arbitrary: i b toks)
  case (Cons c cs)
  show ?case
  proof (cases "length toks < m")
    case True
    then show ?thesis
      using Cons by (auto simp: case_prod_beta Let_def Suc_diff_Suc take_Cons' diff_Suc split: nat.split)
  next
    case False
    then show ?thesis
      using Cons.prems tokenize_loop_full [OF Cons.prems(1), of m toks i b] by simp
  qed
qed simp

lemma token_at_word:
  "list_all (\<lambda>c. c \<noteq> 0 \<and> c \<noteq> 32) w \<Longrightarrow> cs = [] \<or> hd cs = 32 \<Longrightarrow>
    token_at (pre @ w @ blanked cs) (length pre) = w"
  by (cases cs) (auto simp: token_at_def list_all_iff takeWhile_append)

text \<open>The tokens at the starts are the words.\<close>

lemma starts_words:
  assumes "cstring cs" "list_all (\<lambda>c. c \<noteq> 0 \<and> c \<noteq> 32) w"
  shows "map (token_at (pre @ w @ blanked cs))
      ((if w = [] then [] else [length pre]) @ starts (length pre + length w) (w \<noteq> []) cs) = words_of w cs"
  using assms
proof (induction cs arbitrary: pre w)
  case Nil
  then show ?case using token_at_word [of w "[]" pre] by auto
next
  case (Cons c cs)
  show ?case
  proof (cases "c = 32")
    case True
    have "map (token_at ((pre @ w @ [0]) @ [] @ blanked cs)) (starts (length (pre @ w @ [0])) False cs) = words_of [] cs"
      using Cons.IH [of "[]" "pre @ w @ [0]"] Cons.prems by simp
    then show ?thesis using True token_at_word [of w "32 # cs" pre] Cons.prems by simp
  next
    case False
    have "list_all (\<lambda>c. c \<noteq> 0 \<and> c \<noteq> 32) (w @ [c])" using Cons.prems False by simp
    from Cons.IH [OF _ this, of pre] Cons.prems(1) False show ?thesis by (cases "w = []") simp_all
  qed
qed

lemma tokenize_words:
  assumes "cstring str"
  shows "tokenize str m = take m (words_of [] str)"
proof -
  have "fst (tokenize_loop m 0 False [] str) = take m (starts 0 False str)"
    using tokenize_loop_starts [OF assms, of "[]" m False 0] by simp
  moreover have "snd (tokenize_loop m 0 False [] str) = blanked str"
    using tokenize_loop_out [OF assms] by (simp add: blanked_def)
  moreover have "map (token_at (blanked str)) (starts 0 False str) = words_of [] str"
    using starts_words [OF assms, of "[]" "[]"] by simp
  ultimately show ?thesis by (simp add: tokenize_def case_prod_beta Let_def flip: take_map)
qed

section \<open>Commands\<close>

text \<open>
  What the shell uses and does not compute: picolibc's formatter, the processor, the memory map, the
  linker symbols, the texts of the build, and the bytes its stack buffers hold before they are set.
\<close>

record shell_env =
  sh_printf :: "u8 list \<Rightarrow> fmt_arg list \<Rightarrow> u8 list"
  sh_cpuid :: "u32 \<Rightarrow> u32 \<times> u32"
  sh_entries :: "E820Entry list"
  sh_kernel :: "u32 \<times> u32"
  sh_version :: "u8 list"
  sh_build :: "u8 list \<times> u8 list"
  sh_stack :: "u8 list"

definition print :: "shell_env \<Rightarrow> string \<Rightarrow> fmt_arg list \<Rightarrow> 'a console_scheme \<Rightarrow> 'a console_scheme" where
  "print env fmt args s = fold (\<lambda>c t. snd (stdout_put c t)) (sh_printf env (bytes fmt) args) s"

text \<open>After a command: the next turn of the loop, a machine that halts, or a program that is entered.\<close>

datatype 's turn = Next 's | Stopped 's | UserMode u32 's

text \<open>A token that the line does not have is a pointer that the line did not set.\<close>

definition tok :: "u8 list list \<Rightarrow> nat \<Rightarrow> fault + u8 list" where
  "tok tokens i = (if i < length tokens then Inr (tokens ! i) else Inl BadPointer)"

text \<open>
  \<open>echo > file\<close> and \<open>cat > file\<close> read one word (\<open>input\<close>) into a buffer of 256 bytes. \<open>echo\<close> puts the
  newline over the NUL and looks for the end again, in what the buffer held before.
\<close>

definition with_newline :: "u8 list \<Rightarrow> u8 list \<Rightarrow> fault + u8 list" where
  "with_newline stack input =
     (let buf = input @ [asc CHR ''\<newline>''] @ drop (length input + 1) stack
      in if 0 \<in> set buf then Inr (takeWhile (\<lambda>c. c \<noteq> 0) buf) else Inl OutOfBounds)"

definition edit_from_input ::
  "device \<Rightarrow> u8 list list \<Rightarrow> u8 list \<Rightarrow> 'a proc_scheme \<Rightarrow> fault + 'a proc_scheme turn" where
  "edit_from_input dev tokens data s =
     bindR (tok tokens 2)
       (\<lambda>fname. bindR (tarEdit (tarBuf s) fname data (of_nat (length data)))
         (\<lambda>(r, b). Inr (Next ((tarFlush dev (s\<lparr>tarBuf := b\<rparr>))\<lparr>blocking := 1\<rparr>))))"

definition cmd_echo ::
  "shell_env \<Rightarrow> device \<Rightarrow> u8 list list \<Rightarrow> u8 list \<Rightarrow> 'a proc_scheme \<Rightarrow> fault + 'a proc_scheme turn" where
  "cmd_echo env dev tokens input s =
     bindR (tok tokens 1)
       (\<lambda>t1. if t1 = bytes ''>'' then
          (let s1 = (tarLoad dev s)\<lparr>blocking := 0\<rparr>
           in if length input < 256 then
                bindR (with_newline (sh_stack env) input) (\<lambda>data. edit_from_input dev tokens data s1)
              else Inl OutOfBounds)
        else Inr (Next (fold (\<lambda>t. print env ''%s '' [ArgStr t]) (tl tokens) s)))"

definition cmd_cat ::
  "shell_env \<Rightarrow> device \<Rightarrow> u8 list list \<Rightarrow> u8 list \<Rightarrow> 'a proc_scheme \<Rightarrow> fault + 'a proc_scheme turn" where
  "cmd_cat env dev tokens input s =
     (let s1 = tarLoad dev s
      in bindR (tok tokens 1)
           (\<lambda>t1. if t1 = bytes ''>'' then
              (let s2 = s1\<lparr>blocking := 0\<rparr>
               in if length input < 256 then edit_from_input dev tokens input s2 else Inl OutOfBounds)
            else bindR (tarPrintFile t1 s1) (\<lambda>s2. Inr (Next s2))))"

text \<open>\<open>total\<close> and \<open>used\<close> are unsigned, \<open>diff\<close> is a signed \<open>long\<close>.\<close>

definition signed_div :: "u32 \<Rightarrow> int \<Rightarrow> u32" where
  "signed_div x y = word_of_int (sint x sdiv y)"

definition cmd_free :: "shell_env \<Rightarrow> u8 list list \<Rightarrow> 'a console_scheme \<Rightarrow> fault + 'a console_scheme" where
  "cmd_free env tokens s =
     (let total = getTotalMem (sh_entries env);
          used = getUsedMem (fst (sh_kernel env)) (snd (sh_kernel env));
          diff = total - used;
          show_mem = (\<lambda>fmt unit. print env fmt
            [ArgInt (total div of_nat unit), ArgInt (used div of_nat unit), ArgInt (signed_div diff (int unit))] s)
      in bindR (tok tokens 1)
           (\<lambda>t1. Inr (if t1 = bytes ''-m'' then show_mem ''total = %dm, used = %dm, free = %dm\<newline>'' (1024 * 1024)
              else if t1 = bytes ''-g'' then show_mem ''total = %dg, used = %dg, free = %dg\<newline>'' (1024 * 1024 * 1024)
              else if t1 = bytes ''-b'' then show_mem ''total = %db, used = %db, free = %db\<newline>'' 1
              else show_mem ''total = %dk, used = %dk, free = %dk\<newline>'' 1024)))"

definition resume :: "'s after \<Rightarrow> 's turn" where
  "resume r = (case r of Returned t \<Rightarrow> Next t | Halted t \<Rightarrow> Stopped t)"

definition cmd_panic ::
  "shell_env \<Rightarrow> (u8 \<Rightarrow> 'a proc_scheme \<Rightarrow> fault + 'a proc_scheme after) \<Rightarrow> u8 list list \<Rightarrow> 'a proc_scheme \<Rightarrow>
     fault + 'a proc_scheme turn" where
  "cmd_panic env trap tokens s =
     bindR (tok tokens 1)
       (\<lambda>t1. let n = atoi t1;
                 s1 = (if sint n > 21 \<or> n = 34 \<or> n = 9 \<or> n = 15 \<or> n = 18 \<or> n = 20
                       then print env ''Unknown fault interrupt\<newline>'' [] s else s)
             in bindR (trap (if length tokens = 2 then ucast n else 34) s1) (\<lambda>r. Inr (resume r)))"

definition cmd_ls ::
  "shell_env \<Rightarrow> device \<Rightarrow> u8 list list \<Rightarrow> 'a tarfs_scheme \<Rightarrow> fault + 'a tarfs_scheme" where
  "cmd_ls env dev tokens s =
     (let s1 = tarLoad dev s
      in bindR (tok tokens 1)
           (\<lambda>t1. bindR (tarList t1 s1) (\<lambda>s2. Inr (print env ''\<newline>'' [] s2))))"

definition cmd_rm ::
  "shell_env \<Rightarrow> device \<Rightarrow> u8 list list \<Rightarrow> 'a tarfs_scheme \<Rightarrow> fault + 'a tarfs_scheme" where
  "cmd_rm env dev tokens s =
     bindR (tok tokens 1)
       (\<lambda>t1. bindR (tarRm (tarBuf s) t1)
         (\<lambda>(r, b). let s1 = s\<lparr>tarBuf := b\<rparr>
            in if r \<noteq> 0 then
                 (let s2 = tarFlush dev (print env ''removed from buffer\<newline>'' [] s1);
                      s3 = tarLoad dev (print env ''flushed to disk\<newline>'' [] s2)
                  in tarList t1 (print env ''reloaded, verifying...\<newline>'' [] s3))
               else Inr (print env ''Not found\<newline>'' [] s1)))"

definition cmd_touch :: "device \<Rightarrow> u8 list list \<Rightarrow> 'a tarfs_scheme \<Rightarrow> fault + 'a tarfs_scheme" where
  "cmd_touch dev tokens s =
     bindR (tok tokens 1)
       (\<lambda>t1. bindR (tarTouch (tarBuf s) t1) (\<lambda>(r, b). Inr (tarFlush dev (s\<lparr>tarBuf := b\<rparr>))))"

definition cmd_run :: "shell_env \<Rightarrow> u8 list \<Rightarrow> 'a proc_scheme \<Rightarrow> fault + 'a proc_scheme turn" where
  "cmd_run env fname s =
     bindR (tarFind (tarBuf s) fname)
       (\<lambda>th. if th = None then Inr (Next (print env ''Not found\<newline>'' [] s))
             else bindR (loadBinary fname s)
                    (\<lambda>(r, s1). case r of
                                 None \<Rightarrow> Inr (Next (print env ''Corrupted binary\<newline>'' [] s1))
                               | Some entry \<Rightarrow> Inr (UserMode entry s1)))"

definition next_turn :: "fault + 's \<Rightarrow> fault + 's turn" where
  "next_turn r = bindR r (\<lambda>s. Inr (Next s))"

text \<open>One turn of the loop of \<open>sh\<close>, after the prompt: the line that was read, and its command.\<close>

definition sh_turn ::
  "shell_env \<Rightarrow> (u8 \<Rightarrow> 'a proc_scheme \<Rightarrow> fault + 'a proc_scheme after) \<Rightarrow> device \<Rightarrow> u8 list \<Rightarrow> u8 list \<Rightarrow>
     'a proc_scheme \<Rightarrow> fault + 'a proc_scheme turn" where
  "sh_turn env trap dev line input s =
     (let tokens = tokenize line MAX_TOKENS
      in if tokens = [] then Inr (Next s)
         else let cmd = tokens ! 0
      in if cmd = [] then Inr (Next s)
         else if cmd = bytes ''help'' then
           Inr (Next (print env ''Available: help, echo, clear, ping, uptime, uname, free, cat, ls, panic, reboot, shutdown\<newline>'' [] s))
         else if cmd = bytes ''echo'' then cmd_echo env dev tokens input s
         else if cmd = bytes ''clear'' then Inr (Next (clearScreen s))
         else if cmd = bytes ''ping'' then Inr (Next (print env ''Pong!\<newline>'' [] s))
         else if cmd = bytes ''uptime'' then Inr (Next (print env ''%d s\<newline>'' [ArgInt (sysTicks s div 100)] s))
         else if cmd = bytes ''uname'' then
           Inr (Next (print env ''lanternOS i386 v%s (built %s on %s)\<newline>''
             [ArgStr (sh_version env), ArgStr (fst (sh_build env)), ArgStr (snd (sh_build env))] s))
         else if cmd = bytes ''arch'' then
           Inr (Next (print env ''x86%s\<newline>''
             [ArgStr (if supports64bit (sh_cpuid env) then bytes ''_64'' else [])] s))
         else if cmd = bytes ''free'' then next_turn (cmd_free env tokens s)
         else if cmd = bytes ''panic'' then cmd_panic env trap tokens s
         else if cmd = bytes ''ls'' then next_turn (cmd_ls env dev tokens s)
         else if cmd = bytes ''rm'' then next_turn (cmd_rm env dev tokens s)
         else if cmd = bytes ''cat'' then cmd_cat env dev tokens input s
         else if cmd = bytes ''touch'' then next_turn (cmd_touch dev tokens s)
         else if cmd = bytes ''reboot'' then bindR (reboot dev s) (\<lambda>t. Inr (Stopped t))
         else if cmd = bytes ''shutdown'' then Inr (Next (shutdown s))
         else cmd_run env cmd s)"

section \<open>Starting the kernel\<close>

text \<open>
  \<open>kmain\<close> up to the shell. The version and picolibc's version are texts of the build.
\<close>

record boot_env = shell_env +
  bt_addr :: "stub \<Rightarrow> u32"
  bt_idt :: u32
  bt_gdt :: u32
  bt_tss :: u32
  bt_tss_top :: u32
  bt_shift :: u8
  bt_libc_version :: "u8 list"

definition announce ::
  "'e boot_env_scheme \<Rightarrow> string \<Rightarrow> ('a console_scheme \<Rightarrow> 'a console_scheme) \<Rightarrow> 'a console_scheme \<Rightarrow> 'a console_scheme" where
  "announce be name f s =
     (let env = shell_env.truncate be
      in print env ''ok\<newline>'' [] (f (print env ''Initializing %s...'' [ArgStr (bytes name)] s)))"

definition kmain :: "'e boot_env_scheme \<Rightarrow> device \<Rightarrow> 'a proc_scheme \<Rightarrow> 'a proc_scheme" where
  "kmain be dev s =
     (let env = shell_env.truncate be;
          s1 = clearScreen (moveCursor 0 0 (print env ''\<newline>'' [] s));
          s2 = print env ''LanternOS v%s, copyright (c) 2026 hackifiery. All rights reserved.\<newline>'' [ArgStr (sh_version be)] s1;
          s3 = print env ''Built with picolibc %s\<newline>\<newline>'' [ArgStr (bt_libc_version be)] s2;
          s4 = announce be ''IDT'' (initIdt (bt_addr be) (bt_idt be)) s3;
          s5 = announce be ''GDT'' (initGdt (bt_gdt be) (bt_tss be) (bt_tss_top be)) s4;
          s6 = announce be ''interrupts'' id s5;
          s7 = announce be ''ATA'' (\<lambda>t. snd (ataIdentify dev (bt_shift be) t)) s6;
          s8 = announce be ''tar driver'' (tarLoad dev) s7;
          s9 = announce be ''timer'' (\<lambda>t. the (initTimer 100 t)) s8;
          s10 = enableCursor dev 14 15 s9;
          s11 = print env ''\<newline>Welcome to the lanternOS shell\<newline>Report bugs at https://github.com/hackifiery/lantern-os.\<newline>'' [] s10
      in print env ''Type 'help' for commands.\<newline>\<newline>'' [] s11)"

end
