(* ===== verification/Kernel_Runs.thy ===== *)
theory Kernel_Runs
  imports Shell
begin

text \<open>
  What the components do together: system calls over files and user memory, and shell commands over
  the archive and the disk.
\<close>

section \<open>Output leaves the disk and the archive alone\<close>

lemma drive_moveCursor [simp]: "drive_after d0 k (trace (moveCursor x y s)) = drive_after d0 k (trace s)"
  by (simp add: moveCursor_trace)

lemma drive_writeChar [simp]: "drive_after d0 k (trace (writeChar c s)) = drive_after d0 k (trace s)"
proof -
  have "trace (put_cell c t) = trace t" "trace (scroll t) = trace t" for c and t :: "'a console_scheme"
    by (simp_all add: put_cell_def scroll_def Let_def)
  then show ?thesis by (simp add: writeChar_shape fit_cursor_def Let_def)
qed

lemma drive_fold_writeChar [simp]:
  "drive_after d0 k (trace (fold writeChar cs s)) = drive_after d0 k (trace s)"
  by (induction cs arbitrary: s) simp_all

lemma drive_writeStr [simp]: "drive_after d0 k (trace (writeStr cs s)) = drive_after d0 k (trace s)"
  by (induction cs s rule: writeStr.induct) simp_all

lemma print_writes: "print env fmt args s = fold writeChar (sh_printf env (bytes fmt) args) s"
  by (simp add: print_def stdout_put_def)

lemma print_disk [simp]:
  "ata_ready dev d0 k (print env fmt args s) = ata_ready dev d0 k s"
  "disk_buffer d0 k (print env fmt args s) = disk_buffer d0 k s"
  by (simp_all add: print_writes ata_ready_def ata_sector_def disk_buffer_def fun_eq_iff)

lemma writeStr_disk [simp]:
  "ata_ready dev d0 k (writeStr cs s) = ata_ready dev d0 k s"
  "disk_buffer d0 k (writeStr cs s) = disk_buffer d0 k s"
  by (simp_all add: ata_ready_def ata_sector_def disk_buffer_def fun_eq_iff)

lemma print_tarBuf [simp]: "tarBuf (print env fmt args s) = tarBuf s"
proof -
  have "tarBuf (fold writeChar cs s) = tarBuf s" for cs by (induction cs arbitrary: s) simp_all
  then show ?thesis by (simp add: print_writes)
qed

lemma tarLoad_disk_buffer [simp]:
  assumes "ata_ready dev d0 k s"
  shows "disk_buffer d0 k (tarLoad dev s) = disk_buffer d0 k s"
  using tarLoad_prefix [OF assms order_refl] by (simp add: disk_buffer_def tarLoad_def fun_eq_iff)

lemma blocking_disk [simp]:
  "ata_ready dev d0 k (s\<lparr>blocking := x\<rparr>) = ata_ready dev d0 k s"
  "disk_buffer d0 k (s\<lparr>blocking := x\<rparr>) = disk_buffer d0 k s"
  by (simp_all add: ata_ready_def ata_sector_def disk_buffer_def fun_eq_iff)

section \<open>Shell commands over the archive\<close>

lemma sh_turn_cmds:
  "tokenize line 16 = bytes ''touch'' # ts \<Longrightarrow>
     sh_turn env trap dev line input s = next_turn (cmd_touch dev (bytes ''touch'' # ts) s)"
  "tokenize line 16 = bytes ''rm'' # ts \<Longrightarrow>
     sh_turn env trap dev line input s = next_turn (cmd_rm env dev (bytes ''rm'' # ts) s)"
  "tokenize line 16 = bytes ''cat'' # ts \<Longrightarrow>
     sh_turn env trap dev line input s = cmd_cat env dev (bytes ''cat'' # ts) input s"
  "tokenize line 16 = bytes ''echo'' # ts \<Longrightarrow>
     sh_turn env trap dev line input s = cmd_echo env dev (bytes ''echo'' # ts) input s"
  by (simp_all add: sh_turn_def Let_def)

lemma touch_on_disk:
  assumes "ata_ready dev d0 k s" "archive (tarBuf s) es" "map_of es f = None" "cstring f"
    "length f < 100" "end_of 0 es + 1024 \<le> TAR_BUF_SIZE"
    and "tokenize line 16 = [bytes ''touch'', f]"
  shows "\<exists>s'. sh_turn env trap dev line input s = Inr (Next s') \<and> ata_ready dev d0 k s' \<and>
    archive (tarBuf s') (es @ [(f, [])]) \<and> archive (disk_buffer d0 k s') (es @ [(f, [])])"
proof -
  obtain b where b: "tarTouch (tarBuf s) f = Inr (1, b)" "archive b (es @ [(f, [])])"
    using tarTouch_archive [OF assms(2-6)] by blast
  let ?s = "s\<lparr>tarBuf := b\<rparr>"
  have r: "ata_ready dev d0 k ?s" using assms(1) by simp
  have "sh_turn env trap dev line input s = Inr (Next (tarFlush dev ?s))"
    using b(1) by (simp add: sh_turn_cmds(1) [OF assms(7)] next_turn_def cmd_touch_def tok_def)
  moreover have "archive (tarBuf (tarFlush dev ?s)) (es @ [(f, [])])"
    using tarFlush_disk(2) [OF r] b(2) by simp
  moreover have "archive (disk_buffer d0 k (tarFlush dev ?s)) (es @ [(f, [])])"
    using tarFlush_archive [OF r] b(2) by simp
  ultimately show ?thesis using tarFlush_disk(1) [OF r] by blast
qed

lemma remove_file_names: "e \<in> set (remove_file f es) \<Longrightarrow> e \<in> set es"
  by (induction es) (auto split: if_splits)

lemma rm_on_disk:
  assumes "ata_ready dev d0 k s" "archive (tarBuf s) es" "map_of es f = Some d"
    "\<forall>e\<in>set es. fst e \<noteq> []" "f \<noteq> bytes ''-l''"
    and "tokenize line 16 = [bytes ''rm'', f]"
  shows "\<exists>s'. sh_turn env trap dev line input s = Inr (Next s') \<and> ata_ready dev d0 k s' \<and>
    archive (tarBuf s') (remove_file f es) \<and> archive (disk_buffer d0 k s') (remove_file f es)"
proof -
  let ?es = "remove_file f es"
  obtain b where b: "tarRm (tarBuf s) f = Inr (1, b)" "archive b ?es"
    using tarRm_archive [OF assms(2) archive_names(1) [OF assms(2,3)] assms(3)] by blast
  define s1 where "s1 = print env ''removed from buffer\<newline>'' [] (s\<lparr>tarBuf := b\<rparr>)"
  define s2 where "s2 = tarFlush dev s1"
  define s3 where "s3 = tarLoad dev (print env ''flushed to disk\<newline>'' [] s2)"
  define s4 where "s4 = print env ''reloaded, verifying...\<newline>'' [] s3"
  have 1: "ata_ready dev d0 k s1" "archive (tarBuf s1) ?es" using assms(1) b(2) by (simp_all add: s1_def)
  have 2: "ata_ready dev d0 k s2" "archive (disk_buffer d0 k s2) ?es"
    using tarFlush_disk(1) [OF 1(1)] tarFlush_archive [OF 1] by (simp_all add: s2_def)
  have 3: "ata_ready dev d0 k s3" "archive (tarBuf s3) ?es" "archive (disk_buffer d0 k s3) ?es"
    using tarLoad_disk(1) [of dev d0 k "print env ''flushed to disk\<newline>'' [] s2"]
      tarLoad_archive [of dev d0 k "print env ''flushed to disk\<newline>'' [] s2" ?es] 2
    by (simp_all add: s3_def)
  have "\<forall>e\<in>set ?es. fst e \<noteq> []" using assms(4) remove_file_names by blast
  then have l: "tarList f s4 = Inr (writeStr (listing ?es) s4)"
    using tarList_archive [of s4 ?es f] 3(2) assms(5) by (simp add: s4_def)
  have "sh_turn env trap dev line input s = next_turn (tarList f s4)"
    using b(1) by (simp add: sh_turn_cmds(2) [OF assms(6)] cmd_rm_def tok_def s1_def s2_def s3_def s4_def)
  then have "sh_turn env trap dev line input s = Inr (Next (writeStr (listing ?es) s4))"
    using l by (simp add: next_turn_def)
  then show ?thesis using 3 by (intro exI [where x = "writeStr (listing ?es) s4"]) (simp add: s4_def)
qed

text \<open>\<open>cat\<close> reloads the archive and types the file; a file that is not there is a bad pointer.\<close>

lemma cat_file:
  assumes "ata_ready dev d0 k s" "archive (disk_buffer d0 k s) es" "cstring f" "f \<noteq> bytes ''>''"
    and "tokenize line 16 = [bytes ''cat'', f]"
  shows "map_of es f = Some d \<Longrightarrow> sh_turn env trap dev line input s =
      Inr (Next (writeStr (filter (\<lambda>c. c \<noteq> 0) d) (tarLoad dev s)))"
    and "map_of es f = None \<Longrightarrow> sh_turn env trap dev line input s = Inl BadPointer"
proof -
  have a: "archive (tarBuf (tarLoad dev s)) es" by (rule tarLoad_archive [OF assms(1,2)])
  note turn = sh_turn_cmds(3) [OF assms(5)] cmd_cat_def tok_def
  show "map_of es f = Some d \<Longrightarrow> sh_turn env trap dev line input s =
      Inr (Next (writeStr (filter (\<lambda>c. c \<noteq> 0) d) (tarLoad dev s)))"
    using tarPrintFile_archive [OF a assms(3)] assms(4) by (simp add: turn)
  show "map_of es f = None \<Longrightarrow> sh_turn env trap dev line input s = Inl BadPointer"
    using tarPrintFile_missing [OF a assms(3)] assms(4) by (simp add: turn)
qed

text \<open>\<open>cat > f\<close> empties the file on the disk, whatever is typed.\<close>

lemma cat_into_file:
  assumes "ata_ready dev d0 k s" "archive (disk_buffer d0 k s) es" "map_of es f = Some d"
    "distinct (map fst es)" "length input < 256"
    and "tokenize line 16 = [bytes ''cat'', bytes ''>'', f]"
  shows "\<exists>s'. sh_turn env trap dev line input s = Inr (Next s') \<and> ata_ready dev d0 k s' \<and>
    archive (disk_buffer d0 k s') (remove_file f es @ [(f, [])])"
proof -
  let ?es = "remove_file f es @ [(f, [])]" and ?s1 = "(tarLoad dev s)\<lparr>blocking := 0\<rparr>"
  have a: "archive (tarBuf ?s1) es" using tarLoad_archive [OF assms(1,2)] by simp
  have r: "ata_ready dev d0 k ?s1" using tarLoad_disk(1) [OF assms(1)] by simp
  note f = archive_names(1) [OF a assms(3)]
  obtain b where b: "tarEdit (tarBuf ?s1) f input (of_nat (length input)) = Inr (1, b)" "archive b ?es"
    using tarEdit_archive [OF a f assms(3,4)] by blast
  have r2: "ata_ready dev d0 k (?s1\<lparr>tarBuf := b\<rparr>)" using r by simp
  let ?s' = "(tarFlush dev (?s1\<lparr>tarBuf := b\<rparr>))\<lparr>blocking := 1\<rparr>"
  have "sh_turn env trap dev line input s = Inr (Next ?s')"
    using b(1) assms(5)
    by (simp add: sh_turn_cmds(3) [OF assms(6)] cmd_cat_def tok_def edit_from_input_def Let_def)
  moreover have "archive (disk_buffer d0 k ?s') ?es" using tarFlush_archive [OF r2] b(2) by simp
  moreover have "ata_ready dev d0 k ?s'" using tarFlush_disk(1) [OF r2] by simp
  ultimately show ?thesis by blast
qed

section \<open>Files through system calls\<close>

lemma umem_bytes_nth [simp]: "length (umem_bytes m p n) = n"
  by (simp add: umem_bytes_def)

lemma umem_store_bytes:
  assumes "length bs < 2 ^ 32"
  shows "umem_bytes (umem_store m p bs) p (length bs) = bs"
  using assms by (intro nth_equalityI) (simp_all add: umem_bytes_def umem_store_apply unat_small)

text \<open>\<open>read\<close> on an open file puts the next bytes of the file at the buffer.\<close>

lemma sys_read_file:
  assumes "archive (tarBuf s) es" "fd_on s k es j pos" "f_ebx regs = of_nat k + 3"
    "pos + unat (f_edx regs) < 2 ^ 32"
  defines "m \<equiv> min (unat (f_edx regs)) (length (snd (es ! j)) - pos)"
  shows "\<exists>s'. sys_read dev polls regs s = Inr (Some (of_nat m), s') \<and> fd_on s' k es j (pos + m) \<and>
    tarBuf s' = tarBuf s \<and> umem_bytes (umem s') (f_ecx regs) m = take m (drop pos (snd (es ! j)))"
proof -
  obtain s1 where s1: "read_file dev polls (of_nat k + 3) (f_edx regs) s =
        Inr (of_nat m, take m (drop pos (snd (es ! j))), s1)"
      "fd_on s1 k es j (pos + m)" "tarBuf s1 = tarBuf s"
    using read_fd_on [OF assms(1,2,4), of dev polls] unfolding m_def by blast
  have k: "k < FD_MAX_FILES" "pos \<le> length (snd (es ! j))" using assms(2) by (simp_all add: fd_on_def Let_def)
  let ?bs = "take m (drop pos (snd (es ! j)))"
  let ?s' = "s1\<lparr>umem := umem_store (umem s1) (f_ecx regs) ?bs\<rparr>"
  have "sys_read dev polls regs s = Inr (Some (of_nat m), ?s')"
    using s1(1) fd_number(1) [OF k(1)] assms(3) by (simp add: sys_read_def syscall_macros kread_impl_def)
  moreover have "fd_on ?s' k es j (pos + m)" using s1(2) by (simp add: fd_on_def)
  moreover have len: "length ?bs = m" by (simp add: m_def)
  have "m < 2 ^ 32" using fd_on_bounds(1) [OF assms(1,2)] by (simp add: m_def)
  then have "umem_bytes (umem ?s') (f_ecx regs) m = ?bs"
    using umem_store_bytes [of ?bs "umem s1" "f_ecx regs"] len by simp
  ultimately show ?thesis using s1(3) by (intro exI [where x = ?s']) simp
qed

lemma write_file_trace:
  assumes "write_file fd src count s = Inr (r, s')" "fd \<noteq> 1" "fd \<noteq> 2"
  shows "trace s' = trace s"
proof (cases "fd_index fd")
  case (Inl e)
  then show ?thesis using assms by (auto simp: write_file_def split: if_splits)
next
  case (Inr i)
  show ?thesis
  proof (cases i)
    case None
    then show ?thesis using assms Inr by (auto simp: write_file_def split: if_splits)
  next
    case (Some k)
    then show ?thesis
      using assms Inr
      by (cases "fd_data (fdTable s k)") (auto simp: write_file_def Let_def split: if_splits)
  qed
qed

text \<open>
  \<open>write\<close> and then \<open>close\<close>: the bytes of the program replace those of the file, in memory and, once
  the descriptor is closed, on the disk.
\<close>

lemma sys_write_close:
  assumes "ata_ready dev d0 kk s" "archive (tarBuf s) es" "fd_on s k es j pos"
    "pos < length (snd (es ! j))" "pos + unat (f_edx wr) < 2 ^ 32"
    "f_ebx wr = of_nat k + 3" "f_ebx cl = of_nat k + 3"
  defines "m \<equiv> min (unat (f_edx wr)) (length (snd (es ! j)) - pos)"
  defines "new \<equiv> take pos (snd (es ! j)) @ umem_bytes (umem s) (f_ecx wr) m @ drop (pos + m) (snd (es ! j))"
  shows "\<exists>s1 s2. sys_write wr s = Inr (Some (of_nat m), s1) \<and> sys_close dev cl s1 = Inr (Some 0, s2) \<and>
    isInUse (fdTable s2 k) = 0 \<and> archive (disk_buffer d0 kk s2) (es[j := (fst (es ! j), new)])"
proof -
  let ?src = "umem_bytes (umem s) (f_ecx wr) (unat (f_edx wr))"
  have "take m ?src = umem_bytes (umem s) (f_ecx wr) m"
    by (simp add: umem_bytes_def take_map m_def)
  then obtain s1 where s1: "write_file (of_nat k + 3) ?src (f_edx wr) s = Inr (of_nat m, s1)"
      "archive (tarBuf s1) (es[j := (fst (es ! j), new)])" "dirty (fdTable s1 k) = 1"
      "fd_on s1 k (es[j := (fst (es ! j), new)]) j (pos + m)"
    using write_fd_on [OF assms(2,3,5,4), of ?src] unfolding m_def new_def by auto
  have "k < FD_MAX_FILES" using assms(3) by (simp add: fd_on_def Let_def)
  then have tr: "trace s1 = trace s" using write_file_trace [OF s1(1)] fd_number by blast
  have r1: "ata_ready dev d0 kk s1" using assms(1) tr by (simp add: ata_ready_def)
  obtain s2 where s2: "close_file dev (of_nat k + 3) s1 = (0, s2)" "isInUse (fdTable s2 k) = 0"
      "tarBuf s2 = tarBuf s1"
      "\<forall>i<TAR_MAX_SECTORS. ata_sector d0 kk s2 (TAR_START_LBA + of_nat i) = load_words (tarBuf s1) (i * 512) 256"
    using close_fd_on [OF s1(4) r1] s1(3) by auto
  have "archive (disk_buffer d0 kk s2) (es[j := (fst (es ! j), new)])"
  proof (rule archive_cong [OF s1(2)])
    fix q assume "q < TAR_BUF_SIZE"
    then have "q div 512 < TAR_MAX_SECTORS" by (simp add: div_less_iff_less_mult)
    then show "disk_buffer d0 kk s2 q = tarBuf s1 q"
      using s2(4) word_byte_load [of "q mod 512" 256 "tarBuf s1" "q div 512 * 512"]
      by (simp add: disk_buffer_def)
  qed
  then show ?thesis
    using s1(1) s2 assms(6,7) by (simp add: sys_write_def sys_close_def syscall_macros)
qed

end
