(* ===== verification/Examples.thy ===== *)
theory Examples
  imports Kernel_Runs
begin

text \<open>
  Concrete inputs for the witnesses of the properties: an archive of two files, a drive, and states
  of the kernel built from them.
\<close>

section \<open>An archive\<close>

text \<open>A file with content, written after the files that are there.\<close>

definition put_file :: "nat \<Rightarrow> u8 list \<Rightarrow> u8 list \<Rightarrow> buffer \<Rightarrow> buffer" where
  "put_file p f d buf =
     write_bytes
       (write_bytes (fill_header p (write_bytes buf p (f @ [0]))) (p + AT_SIZE) (bin2oct_padded (of_nat (length d)) 11))
       (p + 512) d"

lemma archive_put:
  assumes "archive buf es" "cstring f" "length f < 100"
    and room: "end_of 0 es + span (length d) + 512 \<le> TAR_BUF_SIZE"
  shows "archive (put_file (end_of 0 es) f d buf) (es @ [(f, d)])"
proof -
  define p where "p = end_of 0 es"
  define b0 where "b0 = write_bytes buf p (f @ [0])"
  define b1 where "b1 = write_bytes (fill_header p b0) (p + AT_SIZE) (bin2oct_padded (of_nat (length d)) 11)"
  define b where "b = write_bytes b1 (p + 512) d"
  have put: "put_file (end_of 0 es) f d buf = b"
    by (simp add: put_file_def b_def b1_def b0_def p_def)
  have le: "p + 512 + length d \<le> p + span (length d)" using span_bounds(1) [of "length d"] by simp
  have out: "b i = buf i" if "i < p \<or> p + span (length d) \<le> i" for i
    using that le assms(3) fill_header_outside [of i p b0]
    by (auto simp: b_def b1_def b0_def write_bytes_apply)
  have head: "field b (p + a) n = field b1 (p + a) n" if "a + n \<le> 512" for a n
    unfolding b_def by (rule field_apart) (use that in simp)
  have "field b p (length f + 1) = f @ [0]"
  proof -
    have "field b p (length f + 1) = field b1 p (length f + 1)"
      using head [of 0 "length f + 1"] assms(3) by simp
    also have "\<dots> = field (fill_header p b0) p (length f + 1)"
      unfolding b1_def by (rule field_apart) (use assms(3) in simp)
    also have "\<dots> = take (length f + 1) (field (fill_header p b0) p 100)"
      using assms(3) by (intro nth_equalityI) simp_all
    also have "\<dots> = take (length f + 1) (field b0 p 100)" by (simp add: fill_header_fields)
    also have "\<dots> = field b0 p (length f + 1)"
      using assms(3) by (intro nth_equalityI) simp_all
    also have "\<dots> = f @ [0]" unfolding b0_def by (rule field_at_write) simp_all
    finally show ?thesis .
  qed
  moreover have "tarValid b p"
  proof -
    have "field b (p + AT_USTAR) 5 = field (fill_header p b0) (p + AT_USTAR) 5"
      using head [of AT_USTAR 5] by (simp add: b1_def field_apart)
    moreover have "b (p + AT_TYPE) = fill_header p b0 (p + AT_TYPE)"
      by (simp add: b_def b1_def write_bytes_apply)
    ultimately show ?thesis by (simp add: tarValid_def fill_header_fields)
  qed
  moreover have "header_size b p = of_nat (length d)"
    using head [of AT_SIZE 11] unfolding header_size_def b1_def by (simp add: field_at_write)
  moreover have "field b (p + 512) (length d) = d" unfolding b_def by (rule field_at_write) simp_all
  ultimately have "entry_at b p (f, d)"
    using assms(2,3) room by (simp add: entry_at_def p_def)
  moreover have "entries_at b 0 es"
    using assms(1) out by (intro entries_at_cong [of buf 0 es b]) (auto simp: archive_def p_def)
  moreover have "zero_from b (p + span (length d))"
    using assms(1) out room span_bounds(3) [of "length d"] by (auto simp: zero_from_def archive_def p_def)
  ultimately show ?thesis unfolding put by (simp add: archive_def p_def)
qed

definition empty_buf :: buffer where
  "empty_buf = (\<lambda>i. 0)"

definition file_a :: tar_file where
  "file_a = (bytes ''a'', bytes ''hello'')"

definition file_b :: tar_file where
  "file_b = (bytes ''b'', [])"

definition ex_files :: "tar_file list" where
  "ex_files = [file_a, file_b]"

definition ex_buf :: buffer where
  "ex_buf = put_file 1024 (fst file_b) (snd file_b) (put_file 0 (fst file_a) (snd file_a) empty_buf)"

lemma archive_empty: "archive empty_buf []"
  by (simp add: archive_def zero_from_def empty_buf_def)

lemma ex_archive: "archive ex_buf ex_files"
proof -
  have 1: "archive (put_file 0 (fst file_a) (snd file_a) empty_buf) [file_a]"
    using archive_put [OF archive_empty, of "fst file_a" "snd file_a"] by (simp add: file_a_def span_def)
  have "end_of 0 [file_a] = 1024" by (simp add: file_a_def span_def)
  then show ?thesis
    using archive_put [OF 1, of "fst file_b" "snd file_b"]
    by (simp add: ex_buf_def ex_files_def file_b_def span_def)
qed

lemma ex_files_facts:
  "map_of ex_files (bytes ''a'') = Some (bytes ''hello'')" "map_of ex_files (bytes ''b'') = Some []"
  "map_of ex_files (bytes ''c'') = None" "distinct (map fst ex_files)" "end_of 0 ex_files = 1536"
  "\<forall>e\<in>set ex_files. fst e \<noteq> []" "ex_files ! 0 = file_a" "length ex_files = 2"
  by (simp_all add: ex_files_def file_a_def file_b_def span_def)

section \<open>A drive and a kernel state\<close>

definition ex_drive :: drive where
  "ex_drive = \<lparr>disk = (\<lambda>l j. 0), lba_low = 0, lba_mid = 0, lba_high = 0, lba_head = 0, dmode = Ready, busy = 0\<rparr>"

definition ex_dev :: device where
  "ex_dev = pio_drive ex_drive 2"

definition closed_fd :: FileDesc where
  "closed_fd = \<lparr>fd_name = [], isInUse = 0, dirty = 0, fd_data = None, fd_size = 0, rwPos = 0, fd_flags = 0\<rparr>"

definition ex_state :: "buffer \<Rightarrow> (nat \<Rightarrow> FileDesc) \<Rightarrow> proc" where
  "ex_state buf fds =
     \<lparr>trace = [], vram = (\<lambda>a. 0), cursorX = 0, cursorY = 0, COLOR = 0x0F,
      keyBuffer = (\<lambda>i. 0), head = 0, tail = 0, shiftActive = 0, capsLockActive = 0, controlActive = 0,
      eofTrigger = 0, blocking = 1, arrow = 0, tarBuf = buf, fdTable = fds,
      gdt = (\<lambda>n. gdt_entry 0 0 0 0), gdtp_limit = 0, gdtp_base = 0, tss = zero_tss,
      idt = (\<lambda>n. gate 0 0), idtp_limit = 0, idtp_base = 0, sysTicks = 0,
      umem = (\<lambda>a. 0), heap_brk = 0, stdinBuf = (\<lambda>i. 0), stdinBufLen = 0, stdinBufPos = 0,
      stdinLineReady = 0, errnum = 0\<rparr>"

text \<open>All descriptors closed; slot 0 open on the first file at a position.\<close>

definition st0 :: proc where
  "st0 = ex_state ex_buf (\<lambda>i. closed_fd)"

definition st_open :: "u32 \<Rightarrow> proc" where
  "st_open pos = ex_state ex_buf ((\<lambda>i. closed_fd)(0 :=
     \<lparr>fd_name = bytes ''a'', isInUse = 1, dirty = 0, fd_data = Some 512, fd_size = 5, rwPos = pos, fd_flags = 0\<rparr>))"

lemma ex_state_fields [simp]:
  "trace (ex_state b f) = []" "tarBuf (ex_state b f) = b" "fdTable (ex_state b f) = f"
  "blocking (ex_state b f) = 1" "controlActive (ex_state b f) = 0" "umem (ex_state b f) = (\<lambda>a. 0)"
  "COLOR (ex_state b f) = 0x0F"
  by (simp_all add: ex_state_def)

lemma ex_state_invs [simp]:
  "console_inv (ex_state b f)" "keyboard_inv (ex_state b f)" "pending (ex_state b f) = []"
  "ata_ready ex_dev ex_drive 2 (ex_state b f)"
  by (simp_all add: ex_state_def console_inv_def keyboard_inv_def pending_def ring_used_def
      ata_ready_def ex_dev_def pio_drive_ok) (simp_all add: ex_drive_def)

lemma st0_facts: "tarBuf st0 = ex_buf" "ata_ready ex_dev ex_drive 2 st0" "archive (tarBuf st0) ex_files"
  by (simp_all add: st0_def ex_archive)

lemma st_open_on: "pos \<le> 5 \<Longrightarrow> fd_on (st_open (of_nat pos)) 0 ex_files 0 pos"
  by (simp add: st_open_def fd_on_def Let_def ex_files_facts file_a_def)

lemma st_open_archive: "archive (tarBuf (st_open pos)) ex_files" "ata_ready ex_dev ex_drive 2 (st_open pos)"
  by (simp_all add: st_open_def ex_archive)

text \<open>The same archive on the disk.\<close>

definition st_disk :: proc where
  "st_disk = tarFlush ex_dev st0"

lemma st_disk_facts:
  "ata_ready ex_dev ex_drive 2 st_disk" "archive (disk_buffer ex_drive 2 st_disk) ex_files"
  using tarFlush_disk(1) [OF st0_facts(2)] tarFlush_archive [OF st0_facts(2,3)]
  by (simp_all add: st_disk_def)

section \<open>Keys\<close>

text \<open>A state in which some keys were typed ahead.\<close>

definition st_keys :: "u8 list \<Rightarrow> proc" where
  "st_keys ks = st0\<lparr>keyBuffer := (\<lambda>i. if i < length ks then ks ! i else 0), head := length ks\<rparr>"

definition ex_env :: shell_env where
  "ex_env = \<lparr>sh_printf = (\<lambda>fmt args. []), sh_cpuid = (\<lambda>l. (0, 0)), sh_entries = [], sh_kernel = (0, 0),
     sh_version = [], sh_build = ([], []), sh_stack = []\<rparr>"

definition ex_regs :: "u32 \<Rightarrow> u32 \<Rightarrow> u32 \<Rightarrow> InterruptFrame" where
  "ex_regs a b c =
     \<lparr>f_ebx = a, f_ecx = b, f_edx = c, f_esi = 0, f_edi = 0, f_ebp = 0, f_eax = 0, f_xds = 0, f_xes = 0,
      f_xfs = 0, f_xgs = 0, orig_eax = 0\<rparr>"

end
