(* ===== verification/Simulation.thy ===== *)
theory Simulation
  imports Lantern_Prelude
begin

text \<open>
  Sequences of calls and their specification: an operation that may fail, an abstract operation that
  says what it returns and how the abstract state changes, and the simulation between them as an
  interface. Whoever simulates one call simulates every sequence of admissible calls.
\<close>

section \<open>Runs\<close>

text \<open>The outputs of a list of calls, and the state after them; the first fault ends the run.\<close>

fun run_calls :: "('c \<Rightarrow> 's \<Rightarrow> fault + 'o \<times> 's) \<Rightarrow> 'c list \<Rightarrow> 's \<Rightarrow> fault + 'o list \<times> 's" where
  "run_calls step [] s = Inr ([], s)"
| "run_calls step (c # cs) s =
     bindR (step c s) (\<lambda>(x, s1). bindR (run_calls step cs s1) (\<lambda>(xs, s2). Inr (x # xs, s2)))"

fun run_spec :: "('c \<Rightarrow> 'a \<Rightarrow> 'o \<times> 'a) \<Rightarrow> 'c list \<Rightarrow> 'a \<Rightarrow> 'o list \<times> 'a" where
  "run_spec spec [] a = ([], a)"
| "run_spec spec (c # cs) a =
     (let (x, a1) = spec c a; (xs, a2) = run_spec spec cs a1 in (x # xs, a2))"

text \<open>Every call of the list is admissible where the specification has got to.\<close>

fun admissible :: "('c \<Rightarrow> 'a \<Rightarrow> bool) \<Rightarrow> ('c \<Rightarrow> 'a \<Rightarrow> 'o \<times> 'a) \<Rightarrow> 'c list \<Rightarrow> 'a \<Rightarrow> bool" where
  "admissible ok spec [] a = True"
| "admissible ok spec (c # cs) a = (ok c a \<and> admissible ok spec cs (snd (spec c a)))"

lemma length_run_spec [simp]: "length (fst (run_spec spec cs a)) = length cs"
  by (induction cs arbitrary: a) (simp_all add: case_prod_beta Let_def)

lemma admissible_append [simp]:
  "admissible ok spec (cs @ ds) a \<longleftrightarrow>
     admissible ok spec cs a \<and> admissible ok spec ds (snd (run_spec spec cs a))"
  by (induction cs arbitrary: a) (simp_all add: case_prod_beta Let_def)

text \<open>The same calls with other outputs.\<close>

lemma run_calls_outputs:
  assumes "\<And>c s. step' c s = bindR (step c s) (\<lambda>(r, t). Inr (g c, t))"
  shows "run_calls step' cs s = bindR (run_calls step cs s) (\<lambda>(rs, t). Inr (map g cs, t))"
proof (induction cs arbitrary: s)
  case (Cons c cs)
  show ?case
  proof (cases "step c s")
    case (Inr y)
    obtain r t where y: "y = (r, t)" by (cases y)
    show ?thesis by (cases "run_calls step cs t") (auto simp: assms [of c s] Inr y Cons)
  qed (simp add: assms [of c s])
qed simp

section \<open>Simulation\<close>

locale simulation =
  fixes step :: "'c \<Rightarrow> 's \<Rightarrow> fault + 'o \<times> 's"
    and spec :: "'c \<Rightarrow> 'a \<Rightarrow> 'o \<times> 'a"
    and ok :: "'c \<Rightarrow> 'a \<Rightarrow> bool"
    and rel :: "'s \<Rightarrow> 'a \<Rightarrow> bool"
  assumes simulates: "rel s a \<Longrightarrow> ok c a \<Longrightarrow>
      \<exists>s'. step c s = Inr (fst (spec c a), s') \<and> rel s' (snd (spec c a))"
begin

text \<open>No admissible run faults, it returns what the specification says, and ends related.\<close>

lemma run_simulates:
  "rel s a \<Longrightarrow> admissible ok spec cs a \<Longrightarrow>
     \<exists>s'. run_calls step cs s = Inr (fst (run_spec spec cs a), s') \<and> rel s' (snd (run_spec spec cs a))"
proof (induction cs arbitrary: s a)
  case (Cons c cs)
  obtain s1 where s1: "step c s = Inr (fst (spec c a), s1)" "rel s1 (snd (spec c a))"
    using simulates [OF Cons.prems(1)] Cons.prems(2) by auto
  obtain s2 where "run_calls step cs s1 = Inr (fst (run_spec spec cs (snd (spec c a))), s2)"
      "rel s2 (snd (run_spec spec cs (snd (spec c a))))"
    using Cons.IH [OF s1(2)] Cons.prems(2) by auto
  with s1 show ?case by (simp add: case_prod_beta Let_def)
qed simp

text \<open>An invariant of the specification holds in what the program computes.\<close>

lemma run_invariant:
  assumes "rel s a" "admissible ok spec cs a" "I a" "\<And>c a. I a \<Longrightarrow> I (snd (spec c a))"
  shows "\<exists>s' a'. run_calls step cs s = Inr (fst (run_spec spec cs a), s') \<and> rel s' a' \<and> I a'"
proof -
  have "I (snd (run_spec spec cs b))" if "I b" for b
    using that by (induction cs arbitrary: b) (simp_all add: case_prod_beta Let_def assms(4))
  then show ?thesis using run_simulates [OF assms(1,2)] assms(3) by blast
qed

end

end
