(* ===== verification/Fd_Model.thy ===== *)
theory Fd_Model
  imports Examples Simulation
begin

text \<open>
  What the descriptor table promises: the calls of src/fd.c on a well-formed archive behave like a
  small file interface over a list of files and a table of positions. The simulation is the interface
  of Simulation, interpreted on \<open>open_file\<close>, \<open>read_file\<close>, \<open>write_file\<close> and \<open>close_file\<close>.
\<close>

section \<open>The specification\<close>

text \<open>A slot that is in use has the number of its file, the position, and whether it was written.\<close>

record file_api =
  api_files :: "tar_file list"
  api_disk :: "tar_file list"
  api_open :: "nat \<Rightarrow> (nat \<times> nat \<times> bool) option"

datatype fd_call = OpenF "u8 list" u32 | ReadF nat u32 | WriteF nat "u8 list" | CloseF nat

definition file_index :: "u8 list \<Rightarrow> tar_file list \<Rightarrow> nat" where
  "file_index f es = length (takeWhile (\<lambda>e. fst e \<noteq> f) es)"

definition api_free :: "(nat \<Rightarrow> (nat \<times> nat \<times> bool) option) \<Rightarrow> nat option" where
  "api_free tbl = find (\<lambda>k. tbl k = None) [0..<FD_MAX_FILES]"

definition api_create :: "u8 list \<Rightarrow> u32 \<Rightarrow> tar_file list \<Rightarrow> tar_file list option" where
  "api_create f flags es =
     (if map_of es f \<noteq> None then Some es else if flags AND O_CREAT \<noteq> 0 then Some (es @ [(f, [])]) else None)"

fun fd_spec :: "fd_call \<Rightarrow> file_api \<Rightarrow> (u32 \<times> u8 list) \<times> file_api" where
  "fd_spec (OpenF f flags) a =
     (case api_create f flags (api_files a) of
        None \<Rightarrow> ((- 1, []), a)
      | Some es \<Rightarrow>
          (case api_free (api_open a) of
             None \<Rightarrow> ((- 1, []), a\<lparr>api_files := es\<rparr>)
           | Some k \<Rightarrow> ((of_nat k + 3, []),
               a\<lparr>api_files := es, api_open := (api_open a)(k \<mapsto> (file_index f es, 0, False))\<rparr>)))"
| "fd_spec (ReadF k count) a =
     (case api_open a k of
        None \<Rightarrow> ((- 1, []), a)
      | Some (j, pos, w) \<Rightarrow>
          (let d = snd (api_files a ! j); m = min (unat count) (length d - pos)
           in ((of_nat m, take m (drop pos d)), a\<lparr>api_open := (api_open a)(k \<mapsto> (j, pos + m, w))\<rparr>)))"
| "fd_spec (WriteF k src) a =
     (case api_open a k of
        None \<Rightarrow> ((- 1, []), a)
      | Some (j, pos, w) \<Rightarrow>
          (let (f, d) = api_files a ! j; m = min (length src) (length d - pos)
           in if length d \<le> pos then ((0, []), a)
              else ((of_nat m, []),
                a\<lparr>api_files := (api_files a)[j := (f, take pos d @ take m src @ drop (pos + m) d)],
                  api_open := (api_open a)(k \<mapsto> (j, pos + m, True))\<rparr>)))"
| "fd_spec (CloseF k) a =
     (case api_open a k of
        None \<Rightarrow> ((- 1, []), a)
      | Some (j, pos, w) \<Rightarrow>
          ((0, []), a\<lparr>api_disk := (if w then api_files a else api_disk a), api_open := (api_open a)(k := None)\<rparr>))"

text \<open>
  The calls the specification covers: no truncation (which moves files under open descriptors), a slot
  of the table, a count that does not wrap, and room for a file that is created.
\<close>

fun fd_ok :: "fd_call \<Rightarrow> file_api \<Rightarrow> bool" where
  "fd_ok (OpenF f flags) a \<longleftrightarrow> flags AND O_TRUNC = 0 \<and> cstring f \<and> length f < 100 \<and>
     (map_of (api_files a) f = None \<longrightarrow> end_of 0 (api_files a) + 1024 \<le> TAR_BUF_SIZE)"
| "fd_ok (ReadF k count) a \<longleftrightarrow> k < FD_MAX_FILES \<and> unat count < 2 ^ 31"
| "fd_ok (WriteF k src) a \<longleftrightarrow> k < FD_MAX_FILES \<and> length src < 2 ^ 31"
| "fd_ok (CloseF k) a \<longleftrightarrow> k < FD_MAX_FILES"

section \<open>The calls of the code\<close>

fun do_fd_call :: "device \<Rightarrow> nat list \<Rightarrow> fd_call \<Rightarrow> 'a files_scheme \<Rightarrow> fault + (u32 \<times> u8 list) \<times> 'a files_scheme" where
  "do_fd_call dev polls (OpenF f flags) s = bindR (open_file f flags s) (\<lambda>(r, s1). Inr ((r, []), s1))"
| "do_fd_call dev polls (ReadF k count) s =
     bindR (read_file dev polls (of_nat k + 3) count s) (\<lambda>(r, bs, s1). Inr ((r, bs), s1))"
| "do_fd_call dev polls (WriteF k src) s =
     bindR (write_file (of_nat k + 3) src (of_nat (length src)) s) (\<lambda>(r, s1). Inr ((r, []), s1))"
| "do_fd_call dev polls (CloseF k) s = (let (r, s1) = close_file dev (of_nat k + 3) s in Inr ((r, []), s1))"

definition slot_rel :: "'a files_scheme \<Rightarrow> tar_file list \<Rightarrow> nat \<Rightarrow> (nat \<times> nat \<times> bool) option \<Rightarrow> bool" where
  "slot_rel s es k e =
     (case e of
        None \<Rightarrow> isInUse (fdTable s k) = 0
      | Some (j, pos, w) \<Rightarrow> fd_on s k es j pos \<and> (dirty (fdTable s k) \<noteq> 0 \<longleftrightarrow> w))"

definition fd_rel :: "device \<Rightarrow> drive \<Rightarrow> nat \<Rightarrow> 'a files_scheme \<Rightarrow> file_api \<Rightarrow> bool" where
  "fd_rel dev d0 kk s a \<longleftrightarrow>
     ata_ready dev d0 kk s \<and> archive (tarBuf s) (api_files a) \<and> archive (disk_buffer d0 kk s) (api_disk a) \<and>
     (\<forall>k<FD_MAX_FILES. slot_rel s (api_files a) k (api_open a k))"

section \<open>Other slots\<close>

lemma end_of_lengths:
  assumes "map (length \<circ> snd) es = map (length \<circ> snd) es'"
  shows "end_of p es = end_of p es'"
proof -
  have "end_of q fs = fold (\<lambda>n q. q + span n) (map (length \<circ> snd) fs) q" for q and fs :: "tar_file list"
    by (induction fs arbitrary: q) auto
  then show ?thesis by (simp only: assms)
qed

lemma slot_rel_same_sizes:
  assumes "slot_rel s es k e" "map (length \<circ> snd) es' = map (length \<circ> snd) es" "fdTable s' k = fdTable s k"
  shows "slot_rel s' es' k e"
proof (cases e)
  case None
  then show ?thesis using assms by (simp add: slot_rel_def)
next
  case (Some x)
  obtain j pos w where x: "x = (j, pos, w)" by (cases x)
  have on: "fd_on s k es j pos" using assms(1) by (simp add: slot_rel_def Some x)
  have len: "length es' = length es" using assms(2) by (metis length_map)
  have j: "j < length es" using on by (simp add: fd_on_def Let_def)
  have "length (snd (es' ! j)) = length (snd (es ! j))"
    using assms(2) j len by (metis (no_types) comp_apply nth_map)
  moreover have "map (length \<circ> snd) (take j es') = map (length \<circ> snd) (take j es)"
    using assms(2) by (metis take_map)
  then have "end_of 0 (take j es') = end_of 0 (take j es)" by (rule end_of_lengths)
  ultimately have "fd_on s' k es' j pos" using on len assms(3) by (simp add: fd_on_def Let_def)
  then show ?thesis using assms by (simp add: slot_rel_def Some x)
qed

lemma slot_rel_append:
  assumes "slot_rel s es k e" "fdTable s' k = fdTable s k"
  shows "slot_rel s' (es @ fs) k e"
  using assms by (auto simp: slot_rel_def fd_on_def Let_def nth_append split: option.splits)

text \<open>What a call leaves alone: the port history, and every other slot.\<close>

definition only_slot :: "nat \<Rightarrow> 'a files_scheme \<Rightarrow> 'a files_scheme \<Rightarrow> bool" where
  "only_slot k s s' \<longleftrightarrow> trace s' = trace s \<and> (\<forall>i. i \<noteq> k \<longrightarrow> fdTable s' i = fdTable s i)"

lemma only_slot_disk:
  assumes "only_slot k s s'"
  shows "ata_ready dev d0 kk s' = ata_ready dev d0 kk s" "disk_buffer d0 kk s' = disk_buffer d0 kk s"
  using assms by (simp_all add: only_slot_def ata_ready_def disk_buffer_def ata_sector_def fun_eq_iff)

lemma read_file_slot:
  assumes "read_file dev polls (of_nat k + 3) n s = Inr (r, bs, s')" "k < FD_MAX_FILES"
  shows "only_slot k s s' \<and> dirty (fdTable s' k) = dirty (fdTable s k)"
  using assms fd_number [OF assms(2)] fd_index_slot [OF assms(2)]
  by (cases "fd_data (fdTable s k)") (auto simp: read_file_def only_slot_def Let_def split: if_splits)

lemma write_file_slot:
  assumes "write_file (of_nat k + 3) src n s = Inr (r, s')" "k < FD_MAX_FILES"
  shows "only_slot k s s'"
  using assms fd_number [OF assms(2)] fd_index_slot [OF assms(2)]
  by (cases "fd_data (fdTable s k)") (auto simp: write_file_def only_slot_def Let_def split: if_splits)

section \<open>Opening\<close>

lemma file_index_step:
  "file_index f (e # es) = (if fst e = f then 0 else Suc (file_index f es))"
  by (simp add: file_index_def)

lemma file_index_pos:
  assumes "map_of es f = Some d"
  shows "file_index f es < length es \<and> es ! file_index f es = (f, d) \<and>
    pos_of p es f = Some (end_of p (take (file_index f es) es))"
  using assms
proof (induction es arbitrary: p)
  case (Cons e es)
  then show ?case by (cases e) (auto simp: file_index_step split: if_splits)
qed simp

lemma free_slot_api:
  assumes "\<forall>k<FD_MAX_FILES. slot_rel s es k (tbl k)"
  shows "free_slot (fdTable s) = api_free tbl"
proof -
  have "isInUse (fdTable s k) = 0 \<longleftrightarrow> tbl k = None" if "k < FD_MAX_FILES" for k
    using assms [rule_format, OF that] by (cases "tbl k") (auto simp: slot_rel_def fd_on_def Let_def)
  then show ?thesis
    unfolding free_slot_def api_free_def by (intro find_cong) auto
qed

text \<open>The descriptor that \<open>open\<close> fills in.\<close>

definition opened :: "u8 list \<Rightarrow> u8 list \<Rightarrow> u32 \<Rightarrow> nat \<Rightarrow> FileDesc" where
  "opened f d flags q =
     \<lparr>fd_name = f, isInUse = 1, dirty = 0, fd_data = Some (q + 512), fd_size = of_nat (length d),
      rwPos = 0, fd_flags = flags\<rparr>"

lemma open_slot:
  assumes "archive (tarBuf s) es" "map_of es f = Some d" "flags AND O_TRUNC = 0" "free_slot (fdTable s) = Some k"
  shows "open_file f flags s = Inr (of_nat k + 3,
    s\<lparr>fdTable := (fdTable s)(k := opened f d flags (end_of 0 (take (file_index f es) es)))\<rparr>)"
proof -
  note names = archive_names [OF assms(1,2)]
  have "pos_of 0 es f = Some (end_of 0 (take (file_index f es) es))"
    using file_index_pos [OF assms(2)] by blast
  then show ?thesis
    using tarFind_archive [OF assms(1) names(1)] tarGetSize_archive [OF assms(1) names(1)] names(2) assms(2-4)
    by (simp add: open_file_def find_or_create_def truncate_file_def opened_def Let_def)
qed

text \<open>A file that has to be created is opened as if it had been there.\<close>

lemma open_creates:
  assumes "archive (tarBuf s) es" "map_of es f = None" "cstring f" "flags AND O_CREAT \<noteq> 0"
    and "tarTouch (tarBuf s) f = Inr (1, b)" "archive b (es @ [(f, [])])"
  shows "open_file f flags s = open_file f flags (s\<lparr>tarBuf := b\<rparr>)"
proof -
  have "tarFind (tarBuf s) f = Inr None"
    using tarFind_archive [OF assms(1,3)] assms(2) pos_of_None [of 0 es f] by simp
  moreover have "map_of (es @ [(f, [])]) f = Some []" using assms(2) by (simp add: map_add_def)
  then obtain q where "tarFind b f = Inr (Some q)"
    using tarFind_archive [OF assms(6,3)] file_index_pos [of "es @ [(f, [])]" f "[]" 0] by auto
  ultimately show ?thesis
    using assms(4,5) by (simp add: open_file_def find_or_create_def)
qed

lemma slot_rel_other:
  "slot_rel s es i e \<Longrightarrow> fdTable s' i = fdTable s i \<Longrightarrow> slot_rel s' es i e"
  using slot_rel_append [of s es i e s' "[]"] by simp

lemma open_there:
  assumes "fd_rel dev d0 kk s a" "map_of (api_files a) f = Some d" "flags AND O_TRUNC = 0"
  shows "\<exists>s'. do_fd_call dev polls (OpenF f flags) s = Inr (fst (fd_spec (OpenF f flags) a), s') \<and>
    fd_rel dev d0 kk s' (snd (fd_spec (OpenF f flags) a))"
proof -
  let ?es = "api_files a" and ?j = "file_index f (api_files a)"
  have rel: "ata_ready dev d0 kk s" "archive (tarBuf s) ?es" "archive (disk_buffer d0 kk s) (api_disk a)"
    "\<forall>k<FD_MAX_FILES. slot_rel s ?es k (api_open a k)"
    using assms(1) by (simp_all add: fd_rel_def)
  have cr: "api_create f flags ?es = Some ?es" by (simp add: api_create_def assms(2))
  note slot = free_slot_api [OF rel(4)]
  show ?thesis
  proof (cases "api_free (api_open a)")
    case None
    then have "open_file f flags s = Inr (- 1, s)"
      using open_no_slot [OF rel(2) assms(2,3)] slot by simp
    then show ?thesis using None cr assms(1) by (simp add: fd_rel_def)
  next
    case (Some k)
    let ?s' = "s\<lparr>fdTable := (fdTable s)(k := opened f d flags (end_of 0 (take ?j ?es)))\<rparr>"
    have k: "k < FD_MAX_FILES" using free_slot_Some [of "fdTable s" k] Some slot by simp
    have "open_file f flags s = Inr (of_nat k + 3, ?s')"
      using open_slot [OF rel(2) assms(2,3), of k] Some slot by simp
    moreover have "slot_rel ?s' ?es k (Some (?j, 0, False))"
      using file_index_pos [OF assms(2)] k by (simp add: slot_rel_def fd_on_def Let_def opened_def)
    moreover have "slot_rel ?s' ?es i (api_open a i)" if "i < FD_MAX_FILES" "i \<noteq> k" for i
      using slot_rel_other [of s ?es i "api_open a i" ?s'] rel(4) that by simp
    moreover have "only_slot k s ?s'" by (simp add: only_slot_def)
    ultimately show ?thesis
      using Some cr rel(1-3) only_slot_disk [of k s ?s'] by (simp add: fd_rel_def)
  qed
qed

lemma open_simulates:
  assumes "fd_rel dev d0 kk s a" "fd_ok (OpenF f flags) a"
  shows "\<exists>s'. do_fd_call dev polls (OpenF f flags) s = Inr (fst (fd_spec (OpenF f flags) a), s') \<and>
    fd_rel dev d0 kk s' (snd (fd_spec (OpenF f flags) a))"
proof (cases "map_of (api_files a) f")
  case (Some d)
  then show ?thesis using open_there [OF assms(1)] assms(2) by simp
next
  case None
  let ?es = "api_files a"
  have rel: "ata_ready dev d0 kk s" "archive (tarBuf s) ?es" "archive (disk_buffer d0 kk s) (api_disk a)"
    "\<forall>k<FD_MAX_FILES. slot_rel s ?es k (api_open a k)"
    using assms(1) by (simp_all add: fd_rel_def)
  have f: "cstring f" "length f < 100" "end_of 0 ?es + 1024 \<le> TAR_BUF_SIZE" "flags AND O_TRUNC = 0"
    using assms(2) None by simp_all
  show ?thesis
  proof (cases "flags AND O_CREAT = 0")
    case True
    then have "open_file f flags s = Inr (- 1, s)" "api_create f flags ?es = None"
      using open_missing [OF rel(2) None f(1) True] None by (simp_all add: api_create_def)
    then show ?thesis using assms(1) by simp
  next
    case False
    obtain b where b: "tarTouch (tarBuf s) f = Inr (1, b)" "archive b (?es @ [(f, [])])"
      using tarTouch_archive [OF rel(2) None f(1,2,3)] by blast
    define t where "t = s\<lparr>tarBuf := b\<rparr>"
    define c where "c = a\<lparr>api_files := ?es @ [(f, [])]\<rparr>"
    have there: "map_of (api_files c) f = Some []" using None by (simp add: c_def map_add_def)
    have "slot_rel t (api_files c) i (api_open c i)" if "i < FD_MAX_FILES" for i
      using slot_rel_append [of s ?es i "api_open a i" t] rel(4) that by (simp add: t_def c_def)
    moreover have "only_slot 0 s t" by (simp add: only_slot_def t_def)
    ultimately have "fd_rel dev d0 kk t c"
      using rel(1,3) b(2) only_slot_disk [of 0 s t] by (simp add: fd_rel_def t_def c_def)
    note step = open_there [OF this there f(4), of polls]
    have "do_fd_call dev polls (OpenF f flags) s = do_fd_call dev polls (OpenF f flags) t"
      using open_creates [OF rel(2) None f(1) False b] by (simp add: t_def)
    moreover have "fd_spec (OpenF f flags) a = fd_spec (OpenF f flags) c"
    proof -
      have "api_create f flags ?es = Some (?es @ [(f, [])])" using None False by (simp add: api_create_def)
      moreover have "api_create f flags (api_files c) = Some (?es @ [(f, [])])"
        using there by (simp add: api_create_def c_def)
      ultimately show ?thesis by (simp add: c_def split: option.split)
    qed
    ultimately show ?thesis using step by simp
  qed
qed

section \<open>Reading, writing, closing\<close>

lemma closed_slot:
  assumes "slot_rel s es k None" "k < FD_MAX_FILES"
  shows "read_file dev polls (of_nat k + 3) n s = Inr (- 1, [], s)"
    "write_file (of_nat k + 3) src n s = Inr (- 1, s)" "close_file dev (of_nat k + 3) s = (- 1, s)"
  using assms fd_number [OF assms(2)] fd_index_slot [OF assms(2)] sint_fd [OF assms(2)]
  by (simp_all add: read_file_def write_file_def close_file_def slot_rel_def)

lemma read_simulates:
  assumes "fd_rel dev d0 kk s a" "fd_ok (ReadF k n) a"
  shows "\<exists>s'. do_fd_call dev polls (ReadF k n) s = Inr (fst (fd_spec (ReadF k n) a), s') \<and>
    fd_rel dev d0 kk s' (snd (fd_spec (ReadF k n) a))"
proof -
  let ?es = "api_files a"
  have rel: "ata_ready dev d0 kk s" "archive (tarBuf s) ?es" "archive (disk_buffer d0 kk s) (api_disk a)"
    "\<And>i. i < FD_MAX_FILES \<Longrightarrow> slot_rel s ?es i (api_open a i)"
    using assms(1) by (simp_all add: fd_rel_def)
  have k: "k < FD_MAX_FILES" "unat n < 2 ^ 31" using assms(2) by simp_all
  show ?thesis
  proof (cases "api_open a k")
    case None
    then show ?thesis using closed_slot(1) [OF _ k(1), of s ?es] rel(4) [OF k(1)] assms(1) by simp
  next
    case (Some e)
    obtain j pos w where e: "e = (j, pos, w)" by (cases e)
    have on: "fd_on s k ?es j pos" "dirty (fdTable s k) \<noteq> 0 \<longleftrightarrow> w"
      using rel(4) [OF k(1)] by (simp_all add: Some e slot_rel_def)
    let ?d = "snd (?es ! j)"
    define m where "m = min (unat n) (length ?d - pos)"
    have "pos \<le> length ?d" using on(1) by (simp add: fd_on_def Let_def)
    then have "pos + unat n < 2 ^ 32" using fd_on_bounds(1) [OF rel(2) on(1)] k(2) by simp
    then obtain s' where s': "read_file dev polls (of_nat k + 3) n s = Inr (of_nat m, take m (drop pos ?d), s')"
        "fd_on s' k ?es j (pos + m)" "tarBuf s' = tarBuf s"
      using read_fd_on [OF rel(2) on(1), of n dev polls] unfolding m_def by blast
    note sl = read_file_slot [OF s'(1) k(1)]
    have "slot_rel s' ?es i (((api_open a)(k \<mapsto> (j, pos + m, w))) i)" if i: "i < FD_MAX_FILES" for i
    proof (cases "i = k")
      case False
      then show ?thesis using slot_rel_other [OF rel(4) [OF i], of s'] sl by (simp add: only_slot_def)
    qed (use s'(2) sl on(2) in \<open>simp add: slot_rel_def\<close>)
    then show ?thesis
      using s' rel(1-3) only_slot_disk [of k s s'] sl
      by (simp add: Some e fd_rel_def Let_def m_def)
  qed
qed

lemma write_simulates:
  assumes "fd_rel dev d0 kk s a" "fd_ok (WriteF k src) a"
  shows "\<exists>s'. do_fd_call dev polls (WriteF k src) s = Inr (fst (fd_spec (WriteF k src) a), s') \<and>
    fd_rel dev d0 kk s' (snd (fd_spec (WriteF k src) a))"
proof -
  let ?es = "api_files a" and ?n = "of_nat (length src) :: u32"
  have rel: "ata_ready dev d0 kk s" "archive (tarBuf s) ?es" "archive (disk_buffer d0 kk s) (api_disk a)"
    "\<And>i. i < FD_MAX_FILES \<Longrightarrow> slot_rel s ?es i (api_open a i)"
    using assms(1) by (simp_all add: fd_rel_def)
  have k: "k < FD_MAX_FILES" "length src < 2 ^ 31" using assms(2) by simp_all
  have n: "unat ?n = length src" using k(2) by (simp add: unat_small)
  show ?thesis
  proof (cases "api_open a k")
    case None
    then show ?thesis using closed_slot(2) [OF _ k(1), of s ?es] rel(4) [OF k(1)] assms(1) by simp
  next
    case (Some e)
    obtain j pos w where e: "e = (j, pos, w)" by (cases e)
    have on: "fd_on s k ?es j pos" using rel(4) [OF k(1)] by (simp add: Some e slot_rel_def)
    obtain f d where fd: "?es ! j = (f, d)" by (cases "?es ! j")
    define m where "m = min (length src) (length d - pos)"
    define es' where "es' = ?es[j := (f, take pos d @ take m src @ drop (pos + m) d)]"
    have bnd: "j < length ?es" "pos \<le> length d" "length d < 2 ^ 30"
      using on fd_on_bounds(1) [OF rel(2) on] by (simp_all add: fd_on_def Let_def fd)
    show ?thesis
    proof (cases "length d \<le> pos")
      case True
      then have "write_file (of_nat k + 3) src ?n s = Inr (0, s)"
        using on bnd fd_number [OF k(1)] fd_index_slot [OF k(1)]
        by (simp add: write_file_def fd_on_def fd Let_def)
      then show ?thesis using True assms(1) by (simp add: Some e fd Let_def)
    next
      case False
      then obtain s' where s': "write_file (of_nat k + 3) src ?n s = Inr (of_nat m, s')" "archive (tarBuf s') es'"
          "fd_on s' k es' j (pos + m)" "dirty (fdTable s' k) = 1"
        using write_fd_on [OF rel(2) on, of ?n src] bnd k(2) n unfolding m_def es'_def fd by auto
      note sl = write_file_slot [OF s'(1) k(1)]
      have "map (length \<circ> snd) es' = map (length \<circ> snd) ?es"
        using bnd(1,2) by (simp add: es'_def map_update fd m_def list_update_same_conv)
      then have "slot_rel s' es' i (((api_open a)(k \<mapsto> (j, pos + m, True))) i)" if i: "i < FD_MAX_FILES" for i
      proof (cases "i = k")
        case False
        then show ?thesis
          using slot_rel_same_sizes [OF rel(4) [OF i], of es' s'] sl \<open>map _ es' = _\<close> by (simp add: only_slot_def)
      qed (use s'(3,4) in \<open>simp add: slot_rel_def\<close>)
      then show ?thesis
        using s' False rel(1,3) only_slot_disk [OF sl]
        by (simp add: Some e fd fd_rel_def Let_def m_def es'_def)
    qed
  qed
qed

lemma only_io_fdTable:
  assumes "only_io s s'"
  shows "fdTable s' = fdTable s"
proof -
  obtain x where "s' = s\<lparr>trace := x\<rparr>" using assms unfolding only_io_def by blast
  then show ?thesis by simp
qed

lemma tarFlush_fdTable [simp]: "fdTable (tarFlush dev s) = fdTable s"
proof -
  have "fdTable (ataWrite dev l b t) = fdTable t" for l b and t :: "'a files_scheme"
    using only_io_fdTable [OF only_io_ataWrite] .
  then have "fdTable (for_to n (\<lambda>i s. ataWrite dev (TAR_START_LBA + of_nat i) (load_words (tarBuf s) (i * 512) 256) s) s) = fdTable s" for n
    by (induction n) simp_all
  then show ?thesis unfolding tarFlush_def .
qed

lemma close_simulates:
  assumes "fd_rel dev d0 kk s a" "fd_ok (CloseF k) a"
  shows "\<exists>s'. do_fd_call dev polls (CloseF k) s = Inr (fst (fd_spec (CloseF k) a), s') \<and>
    fd_rel dev d0 kk s' (snd (fd_spec (CloseF k) a))"
proof -
  let ?es = "api_files a"
  have rel: "ata_ready dev d0 kk s" "archive (tarBuf s) ?es" "archive (disk_buffer d0 kk s) (api_disk a)"
    "\<And>i. i < FD_MAX_FILES \<Longrightarrow> slot_rel s ?es i (api_open a i)"
    using assms(1) by (simp_all add: fd_rel_def)
  have k: "k < FD_MAX_FILES" using assms(2) by simp
  show ?thesis
  proof (cases "api_open a k")
    case None
    then show ?thesis using closed_slot(3) [OF _ k, of s ?es] rel(4) [OF k] assms(1) by simp
  next
    case (Some e)
    obtain j pos w where e: "e = (j, pos, w)" by (cases e)
    have on: "isInUse (fdTable s k) \<noteq> 0" "dirty (fdTable s k) \<noteq> 0 \<longleftrightarrow> w"
      using rel(4) [OF k] by (simp_all add: Some e slot_rel_def fd_on_def Let_def)
    define t where "t = (if w then tarFlush dev s else s)"
    define s' where "s' = t\<lparr>fdTable := (fdTable t)(k := clear_fd (fdTable s k))\<rparr>"
    have c: "close_file dev (of_nat k + 3) s = (0, s')"
      using sint_fd [OF k] on k by (simp add: close_file_def Let_def s'_def t_def)
    have t: "ata_ready dev d0 kk t" "archive (disk_buffer d0 kk t) (if w then ?es else api_disk a)"
        "tarBuf t = tarBuf s" "fdTable t = fdTable s"
      using tarFlush_disk(1,2) [OF rel(1)] tarFlush_archive [OF rel(1,2)] rel(1,3) by (simp_all add: t_def)
    have "only_slot k t s'" by (simp add: only_slot_def s'_def)
    note disk = only_slot_disk [OF this]
    have "slot_rel s' ?es i (((api_open a)(k := None)) i)" if i: "i < FD_MAX_FILES" for i
    proof (cases "i = k")
      case False
      then show ?thesis using slot_rel_other [OF rel(4) [OF i], of s'] by (simp add: s'_def t(4))
    qed (simp add: slot_rel_def s'_def clear_fd_def)
    then show ?thesis
      using c t(1-3) rel(2) by (simp add: Some e fd_rel_def disk) (simp add: s'_def)
  qed
qed

section \<open>The simulation\<close>

lemma fd_call_simulates:
  "fd_rel dev d0 kk s a \<Longrightarrow> fd_ok c a \<Longrightarrow>
     \<exists>s'. do_fd_call dev polls c s = Inr (fst (fd_spec c a), s') \<and> fd_rel dev d0 kk s' (snd (fd_spec c a))"
  by (cases c) (simp_all only: open_simulates read_simulates write_simulates close_simulates)

interpretation fds: simulation "do_fd_call dev polls" fd_spec fd_ok "fd_rel dev d0 kk"
  for dev polls d0 kk
  by unfold_locales (rule fd_call_simulates)

section \<open>Stale descriptors\<close>

text \<open>
  A descriptor keeps the place of its file. When files move, it reads whatever has come there: here
  \<open>d\<close> is the content of the file that lies at that place now.
\<close>

lemma read_from_place:
  assumes "archive (tarBuf s) es" "j < length es" "k < FD_MAX_FILES" "isInUse (fdTable s k) \<noteq> 0"
    "fd_data (fdTable s k) = Some (end_of 0 (take j es) + 512)" "rwPos (fdTable s k) = of_nat pos"
    "fd_size (fdTable s k) = of_nat len" "len < 2 ^ 30" "0 < unat n" "pos + unat n \<le> len"
    "pos + unat n \<le> length (snd (es ! j))"
  shows "\<exists>s'. read_file dev polls (of_nat k + 3) n s = Inr (n, take (unat n) (drop pos (snd (es ! j))), s')"
proof -
  let ?d = "snd (es ! j)" and ?q = "end_of 0 (take j es) + 512"
  have e: "field (tarBuf s) ?q (length ?d) = ?d" "?q + length ?d \<le> TAR_BUF_SIZE"
    using archive_entry [OF assms(1,2)] span_bounds(1) [of "length ?d"] by (simp_all add: entry_at_def)
  have u: "unat (of_nat pos :: u32) = pos" "unat (of_nat len :: u32) = len"
    using assms(8,10) by (simp_all add: unat_small)
  have "unat (clip (fdTable s k) n) = unat n"
    using clip_min [OF assms(6,7) _ assms(8), of n] assms(8,10) by simp
  then have cl: "clip (fdTable s k) n = n" by (rule unsigned_word_eqI)
  have nz: "n \<noteq> 0" using assms(9) by auto
  have "\<not> fd_size (fdTable s k) \<le> rwPos (fdTable s k)"
    using assms(6,7,9,10) u by (simp add: word_le_nat_alt)
  moreover have "field (tarBuf s) (?q + pos) (unat n) = take (unat n) (drop pos ?d)"
  proof (rule nth_equalityI)
    fix i assume i: "i < length (field (tarBuf s) (?q + pos) (unat n))"
    then have "?d ! (pos + i) = tarBuf s (?q + (pos + i))"
      using nth_field [of "pos + i" "length ?d" "tarBuf s" ?q] e(1) assms(11) by simp
    then show "field (tarBuf s) (?q + pos) (unat n) ! i = take (unat n) (drop pos ?d) ! i"
      using i assms(11) by (simp add: add.assoc)
  qed (use assms(11) in simp)
  moreover have "unat (rwPos (fdTable s k)) = pos" using assms(6) u by simp
  ultimately show ?thesis
    using fd_number [OF assms(3)] fd_index_slot [OF assms(3)] assms(4,5,11) e(2) cl nz
    by (simp add: read_file_def Let_def)
qed

text \<open>Where the files after a deleted one come to lie.\<close>

lemma place_after_remove:
  assumes "distinct (map fst es)" "es ! i = (f, d)" "i \<le> j" "Suc j < length es"
    and "span (length d) = span (length (snd (es ! j)))"
  shows "remove_file f es ! j = es ! Suc j" "end_of 0 (take j (remove_file f es)) = end_of 0 (take j es)"
proof -
  have i: "i < length es" using assms(3,4) by simp
  then have es: "es = take i es @ (f, d) # drop (Suc i) es" using id_take_nth_drop [OF i] assms(2) by simp
  have "distinct (map fst (take i es @ (f, d) # drop (Suc i) es))" using assms(1) es by simp
  then have "map_of (take i es) f = None" by (simp add: map_of_eq_None_iff)
  then have rem: "remove_file f es = take i es @ drop (Suc i) es"
    using remove_file_split [of "take i es" f d "drop (Suc i) es"] es by simp
  show "remove_file f es ! j = es ! Suc j"
    using assms(3,4) by (simp add: rem nth_append)
  have "take (Suc j) es = take i es @ (f, d) # take (j - i) (drop (Suc i) es)"
    by (subst es) (use assms(3) i in \<open>simp add: Suc_diff_le\<close>)
  then have "end_of 0 (take (Suc j) es) = end_of 0 (take j (remove_file f es)) + span (length d)"
    using assms(3) i by (simp add: rem end_of_add)
  moreover have "end_of 0 (take (Suc j) es) = end_of 0 (take j es) + span (length (snd (es ! j)))"
    using assms(4) by (simp add: take_Suc_conv_app_nth)
  ultimately show "end_of 0 (take j (remove_file f es)) = end_of 0 (take j es)" using assms(5) by simp
qed

lemma truncating_open:
  assumes "archive (tarBuf s) es" "map_of es f = Some d" "distinct (map fst es)" "flags AND O_TRUNC \<noteq> 0"
  shows "\<exists>r s'. open_file f flags s = Inr (r, s') \<and> archive (tarBuf s') (remove_file f es @ [(f, [])]) \<and>
    (\<forall>k. isInUse (fdTable s k) \<noteq> 0 \<longrightarrow> fdTable s' k = fdTable s k)"
proof -
  let ?es = "remove_file f es @ [(f, [])]"
  note names = archive_names [OF assms(1,2)]
  obtain b where b: "tarEdit (tarBuf s) f [] 0 = Inr (1, b)" "archive b ?es"
    using tarEdit_archive [OF assms(1) names(1) assms(2,3), of "[]" 0] by auto
  obtain q where q: "tarFind (tarBuf s) f = Inr (Some q)"
    using tarFind_archive [OF assms(1) names(1)] file_index_pos [OF assms(2), of 0] by simp
  let ?t = "s\<lparr>tarBuf := b\<rparr>"
  show ?thesis
  proof (cases "free_slot (fdTable s)")
    case None
    then have "open_file f flags s = Inr (- 1, ?t)"
      using b q tarFind_archive [OF b(2) names(1)] assms(4)
      by (simp add: open_file_def find_or_create_def truncate_file_def Let_def)
    then show ?thesis using b(2) by fastforce
  next
    case (Some k)
    obtain x where "open_file f flags s = Inr (of_nat k + 3, ?t\<lparr>fdTable := (fdTable s)(k := x)\<rparr>)"
      using Some b q tarFind_archive [OF b(2) names(1)] tarGetSize_archive [OF b(2) names(1)] names(2) assms(4)
      by (simp add: open_file_def find_or_create_def truncate_file_def Let_def)
    moreover have "isInUse (fdTable s k) = 0" using free_slot_Some [OF Some] by simp
    ultimately show ?thesis using b(2) by fastforce
  qed
qed

lemma stale_read:
  assumes "archive (tarBuf s) es" "distinct (map fst es)" "es ! i = (f, d)" "i \<le> j" "Suc j < length es"
    and "span (length d) = span (length (snd (es ! j)))" "fd_on s k es j pos" "flags AND O_TRUNC \<noteq> 0"
    and "0 < unat n" "pos + unat n \<le> length (snd (es ! j))" "pos + unat n \<le> length (snd (es ! Suc j))"
  shows "\<exists>r s' s''. open_file f flags s = Inr (r, s') \<and>
    read_file dev polls (of_nat k + 3) n s' = Inr (n, take (unat n) (drop pos (snd (es ! Suc j))), s'')"
proof -
  let ?es = "remove_file f es @ [(f, [])]"
  have "map_of es f = Some d" using assms(2-5) by (metis Suc_lessD le_less_trans map_of_is_SomeI nth_mem)
  then obtain r s' where s': "open_file f flags s = Inr (r, s')" "archive (tarBuf s') ?es"
      "\<And>k. isInUse (fdTable s k) \<noteq> 0 \<Longrightarrow> fdTable s' k = fdTable s k"
    using truncating_open [OF assms(1) _ assms(2,8)] by blast
  have "length (remove_file f es) = length es - 1"
    by (metis (no_types) \<open>map_of es f = Some d\<close> length_map names_remove length_remove1 map_of_eq_None_iff option.distinct(1) list.set_map)
  then have j: "j < length (remove_file f es)" using assms(5) by simp
  note place = place_after_remove [OF assms(2-6)]
  have on: "k < FD_MAX_FILES" "isInUse (fdTable s k) \<noteq> 0" "fd_data (fdTable s k) = Some (end_of 0 (take j es) + 512)"
      "fd_size (fdTable s k) = of_nat (length (snd (es ! j)))" "rwPos (fdTable s k) = of_nat pos"
    using assms(7) by (simp_all add: fd_on_def Let_def)
  have "?es ! j = es ! Suc j" "take j ?es = take j (remove_file f es)" using j place(1) by (simp_all add: nth_append)
  then have "\<exists>s''. read_file dev polls (of_nat k + 3) n s' = Inr (n, take (unat n) (drop pos (snd (?es ! j))), s'')"
    using on s'(3) [OF on(2)] place(2) j assms(9-11) fd_on_bounds(1) [OF assms(1,7)]
    by (intro read_from_place [OF s'(2)]) simp_all
  then show ?thesis using s'(1) \<open>?es ! j = es ! Suc j\<close> by auto
qed

section \<open>Properties\<close>

text \<open>
  C4. Sequences of calls: over a well-formed archive and a drive that behaves, any list of \<open>open\<close> (with
  \<open>O_CREAT\<close> or without), \<open>read\<close>, \<open>write\<close> and \<open>close\<close> returns what the file interface says and leaves what it
  says, in memory and on the disk; no call faults.
\<close>

theorem fd_calls_refine:
  assumes "fd_rel dev d0 kk s a" "admissible fd_ok fd_spec cs a"
  shows "\<exists>s'. run_calls (do_fd_call dev polls) cs s = Inr (fst (run_spec fd_spec cs a), s') \<and>
    fd_rel dev d0 kk s' (snd (run_spec fd_spec cs a))"
  by (rule fds.run_simulates [OF assms])

definition ex_api :: file_api where
  "ex_api = \<lparr>api_files = ex_files, api_disk = ex_files, api_open = (\<lambda>k. None)\<rparr>"

lemma ex_api_rel: "fd_rel ex_dev ex_drive 2 st_disk ex_api"
proof -
  have "tarBuf st_disk = ex_buf" "fdTable st_disk = fdTable st0"
    using tarFlush_disk(2) [OF st0_facts(2)] by (simp_all add: st_disk_def st0_facts)
  then show ?thesis
    using st_disk_facts by (simp add: fd_rel_def ex_api_def ex_archive slot_rel_def st0_def closed_fd_def)
qed

definition ex_calls :: "fd_call list" where
  "ex_calls = [OpenF (bytes ''a'') 0, ReadF 0 3, WriteF 0 (bytes ''xyz''), CloseF 0, OpenF (bytes ''c'') O_CREAT]"

lemma ex_calls_run:
  "admissible fd_ok fd_spec ex_calls ex_api"
  "fst (run_spec fd_spec ex_calls ex_api) = [(3, []), (3, bytes ''hel''), (2, []), (0, []), (3, [])]"
  "api_disk (snd (run_spec fd_spec ex_calls ex_api)) = [(bytes ''a'', bytes ''helxy''), (bytes ''b'', [])]"
  by (simp_all add: ex_calls_def ex_api_def ex_files_def file_a_def file_b_def api_create_def api_free_def
      file_index_def span_def upt_rec Let_def)

theorem fd_calls_refine_witness:
  "\<exists>s'. run_calls (do_fd_call ex_dev []) ex_calls st_disk =
       Inr ([(3, []), (3, bytes ''hel''), (2, []), (0, []), (3, [])], s') \<and>
     archive (disk_buffer ex_drive 2 s') [(bytes ''a'', bytes ''helxy''), (bytes ''b'', [])]"
  using fd_calls_refine [OF ex_api_rel ex_calls_run(1), of "[]"]
  unfolding ex_calls_run(2) fd_rel_def ex_calls_run(3) by blast



text \<open>
  C40. Truncation moves files under open descriptors: after \<open>open\<close> with \<open>O_TRUNC\<close> on a file, a descriptor on a
  file of the same number of sectors that lies behind it - or on the file itself - reads the next file.
\<close>

theorem stale_descriptor:
  assumes "archive (tarBuf s) es" "distinct (map fst es)" "es ! i = (f, d)" "i \<le> j" "Suc j < length es"
    and "span (length d) = span (length (snd (es ! j)))" "fd_on s k es j pos" "flags AND O_TRUNC \<noteq> 0"
    and "0 < unat n" "pos + unat n \<le> length (snd (es ! j))" "pos + unat n \<le> length (snd (es ! Suc j))"
  shows "\<exists>r s' s''. open_file f flags s = Inr (r, s') \<and>
    read_file dev polls (of_nat k + 3) n s' = Inr (n, take (unat n) (drop pos (snd (es ! Suc j))), s'')"
  by (rule stale_read [OF assms])

definition ex_pair :: "tar_file list" where
  "ex_pair = [(bytes ''a'', bytes ''hello''), (bytes ''b'', bytes ''secret'')]"

definition st_pair :: proc where
  "st_pair = (st_open 0)\<lparr>tarBuf := put_file 1024 (bytes ''b'') (bytes ''secret'') (put_file 0 (bytes ''a'') (bytes ''hello'') empty_buf)\<rparr>"

lemma st_pair_facts: "archive (tarBuf st_pair) ex_pair" "fd_on st_pair 0 ex_pair 0 0"
proof -
  have a: "archive (put_file 0 (bytes ''a'') (bytes ''hello'') empty_buf) [(bytes ''a'', bytes ''hello'')]"
    using archive_put [OF archive_empty, of "bytes ''a''" "bytes ''hello''"] by (simp add: span_def)
  have "end_of 0 [(bytes ''a'', bytes ''hello'')] = 1024" by (simp add: span_def)
  then show "archive (tarBuf st_pair) ex_pair"
    using archive_put [OF a, of "bytes ''b''" "bytes ''secret''"] by (simp add: st_pair_def ex_pair_def span_def)
  show "fd_on st_pair 0 ex_pair 0 0" by (simp add: fd_on_def st_pair_def ex_pair_def st_open_def Let_def)
qed

theorem stale_descriptor_witness:
  "\<exists>r s' s''. open_file (bytes ''a'') O_TRUNC st_pair = Inr (r, s') \<and>
     read_file ex_dev [] 3 3 s' = Inr (3, bytes ''sec'', s'')"
  using stale_descriptor [OF st_pair_facts(1) _ _ _ _ _ st_pair_facts(2), of 0 "bytes ''a''" "bytes ''hello''" O_TRUNC 3 ex_dev "[]"]
  by (simp add: ex_pair_def)

end
