(* ===== verification/Stubs.thy ===== *)
theory Stubs
  imports Examples
begin

text \<open>
  The way into the kernel and back (src/interrupts.asm): what the processor pushes when it takes an
  interrupt, the entry stubs \<open>isr0\<close> to \<open>isr34\<close>, \<open>irq0\<close>, \<open>irq1\<close> and \<open>isrDefault\<close>, the common part
  with the call of \<open>interruptDispatcher\<close>, and \<open>iretd\<close>; \<open>sendInterrupt\<close> and \<open>userPanic\<close>, which raise an
  interrupt from C. The stack is memory: \<open>c_mem\<close> holds the double words at the distances from the
  stack pointer that are multiples of 4. Of the flags register the interrupt flag is followed.
\<close>

record cpu =
  c_edi :: u32
  c_esi :: u32
  c_ebp :: u32
  c_esp :: u32
  c_ebx :: u32
  c_edx :: u32
  c_ecx :: u32
  c_eax :: u32
  c_eip :: u32
  c_cs :: u32
  c_eflags :: u32
  c_ss :: u32
  c_ds :: u32
  c_es :: u32
  c_fs :: u32
  c_gs :: u32
  c_mem :: "u32 \<Rightarrow> u32"

section \<open>The processor\<close>

definition push :: "u32 \<Rightarrow> cpu \<Rightarrow> cpu" where
  "push v c = c\<lparr>c_esp := c_esp c - 4, c_mem := (c_mem c)(c_esp c - 4 := v)\<rparr>"

definition pushad :: "cpu \<Rightarrow> cpu" where
  "pushad c = fold push [c_eax c, c_ecx c, c_edx c, c_ebx c, c_esp c, c_ebp c, c_esi c, c_edi c] c"

text \<open>The \<open>i\<close>-th double word from an address, and from the stack pointer; \<open>add esp, 4 * k\<close>.\<close>

definition dword :: "(u32 \<Rightarrow> u32) \<Rightarrow> u32 \<Rightarrow> nat \<Rightarrow> u32" where
  "dword m p i = m (p + 4 * of_nat i)"

definition dw :: "cpu \<Rightarrow> nat \<Rightarrow> u32" where
  "dw c i = dword (c_mem c) (c_esp c) i"

definition add_esp :: "nat \<Rightarrow> cpu \<Rightarrow> cpu" where
  "add_esp k c = c\<lparr>c_esp := c_esp c + 4 * of_nat k\<rparr>"

text \<open>The value that \<open>pushad\<close> saved of the stack pointer is skipped.\<close>

definition popad :: "cpu \<Rightarrow> cpu" where
  "popad c =
     add_esp 8 (c\<lparr>c_edi := dw c 0, c_esi := dw c 1, c_ebp := dw c 2, c_ebx := dw c 4, c_edx := dw c 5,
       c_ecx := dw c 6, c_eax := dw c 7\<rparr>)"

text \<open>\<open>iretd\<close> reads the stack pointer of a less privileged program as well.\<close>

definition iretd :: "cpu \<Rightarrow> cpu" where
  "iretd c =
     (let c1 = c\<lparr>c_eip := dw c 0, c_cs := dw c 1, c_eflags := dw c 2\<rparr>
      in if dw c 1 AND 3 = 0 then add_esp 3 c1 else c1\<lparr>c_esp := dw c 3, c_ss := dw c 4\<rparr>)"

definition gate_type :: "idtEntry \<Rightarrow> u8" where
  "gate_type e = idt_flags e AND 0x0F"

text \<open>
  Taking an interrupt through a gate: a program of ring 3 is moved to the kernel stack that the TSS
  names. A gate of type 14 clears the interrupt flag.
\<close>

definition take_gate :: "Tss \<Rightarrow> idtEntry \<Rightarrow> u32 option \<Rightarrow> cpu \<Rightarrow> cpu" where
  "take_gate ts g err c =
     (let c1 = (if c_cs c AND 3 = 0 then c
                else fold push [c_ss c, c_esp c] (c\<lparr>c_esp := tss_esp0 ts, c_ss := tss_ss0 ts\<rparr>));
          c2 = fold push ([c_eflags c, c_cs c, c_eip c] @ (case err of None \<Rightarrow> [] | Some e \<Rightarrow> [e])) c1
      in c2\<lparr>c_eip := gate_addr g, c_cs := ucast (sel g),
            c_eflags := (if gate_type g = 14 then unset_bit 9 (c_eflags c) else c_eflags c)\<rparr>)"

definition interrupts_on :: "cpu \<Rightarrow> bool" where
  "interrupts_on c = bit (c_eflags c) 9"

section \<open>The stubs\<close>

text \<open>The macro \<open>ISR_ERRCODE\<close> is used for these numbers; the others push a dummy error code.\<close>

definition errcode_isrs :: "nat list" where
  "errcode_isrs = [8, 10, 11, 12, 13, 14, 17, 21]"

fun stub_pushes :: "stub \<Rightarrow> u32 list" where
  "stub_pushes (Isr n) = (if n \<in> set errcode_isrs then [of_nat n] else [0, of_nat n])"
| "stub_pushes Irq0 = [0, 32]"
| "stub_pushes Irq1 = [0, 33]"
| "stub_pushes IsrDefault = [0, 0xFF]"
| "stub_pushes Int80Handler = []"

text \<open>\<open>struct Registers\<close> at an address.\<close>

definition registers_at :: "(u32 \<Rightarrow> u32) \<Rightarrow> u32 \<Rightarrow> Registers" where
  "registers_at m p =
     \<lparr>r_edi = dword m p 0, r_esi = dword m p 1, r_ebp = dword m p 2, r_esp = dword m p 3, r_ebx = dword m p 4,
      r_edx = dword m p 5, r_ecx = dword m p 6, r_eax = dword m p 7, int_no = dword m p 8,
      err_code = dword m p 9, r_eip = dword m p 10, r_cs = dword m p 11, r_eflags = dword m p 12\<rparr>"

text \<open>
  \<open>isr_common_stub\<close>. What the C function leaves in the registers and below its frame is \<open>callee\<close>.
\<close>

definition isr_common_stub ::
  "device \<Rightarrow> u32 \<Rightarrow> (cpu \<Rightarrow> cpu) \<Rightarrow> cpu \<Rightarrow> 'a traps_scheme \<Rightarrow> fault + (cpu \<times> 'a traps_scheme) after" where
  "isr_common_stub dev cr2 callee c s =
     (let c1 = pushad c; c2 = push (c_esp c1) c1
      in bindR (interruptDispatcher dev cr2 (registers_at (c_mem c2) (dw c2 0)) s)
           (\<lambda>r. case r of
                  Halted t \<Rightarrow> Inr (Halted (c2, t))
                | Returned t \<Rightarrow> Inr (Returned (iretd (add_esp 2 (popad (add_esp 1 (callee c2)))), t))))"

definition isr_stub ::
  "device \<Rightarrow> u32 \<Rightarrow> (cpu \<Rightarrow> cpu) \<Rightarrow> stub \<Rightarrow> cpu \<Rightarrow> 'a traps_scheme \<Rightarrow> fault + (cpu \<times> 'a traps_scheme) after" where
  "isr_stub dev cr2 callee st c s = isr_common_stub dev cr2 callee (fold push (stub_pushes st) c) s"

text \<open>An interrupt other than the system call: the gate, then the stub at its address.\<close>

definition interrupt ::
  "(u32 \<Rightarrow> stub) \<Rightarrow> device \<Rightarrow> u32 \<Rightarrow> (cpu \<Rightarrow> cpu) \<Rightarrow> u8 \<Rightarrow> u32 option \<Rightarrow> cpu \<Rightarrow> 'a traps_scheme \<Rightarrow>
     fault + (cpu \<times> 'a traps_scheme) after" where
  "interrupt code dev cr2 callee n err c s =
     (let g = idt s (unat n)
      in isr_stub dev cr2 callee (code (gate_addr g)) (take_gate (tss s) g err c) s)"

text \<open>
  \<open>sendInterrupt\<close> reads its argument, patches it into the \<open>int\<close> instruction (at \<open>ip - 2\<close>) and executes it;
  \<open>userPanic\<close> raises 34 and halts.
\<close>

definition sendInterrupt ::
  "(u32 \<Rightarrow> stub) \<Rightarrow> device \<Rightarrow> u32 \<Rightarrow> (cpu \<Rightarrow> cpu) \<Rightarrow> u32 \<Rightarrow> cpu \<Rightarrow> 'a traps_scheme \<Rightarrow>
     fault + (cpu \<times> 'a traps_scheme) after" where
  "sendInterrupt code dev cr2 callee ip c s =
     (let c1 = push (c_ebp c) c;
          n = ucast (dw c1 2) :: u8;
          c2 = c1\<lparr>c_ebp := c_esp c1, c_eax := (c_eax c1 AND NOT 0xFF) OR ucast n, c_eip := ip\<rparr>
      in bindR (interrupt code dev cr2 callee n None c2 s)
           (\<lambda>r. case r of
                  Halted x \<Rightarrow> Inr (Halted x)
                | Returned (c3, t) \<Rightarrow>
                    (let c4 = add_esp 1 (c3\<lparr>c_ebp := dw c3 0\<rparr>)
                     in Inr (Returned (add_esp 1 (c4\<lparr>c_eip := dw c4 0\<rparr>), t)))))"

definition userPanic ::
  "(u32 \<Rightarrow> stub) \<Rightarrow> device \<Rightarrow> u32 \<Rightarrow> (cpu \<Rightarrow> cpu) \<Rightarrow> u32 \<Rightarrow> cpu \<Rightarrow> 'a traps_scheme \<Rightarrow>
     fault + (cpu \<times> 'a traps_scheme) after" where
  "userPanic code dev cr2 callee ip c s =
     bindR (interrupt code dev cr2 callee 34 None (c\<lparr>c_eip := ip\<rparr>) s)
       (\<lambda>r. Inr (Halted (case r of Returned x \<Rightarrow> x | Halted x \<Rightarrow> x)))"

section \<open>The system call\<close>

text \<open>
  src/int80.asm on the stack; Syscalls has its effect on the registers alone (\<open>int80Handler\<close>). A handler
  that does not return (\<open>exit\<close>) gives no processor state.
\<close>

definition frame_at :: "(u32 \<Rightarrow> u32) \<Rightarrow> u32 \<Rightarrow> InterruptFrame" where
  "frame_at m p =
     \<lparr>f_ebx = dword m p 0, f_ecx = dword m p 1, f_edx = dword m p 2, f_esi = dword m p 3, f_edi = dword m p 4,
      f_ebp = dword m p 5, f_eax = dword m p 6, f_xds = dword m p 7, f_xes = dword m p 8, f_xfs = dword m p 9,
      f_xgs = dword m p 10, orig_eax = dword m p 11\<rparr>"

definition int80_pushes :: "cpu \<Rightarrow> cpu" where
  "int80_pushes c =
     fold push [c_eax c, c_gs c, c_fs c, c_es c, c_ds c, c_eax c, c_ebp c, c_edi c, c_esi c, c_edx c, c_ecx c, c_ebx c] c"

definition int80_popped :: "cpu \<Rightarrow> cpu" where
  "int80_popped c =
     add_esp 11 (c\<lparr>c_ebx := dw c 0, c_ecx := dw c 1, c_edx := dw c 2, c_esi := dw c 3, c_edi := dw c 4,
       c_ebp := dw c 5, c_eax := dw c 6, c_ds := dw c 7, c_es := dw c 8, c_fs := dw c 9, c_gs := dw c 10\<rparr>)"

definition int80_stub ::
  "'s dispatch \<Rightarrow> (cpu \<Rightarrow> cpu) \<Rightarrow> cpu \<Rightarrow> 's \<Rightarrow> fault + cpu option \<times> 's" where
  "int80_stub dispatch callee c s =
     (let c1 = int80_pushes c; c2 = push (c_esp c1) (c1\<lparr>c_eax := c_esp c1\<rparr>)
      in bindR (dispatch (frame_at (c_mem c2) (dw c2 0)) s)
           (\<lambda>(r, t). case r of
              None \<Rightarrow> Inr (None, t)
            | Some v \<Rightarrow> Inr (Some (iretd (add_esp 1 (int80_popped (add_esp 1 ((callee c2)\<lparr>c_eax := v\<rparr>))))), t)))"

text \<open>\<open>int 0x80\<close>, as a program executes it; the instruction pointer is already behind it.\<close>

definition int80 ::
  "'a traps_scheme dispatch \<Rightarrow> (cpu \<Rightarrow> cpu) \<Rightarrow> cpu \<Rightarrow> 'a traps_scheme \<Rightarrow> fault + cpu option \<times> 'a traps_scheme" where
  "int80 dispatch callee c s = int80_stub dispatch callee (take_gate (tss s) (idt s 0x80) None c) s"

section \<open>Nothing is lost on the way\<close>

text \<open>
  What the compiled C function keeps: the stack pointer, and the stack above its argument. It reads
  the frame only.
\<close>

definition cdecl :: "(cpu \<Rightarrow> cpu) \<Rightarrow> bool" where
  "cdecl f \<longleftrightarrow> (\<forall>c. c_esp (f c) = c_esp c \<and> c_ss (f c) = c_ss c \<and> c_ds (f c) = c_ds c \<and> c_es (f c) = c_es c \<and>
     c_fs (f c) = c_fs c \<and> c_gs (f c) = c_gs c \<and> (\<forall>i\<in>{1..17}. dw (f c) i = dw c i))"

definition same_regs :: "cpu \<Rightarrow> cpu \<Rightarrow> bool" where
  "same_regs c d \<longleftrightarrow>
     c_edi d = c_edi c \<and> c_esi d = c_esi c \<and> c_ebp d = c_ebp c \<and> c_esp d = c_esp c \<and> c_ebx d = c_ebx c \<and>
     c_edx d = c_edx c \<and> c_ecx d = c_ecx c \<and> c_eax d = c_eax c \<and> c_eip d = c_eip c \<and> c_cs d = c_cs c \<and>
     c_eflags d = c_eflags c \<and> c_ss d = c_ss c \<and>
     c_ds d = c_ds c \<and> c_es d = c_es c \<and> c_fs d = c_fs c \<and> c_gs d = c_gs c"

lemma dw_push [simp]:
  "dw (push v c) 0 = v"
  "i < 2 ^ 30 - 1 \<Longrightarrow> dw (push v c) (Suc i) = dw c i"
  "numeral k < (2 ^ 30 :: nat) \<Longrightarrow> dw (push v c) (numeral k) = dw c (pred_numeral k)"
proof -
  show "dw (push v c) 0 = v" by (simp add: dw_def dword_def push_def)
  have *: "dw (push v c) (Suc i) = dw c i" if i: "i < 2 ^ 30 - 1" for i
  proof -
    have "unat (4 * of_nat (Suc i) :: u32) = 4 * Suc i"
      using i unat_small [of "4 * Suc i"] by simp
    then have "(4 * of_nat (Suc i) :: u32) \<noteq> 0" by (metis mult_eq_0_iff nat.simps(3) unat_0 zero_neq_numeral)
    then have "c_esp c - 4 + 4 * of_nat (Suc i) \<noteq> c_esp c - 4" by (metis add_cancel_right_right)
    then show ?thesis by (simp add: dw_def dword_def push_def algebra_simps)
  qed
  show "i < 2 ^ 30 - 1 \<Longrightarrow> dw (push v c) (Suc i) = dw c i" by (rule *)
  assume "numeral k < (2 ^ 30 :: nat)"
  moreover have k: "(numeral k :: nat) = Suc (pred_numeral k)" by (rule numeral_eq_Suc)
  ultimately have "pred_numeral k < (2 ^ 30 - 1 :: nat)" by simp
  from * [OF this] show "dw (push v c) (numeral k) = dw c (pred_numeral k)" by (simp only: k)
qed

lemma dw_add_esp [simp]: "dw (add_esp k c) i = dw c (k + i)"
  by (simp add: add_esp_def dw_def dword_def algebra_simps)

lemma push_fields [simp]:
  "c_edi (push v c) = c_edi c" "c_esi (push v c) = c_esi c" "c_ebp (push v c) = c_ebp c"
  "c_ebx (push v c) = c_ebx c" "c_edx (push v c) = c_edx c" "c_ecx (push v c) = c_ecx c"
  "c_eax (push v c) = c_eax c" "c_eip (push v c) = c_eip c" "c_cs (push v c) = c_cs c"
  "c_eflags (push v c) = c_eflags c" "c_ss (push v c) = c_ss c" "c_esp (push v c) = c_esp c - 4"
  "c_ds (push v c) = c_ds c" "c_es (push v c) = c_es c" "c_fs (push v c) = c_fs c" "c_gs (push v c) = c_gs c"
  by (simp_all add: push_def)

lemma add_esp_fields [simp]:
  "c_edi (add_esp k c) = c_edi c" "c_esi (add_esp k c) = c_esi c" "c_ebp (add_esp k c) = c_ebp c"
  "c_ebx (add_esp k c) = c_ebx c" "c_edx (add_esp k c) = c_edx c" "c_ecx (add_esp k c) = c_ecx c"
  "c_eax (add_esp k c) = c_eax c" "c_eip (add_esp k c) = c_eip c" "c_cs (add_esp k c) = c_cs c"
  "c_eflags (add_esp k c) = c_eflags c" "c_ss (add_esp k c) = c_ss c" "c_esp (add_esp k c) = c_esp c + 4 * of_nat k"
  "c_ds (add_esp k c) = c_ds c" "c_es (add_esp k c) = c_es c" "c_fs (add_esp k c) = c_fs c" "c_gs (add_esp k c) = c_gs c"
  by (simp_all add: add_esp_def)

text \<open>The fields that the jump and the flags change are not on the stack.\<close>

lemma dw_fields [simp]:
  "dw (c\<lparr>c_edi := v\<rparr>) i = dw c i"
  "dw (c\<lparr>c_esi := v\<rparr>) i = dw c i"
  "dw (c\<lparr>c_ebp := v\<rparr>) i = dw c i"
  "dw (c\<lparr>c_ebx := v\<rparr>) i = dw c i"
  "dw (c\<lparr>c_edx := v\<rparr>) i = dw c i"
  "dw (c\<lparr>c_ecx := v\<rparr>) i = dw c i"
  "dw (c\<lparr>c_eax := v\<rparr>) i = dw c i"
  "dw (c\<lparr>c_eip := v\<rparr>) i = dw c i"
  "dw (c\<lparr>c_cs := v\<rparr>) i = dw c i"
  "dw (c\<lparr>c_eflags := v\<rparr>) i = dw c i"
  "dw (c\<lparr>c_ss := v\<rparr>) i = dw c i"
  "dw (c\<lparr>c_ds := v\<rparr>) i = dw c i"
  "dw (c\<lparr>c_es := v\<rparr>) i = dw c i"
  "dw (c\<lparr>c_fs := v\<rparr>) i = dw c i"
  "dw (c\<lparr>c_gs := v\<rparr>) i = dw c i"
  by (simp_all add: dw_def)

lemma cdeclD:
  assumes "cdecl f"
  shows "c_esp (f d) = c_esp d" "c_ss (f d) = c_ss d" "c_ds (f d) = c_ds d" "c_es (f d) = c_es d"
    "c_fs (f d) = c_fs d" "c_gs (f d) = c_gs d" "i \<in> {1..17} \<Longrightarrow> dw (f d) i = dw d i"
  using assms by (simp_all add: cdecl_def)

lemma dword_pushed:
  assumes "i < 2 ^ 30 - 1"
  shows "dword (c_mem (push v c)) (c_esp c) i = dw c i"
proof -
  have "dword (c_mem (push v c)) (c_esp c) i = dw (push v c) (Suc i)"
    by (simp add: dw_def dword_def push_def algebra_simps)
  then show ?thesis using assms by simp
qed

lemma registers_pushed:
  "registers_at (c_mem (push v c)) (c_esp c) =
     \<lparr>r_edi = dw c 0, r_esi = dw c 1, r_ebp = dw c 2, r_esp = dw c 3, r_ebx = dw c 4,
      r_edx = dw c 5, r_ecx = dw c 6, r_eax = dw c 7, int_no = dw c 8,
      err_code = dw c 9, r_eip = dw c 10, r_cs = dw c 11, r_eflags = dw c 12\<rparr>"
  by (simp add: registers_at_def dword_pushed)

text \<open>The registers as the dispatcher should see them.\<close>

definition frame_of :: "u32 \<Rightarrow> u32 \<Rightarrow> u32 \<Rightarrow> cpu \<Rightarrow> Registers" where
  "frame_of n e sp c =
     \<lparr>r_edi = c_edi c, r_esi = c_esi c, r_ebp = c_ebp c, r_esp = sp, r_ebx = c_ebx c,
      r_edx = c_edx c, r_ecx = c_ecx c, r_eax = c_eax c, int_no = n, err_code = e,
      r_eip = c_eip c, r_cs = c_cs c, r_eflags = c_eflags c\<rparr>"

definition entry_esp :: "Tss \<Rightarrow> cpu \<Rightarrow> u32" where
  "entry_esp ts c = (if c_cs c AND 3 = 0 then c_esp c else tss_esp0 ts - 8) - 20"

definition call_frame :: "cpu \<Rightarrow> cpu" where
  "call_frame c = (let c1 = pushad c in push (c_esp c1) c1)"

lemma isr_common:
  "isr_common_stub dev cr2 callee c s =
     bindR (interruptDispatcher dev cr2 (registers_at (c_mem (call_frame c)) (c_esp (pushad c))) s)
       (\<lambda>r. case r of
              Halted t \<Rightarrow> Inr (Halted (call_frame c, t))
            | Returned t \<Rightarrow> Inr (Returned (iretd (add_esp 2 (popad (add_esp 1 (callee (call_frame c))))), t)))"
  unfolding isr_common_stub_def call_frame_def Let_def by (simp del: One_nat_def)

text \<open>
  The frame, when the number and the error code are there: pushed by the stub, or the error code by
  the processor.
\<close>

lemma full_frame:
  "registers_at (c_mem (call_frame (fold push [e, n] (take_gate ts g None c))))
     (c_esp (pushad (fold push [e, n] (take_gate ts g None c)))) = frame_of n e (entry_esp ts c) c"
  "registers_at (c_mem (call_frame (fold push [n] (take_gate ts g (Some e) c))))
     (c_esp (pushad (fold push [n] (take_gate ts g (Some e) c)))) = frame_of n e (entry_esp ts c) c"
  unfolding call_frame_def Let_def registers_pushed
  by (simp_all add: frame_of_def entry_esp_def take_gate_def pushad_def)

lemma full_return:
  assumes "cdecl f"
  shows "same_regs c (iretd (add_esp 2 (popad (add_esp 1 (f (call_frame (fold push [e, n] (take_gate ts g None c))))))))"
  by (simp add: call_frame_def Let_def take_gate_def pushad_def popad_def iretd_def same_regs_def cdeclD [OF assms])

section \<open>Interrupts are transparent\<close>

text \<open>What the keyboard interrupt leaves alone: all that does not look at its own variables.\<close>

lemma keyboardHandler_observed:
  fixes f :: "'a keyboard_scheme \<Rightarrow> 'b"
  assumes f: "\<And>x t. f (t\<lparr>trace := x\<rparr>) = f t" "\<And>x t. f (t\<lparr>vram := x\<rparr>) = f t" "\<And>x t. f (t\<lparr>cursorX := x\<rparr>) = f t"
    "\<And>x t. f (t\<lparr>cursorY := x\<rparr>) = f t" "\<And>x t. f (t\<lparr>keyBuffer := x\<rparr>) = f t" "\<And>x t. f (t\<lparr>head := x\<rparr>) = f t"
    "\<And>x t. f (t\<lparr>shiftActive := x\<rparr>) = f t" "\<And>x t. f (t\<lparr>capsLockActive := x\<rparr>) = f t"
    "\<And>x t. f (t\<lparr>controlActive := x\<rparr>) = f t" "\<And>x t. f (t\<lparr>arrow := x\<rparr>) = f t" "\<And>x t. f (t\<lparr>eofTrigger := x\<rparr>) = f t"
  shows "f (keyboardHandler dev s) = f s"
proof -
  have clear: "f (clearScreen t) = f t" for t
    unfolding clearScreen_def moveCursor_def port_io_shape Let_def by (simp only: f)
  have put: "f (put_key c t) = f t" for c t by (simp add: put_key_def Let_def f)
  have "f (control_key k t) = f t" for k t by (simp add: control_key_def Let_def f clear)
  then have "f (key_pressed k t) = f t" for k t by (simp add: key_pressed_def f put)
  moreover have "f (key_released k t) = f t" for k t by (simp add: key_released_def Let_def f)
  ultimately show ?thesis by (simp add: keyboardHandler_shape port_io_shape Let_def f)
qed

lemma keyboardHandler_frame [frame, simp]:
  "tarBuf (keyboardHandler dev s) = tarBuf s"
  "fdTable (keyboardHandler dev s) = fdTable s"
  "tss (keyboardHandler dev s) = tss s"
  "idt (keyboardHandler dev s) = idt s"
  "sysTicks (keyboardHandler dev s) = sysTicks s"
  "umem (keyboardHandler dev s) = umem s"
  "heap_brk (keyboardHandler dev s) = heap_brk s"
  by (rule keyboardHandler_observed, simp_all)+

text \<open>The drive does not see it either.\<close>

lemma drive_clearScreen: "drive_after d0 k (trace (clearScreen s)) = drive_after d0 k (trace s)"
  by (simp add: clearScreen_def moveCursor_trace)

lemma drive_keyboardHandler: "drive_after d0 k (trace (keyboardHandler dev s)) = drive_after d0 k (trace s)"
proof -
  have put: "trace (put_key c t) = trace t" for c and t :: "'a keyboard_scheme" by (simp add: put_key_def Let_def)
  have "drive_after d0 k (trace (control_key c t)) = drive_after d0 k (trace t)" for c and t :: "'a keyboard_scheme"
    by (simp add: control_key_def Let_def drive_clearScreen)
  then have "drive_after d0 k (trace (key_pressed c t)) = drive_after d0 k (trace t)" for c and t :: "'a keyboard_scheme"
    by (simp add: key_pressed_def put)
  moreover have "trace (key_released c t) = trace t" for c and t :: "'a keyboard_scheme"
    by (simp add: key_released_def Let_def)
  ultimately show ?thesis by (simp add: keyboardHandler_shape Let_def)
qed

lemma isr_stub_irq:
  assumes "cdecl callee" "stub_pushes st = [0, n]" "n = 0xFF \<or> 32 \<le> n \<and> n < 48 \<and> n \<noteq> 34"
  shows "\<exists>c' t. isr_stub dev cr2 callee st (take_gate ts g None c) s = Inr (Returned (c', t)) \<and>
    same_regs c c' \<and> interruptDispatcher dev cr2 (frame_of n 0 (entry_esp ts c) c) s = Inr (Returned t) \<and>
    eoi_count (trace t) = Suc (eoi_count (trace s))"
proof -
  let ?r = "frame_of n 0 (entry_esp ts c) c"
  obtain t where t: "interruptDispatcher dev cr2 ?r s = Inr (Returned t)"
      "eoi_count (trace t) = Suc (eoi_count (trace s))"
    using dispatch_irq [of ?r dev cr2 s] assms(3) by (auto simp: frame_of_def)
  then show ?thesis
    using full_return [OF assms(1), of c 0 n ts g]
    unfolding isr_stub_def isr_common assms(2) full_frame(1) by simp
qed

lemma dispatched_fields:
  assumes "interruptDispatcher dev cr2 r s = Inr (Returned t)"
  shows "sysTicks t = sysTicks s + (if int_no r = 32 then 1 else 0)" "umem t = umem s" "idt t = idt s" "tarBuf t = tarBuf s"
    "fdTable t = fdTable s"
  using assms
  by (cases "int_no r = 33"; auto simp: interruptDispatcher_def irqHandler_def Let_def port_io_shape bindR_Inr_iff
      split: if_splits)+

lemma dispatched_drive:
  assumes "interruptDispatcher dev cr2 r s = Inr (Returned t)"
  shows "drive_after d0 k (trace t) = drive_after d0 k (trace s)"
  using assms
  by (auto simp: interruptDispatcher_def irqHandler_def Let_def bindR_Inr_iff drive_keyboardHandler split: if_splits)

text \<open>The stubs are where the table says.\<close>

definition linked :: "(u32 \<Rightarrow> stub) \<Rightarrow> 'a traps_scheme \<Rightarrow> bool" where
  "linked code s \<longleftrightarrow> (\<forall>n :: u8. code (gate_addr (idt s (unat n))) = stub_of n \<and> gate_type (idt s (unat n)) = 14)"

lemma linked_initIdt:
  assumes "\<And>n :: u8. code (addr (stub_of n)) = stub_of n"
  shows "linked code (initIdt addr ia s)"
  by (simp add: linked_def initIdt_gates assms gate_type_def)

lemma linked_frame: "linked code s \<Longrightarrow> idt t = idt s \<Longrightarrow> linked code t"
  by (simp add: linked_def)

section \<open>Faults\<close>

lemma isr_stub_fault:
  assumes "interruptDispatcher dev cr2 (registers_at (c_mem (call_frame (fold push (stub_pushes st) c)))
      (c_esp (pushad (fold push (stub_pushes st) c)))) s = bindR (isr_fault cr2 r s) (\<lambda>t. Inr (Halted t))"
  shows "\<exists>c' t. isr_stub dev cr2 callee st c s = Inr (Halted (c', t)) \<and> isr_fault cr2 r s = Inr t"
  using assms unfolding isr_stub_def isr_common isr_fault_prints Let_def by simp

lemma fault_number:
  fixes n :: u8
  assumes "n \<in> set fault_vectors"
  shows "stub_of n = Isr (unat n)" "(of_nat (unat n) :: u32) < 32"
    "stub_pushes (Isr (unat n)) =
       (if n \<in> {8, 10, 11, 12, 13, 14, 17, 21} then [of_nat (unat n)] else [0, of_nat (unat n)])"
proof -
  have "n \<in> {0, 1, 4, 5, 6, 7, 8, 10, 11, 12, 13, 14, 16, 17, 19, 21}" using assms by (simp add: fault_vectors_def)
  then show "stub_of n = Isr (unat n)" "(of_nat (unat n) :: u32) < 32" 
    "stub_pushes (Isr (unat n)) =
       (if n \<in> {8, 10, 11, 12, 13, 14, 17, 21} then [of_nat (unat n)] else [0, of_nat (unat n)])"
    by (auto simp: stub_of_def fault_vectors_def errcode_isrs_def)
qed

text \<open>
  The same stub entered by an \<open>int\<close> instruction: where a fault has its error code there is none, and
  everything the processor pushed is read one place too early.
\<close>

lemma shifted_frame:
  assumes "c_cs c AND 3 = 0"
  shows "registers_at (c_mem (call_frame (fold push [n] (take_gate ts g None c))))
     (c_esp (pushad (fold push [n] (take_gate ts g None c)))) =
    (frame_of n (c_eip c) (c_esp c - 16) c)\<lparr>r_eip := c_cs c, r_cs := c_eflags c, r_eflags := dw c 0\<rparr>"
  unfolding call_frame_def Let_def registers_pushed
  by (simp add: frame_of_def take_gate_def pushad_def assms)

section \<open>What the interrupted program sees\<close>

definition ex_addr :: "stub \<Rightarrow> u32" where
  "ex_addr st =
     (case st of IsrDefault \<Rightarrow> 0x10100 | Irq0 \<Rightarrow> 0x10110 | Irq1 \<Rightarrow> 0x10120 | Int80Handler \<Rightarrow> 0x10130
      | Isr n \<Rightarrow> 0x10000 + of_nat n)"

definition ex_code :: "u32 \<Rightarrow> stub" where
  "ex_code a =
     (if a = 0x10100 then IsrDefault else if a = 0x10110 then Irq0 else if a = 0x10120 then Irq1
      else if a = 0x10130 then Int80Handler else Isr (unat (a - 0x10000)))"

definition ex_cpu :: "u32 \<Rightarrow> cpu" where
  "ex_cpu cs = \<lparr>c_edi = 1, c_esi = 2, c_ebp = 0x9F00, c_esp = 0x9E00, c_ebx = 4, c_edx = 5, c_ecx = 6, c_eax = 7,
     c_eip = 0x10400, c_cs = cs, c_eflags = 0x202, c_ss = 0x10, c_ds = 0x10, c_es = 0x10, c_fs = 0x10, c_gs = 0x10,
     c_mem = (\<lambda>a. 0)\<rparr>"

text \<open>A C function that spoils the registers it may spoil.\<close>

definition ex_callee :: "cpu \<Rightarrow> cpu" where
  "ex_callee c = c\<lparr>c_eax := 0, c_ecx := 0, c_edx := 0\<rparr>"

definition ex_libc :: libc where
  "ex_libc = \<lparr>ENOSYS = 88, ESPIPE = 29, ENOMEM = 12, stat_image = replicate 88 0\<rparr>"

definition st_gates :: proc where
  "st_gates = initIdt ex_addr 0x3000 (initGdt 0x4000 0x5000 0x6000 st0)"

lemma ex_code_addr: "ex_code (ex_addr (stub_of n)) = stub_of n" for n :: u8
proof (cases "n \<in> set fault_vectors")
  case True
  have "n \<in> {0, 1, 4, 5, 6, 7, 8, 10, 11, 12, 13, 14, 16, 17, 19, 21}" using True by (simp add: fault_vectors_def)
  then show ?thesis unfolding fault_number(1) [OF True] by (auto simp: ex_code_def ex_addr_def)
qed (auto simp: stub_of_def ex_code_def ex_addr_def)

lemma ex_stub_facts: "cdecl ex_callee" "linked ex_code st_gates"
proof -
  show "cdecl ex_callee" by (simp add: cdecl_def ex_callee_def dw_def)
  show "linked ex_code st_gates" unfolding st_gates_def by (rule linked_initIdt) (rule ex_code_addr)
qed

text \<open>
  An interrupt that is not a fault - a request, or a number without a stub of its own - is transparent: the
  interrupted program, of ring 0 or ring 3, goes on with all its registers, its memory is untouched, the
  interrupt is acknowledged once, the timer has ticked when it was the timer's, and archive, open files and the
  drive, which may be in the middle of a transfer, are as they were.
\<close>

lemma interrupt_transparent:
  assumes "linked code s" "cdecl callee" "n \<notin> set fault_vectors" "n \<noteq> 34" "n \<noteq> 0x80"
  shows "\<exists>c' t. interrupt code dev cr2 callee n None c s = Inr (Returned (c', t)) \<and> same_regs c c' \<and>
    umem t = umem s \<and> linked code t \<and> eoi_count (trace t) = Suc (eoi_count (trace s)) \<and>
    sysTicks t = sysTicks s + (if n = 32 then 1 else 0) \<and>
    tarBuf t = tarBuf s \<and> fdTable t = fdTable s \<and> (\<forall>d0 k. drive_after d0 k (trace t) = drive_after d0 k (trace s))"
proof -
  let ?num = "if n = 32 then 32 else if n = 33 then 33 else 0xFF :: u32"
  have st: "code (gate_addr (idt s (unat n))) = stub_of n" using assms(1) by (simp add: linked_def)
  have "stub_pushes (stub_of n) = [0, ?num]" using assms(3-5) by (simp add: stub_of_def)
  moreover have "?num = 0xFF \<or> 32 \<le> ?num \<and> ?num < 48 \<and> ?num \<noteq> 34" by simp
  ultimately have "\<exists>c' t. isr_stub dev cr2 callee (stub_of n) (take_gate (tss s) (idt s (unat n)) None c) s =
      Inr (Returned (c', t)) \<and> same_regs c c' \<and>
      interruptDispatcher dev cr2 (frame_of ?num 0 (entry_esp (tss s) c) c) s = Inr (Returned t) \<and>
      eoi_count (trace t) = Suc (eoi_count (trace s))"
    by (rule isr_stub_irq [OF assms(2)])
  then obtain c' t where t: "interrupt code dev cr2 callee n None c s = Inr (Returned (c', t))" "same_regs c c'"
      "interruptDispatcher dev cr2 (frame_of ?num 0 (entry_esp (tss s) c) c) s = Inr (Returned t)"
      "eoi_count (trace t) = Suc (eoi_count (trace s))"
    unfolding interrupt_def Let_def st by blast
  then show ?thesis
    using dispatched_fields [OF t(3)] dispatched_drive [OF t(3)] linked_frame [OF assms(1)] by (auto simp: frame_of_def)
qed

text \<open>
  C28. A fault is reported with what the program had in its registers: with the error code where the
  processor pushes one, as it does for the numbers of the stubs without a dummy, the panic screen gets the
  number, the error code, the place and the registers of the interrupted program; the machine halts.
\<close>

theorem fault_is_reported:
  assumes "linked code s" "n \<in> set fault_vectors" "err = None \<longleftrightarrow> n \<notin> {8, 10, 11, 12, 13, 14, 17, 21}"
  shows "\<exists>c' t. interrupt code dev cr2 callee n err c s = Inr (Halted (c', t)) \<and>
    isr_fault cr2 (frame_of (of_nat (unat n)) (case err of None \<Rightarrow> 0 | Some e \<Rightarrow> e) (entry_esp (tss s) c) c) s = Inr t"
proof -
  let ?g = "take_gate (tss s) (idt s (unat n)) err c" and ?n = "of_nat (unat n) :: u32"
  let ?r = "frame_of ?n (case err of None \<Rightarrow> 0 | Some e \<Rightarrow> e) (entry_esp (tss s) c) c"
  have st: "code (gate_addr (idt s (unat n))) = Isr (unat n)"
    using assms(1) fault_number(1) [OF assms(2)] by (simp add: linked_def)
  have r: "registers_at (c_mem (call_frame (fold push (stub_pushes (Isr (unat n))) ?g)))
      (c_esp (pushad (fold push (stub_pushes (Isr (unat n))) ?g))) = ?r"
  proof (cases err)
    case None
    then have "stub_pushes (Isr (unat n)) = [0, ?n]" using fault_number(3) [OF assms(2)] assms(3) by simp
    then show ?thesis unfolding None by (simp only: full_frame(1) option.case)
  next
    case (Some e)
    then have "stub_pushes (Isr (unat n)) = [?n]" using fault_number(3) [OF assms(2)] assms(3) by simp
    then show ?thesis unfolding Some by (simp only: full_frame(2) option.case)
  qed
  have "int_no ?r < 32" using fault_number(2) [OF assms(2)] by (simp add: frame_of_def)
  then have "interruptDispatcher dev cr2 ?r s = bindR (isr_fault cr2 ?r s) (\<lambda>t. Inr (Halted t))"
    using dispatch_fault by blast
  then show ?thesis unfolding interrupt_def Let_def st by (intro isr_stub_fault) (simp only: r)
qed

theorem fault_is_reported_witness:
  "\<exists>c' t. interrupt ex_code ex_dev 0xDEAD ex_callee 14 (Some 6) (ex_cpu 0x1B) st_gates = Inr (Halted (c', t)) \<and>
     isr_fault 0xDEAD (frame_of 14 6 (entry_esp (tss st_gates) (ex_cpu 0x1B)) (ex_cpu 0x1B)) st_gates = Inr t"
  using fault_is_reported [OF ex_stub_facts(2), where n = 14 and err = "Some 6" and dev = ex_dev
      and ?cr2.0 = "0xDEAD" and callee = ex_callee and c = "ex_cpu 0x1B"]
  by (simp add: fault_vectors_def)

text \<open>
  C38. Raised with \<open>sendInterrupt\<close>, as the command \<open>panic\<close> does, a number whose fault has an error code is
  reported wrongly: the stub leaves the error code to the processor, which pushes none for \<open>int\<close>. The screen
  shows the address after the instruction as the error code, the code segment as EIP, the flags as CS, and
  the saved EBP as the flags.
\<close>

theorem software_fault_is_shifted:
  fixes n :: u8
  assumes "linked code s" "n \<in> {8, 10, 11, 12, 13, 14, 17, 21}" "c_cs c AND 3 = 0"
    and "c1 = fold push [ucast n, ret] c"
  shows "\<exists>c' t r. sendInterrupt code dev cr2 callee ip c1 s = Inr (Halted (c', t)) \<and> isr_fault cr2 r s = Inr t \<and>
    int_no r = ucast n \<and> err_code r = ip \<and> r_eip r = c_cs c \<and> r_cs r = c_eflags c \<and> r_eflags r = c_ebp c"
proof -
  have f: "n \<in> set fault_vectors" using assms(2) by (auto simp: fault_vectors_def)
  let ?n = "of_nat (unat n) :: u32"
  let ?p = "push (c_ebp c1) c1"
  define d where "d = ?p\<lparr>c_ebp := c_esp ?p, c_eax := (c_eax ?p AND NOT 0xFF) OR ucast n, c_eip := ip\<rparr>"
  have "ucast (ucast n :: u32) = n" by (rule bit_word_eqI) (simp add: bit_simps)
  then have num: "ucast (dw ?p 2) = n" by (simp add: assms(4))
  have dw: "dw d 0 = c_ebp c" by (simp add: d_def assms(4) dw_def dword_def push_def)
  let ?g = "take_gate (tss s) (idt s (unat n)) None d"
  let ?r = "(frame_of ?n (c_eip d) (c_esp d - 16) d)\<lparr>r_eip := c_cs d, r_cs := c_eflags d, r_eflags := dw d 0\<rparr>"
  have st: "code (gate_addr (idt s (unat n))) = Isr (unat n)"
    using assms(1) fault_number(1) [OF f] by (simp add: linked_def)
  have p: "stub_pushes (Isr (unat n)) = [?n]" using fault_number(3) [OF f] assms(2) by simp
  have "c_cs d AND 3 = 0" using assms(3) by (simp add: d_def assms(4))
  note r = shifted_frame [OF this, of ?n "tss s" "idt s (unat n)"]
  have "int_no ?r < 32" using fault_number(2) [OF f] by (simp add: frame_of_def)
  then have "interruptDispatcher dev cr2 ?r s = bindR (isr_fault cr2 ?r s) (\<lambda>t. Inr (Halted t))"
    using dispatch_fault by blast
  then obtain c' t where h: "isr_stub dev cr2 callee (Isr (unat n)) ?g s = Inr (Halted (c', t))" "isr_fault cr2 ?r s = Inr t"
    using isr_stub_fault [of dev cr2 "Isr (unat n)" ?g s ?r callee] unfolding p r by blast
  have "sendInterrupt code dev cr2 callee ip c1 s = Inr (Halted (c', t))"
    unfolding sendInterrupt_def Let_def num d_def [symmetric] interrupt_def st h(1) by simp
  moreover have "int_no ?r = ucast n \<and> err_code ?r = ip \<and> r_eip ?r = c_cs c \<and> r_cs ?r = c_eflags c \<and> r_eflags ?r = c_ebp c"
    by (simp add: frame_of_def dw) (simp add: d_def assms(4))
  ultimately show ?thesis using h(2) by blast
qed

theorem software_fault_is_shifted_witness:
  "\<exists>c' t r. sendInterrupt ex_code ex_dev 0 ex_callee 0x10412 (fold push [13, 0x10500] (ex_cpu 8)) st_gates =
       Inr (Halted (c', t)) \<and> isr_fault 0 r st_gates = Inr t \<and> err_code r = 0x10412 \<and> r_eip r = 8"
  using software_fault_is_shifted [OF ex_stub_facts(2), where n = 13 and c = "ex_cpu 8" and dev = ex_dev and ?cr2.0 = "0"
      and callee = ex_callee and ret = "0x10500" and ip = "0x10412"]
  by (auto simp: ex_cpu_def)

section \<open>System calls on the stack\<close>

definition uregs_of :: "cpu \<Rightarrow> uregs" where
  "uregs_of c = \<lparr>u_eax = c_eax c, u_ebx = c_ebx c, u_ecx = c_ecx c, u_edx = c_edx c, u_esi = c_esi c,
     u_edi = c_edi c, u_ebp = c_ebp c, u_ds = c_ds c, u_es = c_es c, u_fs = c_fs c, u_gs = c_gs c\<rparr>"

lemma frame_pushed:
  "frame_at (c_mem (push v c)) (c_esp c) =
     \<lparr>f_ebx = dw c 0, f_ecx = dw c 1, f_edx = dw c 2, f_esi = dw c 3, f_edi = dw c 4, f_ebp = dw c 5,
      f_eax = dw c 6, f_xds = dw c 7, f_xes = dw c 8, f_xfs = dw c 9, f_xgs = dw c 10, orig_eax = dw c 11\<rparr>"
  by (simp add: frame_at_def dword_pushed)

text \<open>What is popped does not depend on the result of the handler.\<close>

lemma int80_popped_eax: "int80_popped (add_esp 1 (c\<lparr>c_eax := v\<rparr>)) = int80_popped (add_esp 1 c)"
  by (simp add: int80_popped_def add_esp_def dw_def)

text \<open>What is on the stack behind a gate, and the registers that are not touched.\<close>

lemma take_gate_fields:
  "c_edi (take_gate ts g e c) = c_edi c" "c_esi (take_gate ts g e c) = c_esi c" "c_ebp (take_gate ts g e c) = c_ebp c"
  "c_ebx (take_gate ts g e c) = c_ebx c" "c_edx (take_gate ts g e c) = c_edx c" "c_ecx (take_gate ts g e c) = c_ecx c"
  "c_eax (take_gate ts g e c) = c_eax c" "c_ds (take_gate ts g e c) = c_ds c" "c_es (take_gate ts g e c) = c_es c"
  "c_fs (take_gate ts g e c) = c_fs c" "c_gs (take_gate ts g e c) = c_gs c"
  by (simp_all add: take_gate_def split: option.split)

lemma take_gate_stack:
  "dw (take_gate ts g None c) 0 = c_eip c" "dw (take_gate ts g None c) (Suc 0) = c_cs c"
  "dw (take_gate ts g None c) 2 = c_eflags c" "dw (take_gate ts g None c) (Suc (Suc 0)) = c_eflags c"
  "c_cs c AND 3 \<noteq> 0 \<Longrightarrow> dw (take_gate ts g None c) 3 = c_esp c \<and> dw (take_gate ts g None c) 4 = c_ss c"
  "c_cs c AND 3 = 0 \<Longrightarrow> c_esp (take_gate ts g None c) = c_esp c - 12 \<and> c_ss (take_gate ts g None c) = c_ss c"
  by (simp_all add: take_gate_def)

lemma int80_pushed:
  "dw (int80_pushes c) 0 = c_ebx c" "dw (int80_pushes c) (Suc 0) = c_ecx c" "dw (int80_pushes c) 2 = c_edx c"
  "dw (int80_pushes c) (Suc (Suc 0)) = c_edx c"
  "dw (int80_pushes c) 3 = c_esi c" "dw (int80_pushes c) 4 = c_edi c" "dw (int80_pushes c) 5 = c_ebp c"
  "dw (int80_pushes c) 6 = c_eax c" "dw (int80_pushes c) 7 = c_ds c" "dw (int80_pushes c) 8 = c_es c"
  "dw (int80_pushes c) 9 = c_fs c" "dw (int80_pushes c) 10 = c_gs c" "dw (int80_pushes c) 11 = c_eax c"
  "dw (int80_pushes c) 12 = dw c 0" "dw (int80_pushes c) 13 = dw c (Suc 0)" "dw (int80_pushes c) 14 = dw c 2"
  "dw (int80_pushes c) 15 = dw c 3" "dw (int80_pushes c) 16 = dw c 4"
  "c_esp (int80_pushes c) = c_esp c - 48" "c_ss (int80_pushes c) = c_ss c"
  by (simp_all add: int80_pushes_def)

lemma int80_return:
  assumes "cdecl f"
  shows "same_regs c (iretd (add_esp 1 (int80_popped (add_esp 1
    (f (push v ((int80_pushes (take_gate ts g None c))\<lparr>c_eax := w\<rparr>)))))))"
  using take_gate_stack [where ts = ts and g = g and c = c]
  by (simp add: int80_popped_def iretd_def same_regs_def cdeclD [OF assms] int80_pushed take_gate_fields Let_def)

lemma int80_handler:
  assumes "cdecl callee"
  shows "\<exists>c'. same_regs c c' \<and>
    int80 dispatch callee c s =
      bindR (int80Handler dispatch (uregs_of c) s) (\<lambda>(u, t). Inr (map_option (\<lambda>_. c') u, t))"
proof -
  let ?g = "take_gate (tss s) (idt s 0x80) None c"
  let ?c1 = "int80_pushes ?g"
  let ?c2 = "push (c_esp ?c1) (?c1\<lparr>c_eax := c_esp ?c1\<rparr>)"
  let ?c' = "iretd (add_esp 1 (int80_popped (add_esp 1 (callee ?c2))))"
  have "same_regs c ?c'" by (rule int80_return [OF assms])
  moreover have "frame_at (c_mem ?c2) (dw ?c2 0) = int80_frame (uregs_of c)"
    using frame_pushed [of "c_esp ?c1" "?c1\<lparr>c_eax := c_esp ?c1\<rparr>"]
    by (simp add: int80_frame_def uregs_of_def take_gate_fields int80_pushed)
  ultimately show ?thesis
    unfolding int80_def int80_stub_def Let_def int80_popped_eax int80_lost
    by (intro exI [where x = ?c'])
      (cases "dispatch (int80_frame (uregs_of c)) s"; auto split: option.split)
qed

text \<open>
  C27. On the stack, the entry of system calls is what its effect on the registers says: the dispatcher gets
  the program's registers, and the program goes on with all of them as they were, its stack and flags
  included - EAX too, over the result.
\<close>

theorem system_call_on_stack:
  assumes "cdecl callee"
  shows "\<exists>c'. same_regs c c' \<and>
    int80 dispatch callee c s =
      bindR (int80Handler dispatch (uregs_of c) s) (\<lambda>(u, t). Inr (map_option (\<lambda>_. c') u, t))"
  by (rule int80_handler [OF assms])

theorem system_call_on_stack_witness:
  "\<exists>c'. int80 (\<lambda>f t. Inr (Some 5, t)) ex_callee (ex_cpu 0x1B) st_gates = Inr (Some c', st_gates) \<and>
     c_eax c' = 7 \<and> c_esp c' = 0x9E00"
  using system_call_on_stack [OF ex_stub_facts(1), of "ex_cpu 0x1B" "\<lambda>f t. Inr (Some 5, t)" st_gates]
  by (auto simp: int80_lost same_regs_def ex_cpu_def)

section \<open>Waiting with interrupts off\<close>

text \<open>The keyboard interrupts that may come while the processor is in a state.\<close>

definition may_interrupt :: "cpu \<Rightarrow> nat list \<Rightarrow> bool" where
  "may_interrupt c polls \<longleftrightarrow> interrupts_on c \<or> set polls \<subseteq> {0}"

lemma gate_clears_flag:
  assumes "gate_type g = 14"
  shows "\<not> interrupts_on (take_gate ts g err c)"
  using assms by (simp add: take_gate_def interrupts_on_def bit_simps)

lemma readStdin_starves:
  fixes s :: "'a proc_scheme"
  assumes "set polls \<subseteq> {0}" "keyboard_inv s" "10 \<notin> set (pending s)" "13 \<notin> set (pending s)"
    "pos + length (pending s) \<le> 256"
  shows "readStdin_loop dev polls pos s = Inl Blocked"
  using assms
proof (induction polls arbitrary: pos s)
  case (Cons n polls)
  note IH = Cons.IH and prems = Cons.prems
  have n: "interrupts dev n s = s" using prems(1) by (simp add: interrupts_def)
  have polls: "set polls \<subseteq> {0}" using prems(1) by simp
  show ?case
  proof (cases "pending s")
    case Nil
    then show ?thesis
      using IH [OF polls prems(2-5)] getInput_empty [OF Nil prems(2)] n by simp
  next
    case (Cons c cs)
    let ?g = "snd (getInput s)"
    have g: "fst (getInput s) = c" "pending ?g = cs" "keyboard_inv ?g"
      using getInput_pending [OF prems(2) Cons] getInput_keeps [OF prems(2)] by simp_all
    have c: "c \<noteq> 10" "c \<noteq> 13" "10 \<notin> set cs" "13 \<notin> set cs" "pos + Suc (length cs) \<le> 256"
      using prems(3-5) Cons by auto
    have starve: "readStdin_loop dev polls q t = Inl Blocked"
      if "pending t = cs" "keyboard_inv t" "q \<le> Suc pos" for q and t :: "'a proc_scheme"
      using IH [OF polls, of t q] that c by simp
    show ?thesis
      using g c starve n by (auto simp: case_prod_beta Let_def)
  qed
qed simp

lemma kread_starves:
  fixes s :: "'a proc_scheme"
  assumes "set polls \<subseteq> {0}" "keyboard_inv s" "10 \<notin> set (pending s)" "13 \<notin> set (pending s)" "stdinLineReady s = 0"
  shows "kread_impl dev polls 0 count s = Inl Blocked"
proof -
  have "length (pending s) \<le> 256" using assms(2) by (auto simp: ring_used_def keyboard_inv_def)
  then have "readStdin_loop dev polls 0 s = Inl Blocked" using readStdin_starves [OF assms(1-4)] by simp
  then show ?thesis using assms(5) by (simp add: kread_impl_def readStdinLine_def)
qed

lemma handler_polls:
  assumes "linked code s" "may_interrupt (take_gate (tss s) (idt s 0x80) None c) polls"
  shows "set polls \<subseteq> {0}"
proof -
  have "gate_type (idt s (unat (0x80 :: u8))) = 14" using assms(1) unfolding linked_def by blast
  then show ?thesis using assms(2) gate_clears_flag by (simp add: may_interrupt_def)
qed

text \<open>
  C37. The gate of the system call is an interrupt gate, so handlers run with interrupts off, and nothing
  turns them on: unless a whole line was typed before, \<open>read\<close> on descriptor 0 never returns, however long it
  polls. The same holds for the input of the shell that \<open>exit\<close> starts.
\<close>

theorem waiting_with_interrupts_off:
  assumes "linked code s" "keyboard_inv s" "10 \<notin> set (pending s)" "13 \<notin> set (pending s)" "stdinLineReady s = 0"
    and "may_interrupt (take_gate (tss s) (idt s 0x80) None c) polls" "u_eax u = 2" "u_ebx u = 0"
  shows "syscallDispatcher lc dev polls heap (int80_frame u) s = Inl Blocked \<and> stdin_get dev polls s = Inl Blocked"
proof -
  have "kread_impl dev polls 0 count s = Inl Blocked" for count
    by (rule kread_starves [OF handler_polls [OF assms(1,6)] assms(2-5)])
  then show ?thesis
    using dispatch_known(3) [of "int80_frame u" lc dev polls heap s] assms(7,8)
    by (simp add: int80_frame_def sys_read_def syscall_macros stdin_get_def)
qed

lemma initIdt_observed:
  fixes f :: "'a traps_scheme \<Rightarrow> 'b"
  assumes f: "\<And>x t. f (t\<lparr>trace := x\<rparr>) = f t" "\<And>x t. f (t\<lparr>idt := x\<rparr>) = f t"
    "\<And>x t. f (t\<lparr>idtp_limit := x\<rparr>) = f t" "\<And>x t. f (t\<lparr>idtp_base := x\<rparr>) = f t"
  shows "f (initIdt addr ia s) = f s"
proof -
  have gate: "f (setIdtGate n b t) = f t" "f (setIdtGateWithFlags n b fl t) = f t" for n b fl t
    by (simp_all add: setIdtGate_def setIdtGateWithFlags_def f)
  have gates: "f (fold (\<lambda>i. setIdtGate (g i) (h i)) xs t) = f t" for g h xs t
    by (induction xs arbitrary: t) (simp_all add: gate)
  have "f (remapPic t) = f t" for t by (simp add: remapPic_def port_io_shape f)
  then show ?thesis by (simp add: initIdt_def Let_def gate gates f del: fold_simps)
qed

lemma initGdt_observed:
  fixes f :: "'a descs_scheme \<Rightarrow> 'b"
  assumes f: "\<And>x t. f (t\<lparr>gdt := x\<rparr>) = f t" "\<And>x t. f (t\<lparr>gdtp_limit := x\<rparr>) = f t"
    "\<And>x t. f (t\<lparr>gdtp_base := x\<rparr>) = f t" "\<And>x t. f (t\<lparr>tss := x\<rparr>) = f t"
  shows "f (initGdt ga ta stk s) = f s"
  by (simp add: initGdt_def setTssGate_def setGdtGate_def Let_def f)

lemma initIdt_frame [frame, simp]:
  "pending (initIdt addr ia s) = pending s" "keyboard_inv (initIdt addr ia s) = keyboard_inv s"
  "console_inv (initIdt addr ia s) = console_inv s" "tarBuf (initIdt addr ia s) = tarBuf s"
  "fdTable (initIdt addr ia s) = fdTable s" "tss (initIdt addr ia s) = tss s"
  "stdinLineReady (initIdt addr ia t) = stdinLineReady t" "blocking (initIdt addr ia s) = blocking s"
  by (rule initIdt_observed; simp add: pending_def keyboard_inv_def console_inv_def)+

lemma initGdt_frame [frame, simp]:
  "pending (initGdt ga ta stk s) = pending s" "keyboard_inv (initGdt ga ta stk s) = keyboard_inv s"
  "console_inv (initGdt ga ta stk s) = console_inv s" "tarBuf (initGdt ga ta stk s) = tarBuf s"
  "fdTable (initGdt ga ta stk s) = fdTable s" "idt (initGdt ga ta stk u) = idt u"
  "stdinLineReady (initGdt ga ta stk t) = stdinLineReady t" "blocking (initGdt ga ta stk s) = blocking s"
  "trace (initGdt ga ta stk s) = trace s"
  by (rule initGdt_observed; simp add: pending_def keyboard_inv_def console_inv_def)+

lemma st_gates_keyboard: "keyboard_inv st_gates" "pending st_gates = []" "stdinLineReady st_gates = 0"
proof -
  have "stdinLineReady st0 = 0" by (simp add: st0_def ex_state_def)
  then show "keyboard_inv st_gates" "pending st_gates = []" "stdinLineReady st_gates = 0"
    by (simp_all add: st_gates_def) (simp_all add: st0_def)
qed

theorem waiting_with_interrupts_off_witness:
  "\<exists>u. u_eax u = 2 \<and> syscallDispatcher ex_libc ex_dev (replicate 1000 0) 0x200000 (int80_frame u) st_gates = Inl Blocked"
proof -
  let ?u = "uregs_of ((ex_cpu 0x1B)\<lparr>c_eax := 2, c_ebx := 0\<rparr>)"
  have "may_interrupt c (replicate 1000 0)" for c by (auto simp: may_interrupt_def)
  then have "syscallDispatcher ex_libc ex_dev (replicate 1000 0) 0x200000 (int80_frame ?u) st_gates = Inl Blocked \<and>
      stdin_get ex_dev (replicate 1000 0) st_gates = Inl Blocked"
    by (intro waiting_with_interrupts_off [OF ex_stub_facts(2)]) (simp_all add: st_gates_keyboard uregs_of_def)
  then show ?thesis by (intro exI [where x = ?u]) (simp add: uregs_of_def)
qed

end
