(* ===== verification/Session.thy ===== *)
theory Session
  imports Stubs Simulation
begin

text \<open>
  The shell as a program over files: what a line does to the archive in memory, the archive on the disk
  and the screen (\<open>line_spec\<close>), for the lines that come back to the prompt (\<open>line_ok\<close>), and the simulation
  of it by the turns of the loop of src/sh.c.
\<close>

section \<open>What output and disk transfers leave alone\<close>

lemma writeChar_observed:
  fixes f :: "'a console_scheme \<Rightarrow> 'b"
  assumes f: "\<And>x t. f (t\<lparr>trace := x\<rparr>) = f t" "\<And>x t. f (t\<lparr>vram := x\<rparr>) = f t"
    "\<And>x t. f (t\<lparr>cursorX := x\<rparr>) = f t" "\<And>x t. f (t\<lparr>cursorY := x\<rparr>) = f t"
  shows "f (writeChar c s) = f s" "f (fold writeChar cs s) = f s" "f (writeStr cs s) = f s" "f (clearScreen s) = f s"
proof -
  have move: "f (moveCursor x y t) = f t" for x y t by (simp add: moveCursor_def port_io_shape Let_def f)
  have put: "f (put_cell c t) = f t" for c t by (simp add: put_cell_def Let_def f)
  have "f (scroll t) = f t" for t
    unfolding scroll_def Let_def by (simp only: f)
  then have fit: "f (fit_cursor t) = f t" for t by (simp add: fit_cursor_def Let_def f)
  have w: "f (writeChar c t) = f t" for c t by (simp add: writeChar_shape Let_def move fit put f)
  show "f (writeChar c s) = f s" by (rule w)
  show "f (fold writeChar cs s) = f s" by (induction cs arbitrary: s) (simp_all add: w)
  show "f (writeStr cs s) = f s" by (induction cs s rule: writeStr.induct) (simp_all add: w)
  show "f (clearScreen s) = f s" unfolding clearScreen_def Let_def move by (simp only: f)
qed

lemma keyboard_inv_writeStr [simp]: "keyboard_inv (writeStr cs s) = keyboard_inv s"
  by (rule writeChar_observed; simp add: keyboard_inv_def)

lemma output_sysTicks [frame, simp]:
  "sysTicks (fold writeChar cs s) = sysTicks s" "sysTicks (writeStr cs s) = sysTicks s"
  "sysTicks (clearScreen s) = sysTicks s"
  by (rule writeChar_observed; simp)+

text \<open>Disk transfers change the port history and the archive buffer only.\<close>

definition quiet :: "'a tarfs_scheme \<Rightarrow> 'a tarfs_scheme \<Rightarrow> bool" where
  "quiet s t \<longleftrightarrow> t = s\<lparr>trace := trace t, tarBuf := tarBuf t\<rparr>"

lemma quiet_trans: "quiet r s \<Longrightarrow> quiet s t \<Longrightarrow> quiet r t"
proof -
  assume "quiet r s" "quiet s t"
  then obtain x b y c where "s = r\<lparr>trace := x, tarBuf := b\<rparr>" "t = s\<lparr>trace := y, tarBuf := c\<rparr>"
    unfolding quiet_def by blast
  then show "quiet r t" by (simp add: quiet_def)
qed

lemma only_io_quiet: "only_io s t \<Longrightarrow> quiet s t"
proof -
  assume "only_io s t"
  then obtain x where "t = s\<lparr>trace := x\<rparr>" unfolding only_io_def by blast
  then show "quiet s t" by (simp add: quiet_def)
qed

lemma quiet_for_to:
  assumes "\<And>i t. quiet t (body i t)"
  shows "quiet s (for_to n body s)"
proof (induction n)
  case (Suc n)
  then show ?case using quiet_trans [OF Suc assms] by simp
qed (simp add: quiet_def)

lemma quiet_tarLoad: "quiet s (tarLoad dev s)"
  unfolding tarLoad_def
proof (rule quiet_for_to)
  fix i and t :: "'a tarfs_scheme"
  obtain ws t1 where r: "ataRead dev (TAR_START_LBA + of_nat i) t = (ws, t1)" by fastforce
  then have "quiet t t1" using only_io_quiet [OF only_io_ataRead, of t dev "TAR_START_LBA + of_nat i"] by simp
  moreover have "quiet t1 (t1\<lparr>tarBuf := b\<rparr>)" for b by (simp add: quiet_def)
  ultimately show "quiet t (let (ws, s1) = ataRead dev (TAR_START_LBA + of_nat i) t
      in s1\<lparr>tarBuf := store_words (tarBuf s1) (i * 512) ws\<rparr>)"
    unfolding r by simp (rule quiet_trans)
qed

lemma quiet_tarFlush: "quiet s (tarFlush dev s)"
  unfolding tarFlush_def by (intro quiet_for_to only_io_quiet only_io_ataWrite)

lemma quiet_fields:
  assumes "quiet s t"
  shows "term_view t = term_view s" "COLOR t = COLOR s" "console_inv t = console_inv s"
    "keyboard_inv t = keyboard_inv s" "pending t = pending s"
proof -
  obtain x b where t: "t = s\<lparr>trace := x, tarBuf := b\<rparr>" using assms unfolding quiet_def by blast
  show "term_view t = term_view s" "COLOR t = COLOR s" "console_inv t = console_inv s"
    "keyboard_inv t = keyboard_inv s" "pending t = pending s"
    by (simp_all add: t term_view_def console_inv_def keyboard_inv_def pending_def)
qed

lemma transfer_sysTicks [frame, simp]: "sysTicks (tarLoad dev s) = sysTicks s" "sysTicks (tarFlush dev s) = sysTicks s"
proof -
  have "sysTicks t = sysTicks s" if q: "quiet s t" for t
  proof -
    obtain x b where "t = s\<lparr>trace := x, tarBuf := b\<rparr>" using q unfolding quiet_def by blast
    then show ?thesis by simp
  qed
  then show "sysTicks (tarLoad dev s) = sysTicks s" "sysTicks (tarFlush dev s) = sysTicks s"
    using quiet_tarLoad quiet_tarFlush by blast+
qed

lemma quiet_transfer [simp]:
  "term_view (tarLoad dev s) = term_view s" "term_view (tarFlush dev s) = term_view s"
  "COLOR (tarLoad dev s) = COLOR s" "COLOR (tarFlush dev s) = COLOR s"
  "console_inv (tarLoad dev s) = console_inv s" "console_inv (tarFlush dev s) = console_inv s"
  "keyboard_inv (tarLoad dev s) = keyboard_inv s" "keyboard_inv (tarFlush dev s) = keyboard_inv s"
  by (rule quiet_fields [OF quiet_tarLoad] quiet_fields [OF quiet_tarFlush])+

section \<open>The state of a session\<close>

record shell_view =
  sv_files :: "tar_file list"
  sv_disk :: "tar_file list"
  sv_screen :: terminal
  sv_color :: u8
  sv_ticks :: u32

definition names_ok :: "tar_file list \<Rightarrow> bool" where
  "names_ok es \<longleftrightarrow> distinct (map fst es) \<and> (\<forall>e\<in>set es. fst e \<noteq> [])"

definition sh_rel :: "device \<Rightarrow> drive \<Rightarrow> nat \<Rightarrow> 'a proc_scheme \<Rightarrow> shell_view \<Rightarrow> bool" where
  "sh_rel dev d0 k s a \<longleftrightarrow>
     ata_ready dev d0 k s \<and> archive (tarBuf s) (sv_files a) \<and> archive (disk_buffer d0 k s) (sv_disk a) \<and>
     names_ok (sv_files a) \<and> names_ok (sv_disk a) \<and> console_inv s \<and> keyboard_inv s \<and>
     term_view s = sv_screen a \<and> COLOR s = sv_color a \<and> sysTicks s = sv_ticks a"

definition typed_text :: "u8 list \<Rightarrow> shell_view \<Rightarrow> shell_view" where
  "typed_text txt a = a\<lparr>sv_screen := fold (term_put (sv_color a)) txt (sv_screen a)\<rparr>"

definition prints :: "shell_env \<Rightarrow> string \<Rightarrow> fmt_arg list \<Rightarrow> shell_view \<Rightarrow> shell_view" where
  "prints env fmt args = typed_text (sh_printf env (bytes fmt) args)"

definition blank :: "u8 \<Rightarrow> terminal" where
  "blank col = \<lparr>cells = (\<lambda>y x. if on_screen y x then (32, col) else (0, 0)), tx = 0, ty = 0\<rparr>"

lemma rel_print:
  assumes "sh_rel dev d0 k s a"
  shows "sh_rel dev d0 k (print env fmt args s) (prints env fmt args a)"
proof -
  have "term_view (fold writeChar cs t) = fold (term_put (COLOR t)) cs (term_view t) \<and>
      console_inv (fold writeChar cs t) \<and> COLOR (fold writeChar cs t) = COLOR t \<and>
      keyboard_inv (fold writeChar cs t) = keyboard_inv t" if "console_inv t" for cs and t :: "'a proc_scheme"
    using that by (induction cs arbitrary: t) (simp_all add: view_writeChar writeChar_keeps)
  then show ?thesis
    using assms by (simp add: sh_rel_def prints_def typed_text_def) (simp add: print_writes)
qed

lemma rel_writeStr:
  assumes "sh_rel dev d0 k s a" "cstring txt"
  shows "sh_rel dev d0 k (writeStr txt s) (typed_text txt a)"
  using assms by (simp add: sh_rel_def typed_text_def view_writeStr writeStr_keeps)

lemma rel_load:
  assumes "sh_rel dev d0 k s a"
  shows "sh_rel dev d0 k (tarLoad dev s) (a\<lparr>sv_files := sv_disk a\<rparr>)"
  using assms tarLoad_disk(1) [of dev d0 k s] tarLoad_archive [of dev d0 k s "sv_disk a"]
  by (simp add: sh_rel_def)

lemma rel_flush:
  assumes "sh_rel dev d0 k s a"
  shows "sh_rel dev d0 k (tarFlush dev s) (a\<lparr>sv_disk := sv_files a\<rparr>)"
  using assms tarFlush_disk(1,2) [of dev d0 k s] tarFlush_archive [of dev d0 k s "sv_files a"]
  by (simp add: sh_rel_def)

lemma rel_fields:
  "sh_rel dev d0 k (s\<lparr>blocking := x\<rparr>) a = sh_rel dev d0 k s a"
  by (simp add: sh_rel_def console_inv_def keyboard_inv_def term_view_def)

lemma rel_buffer:
  assumes "sh_rel dev d0 k s a" "archive b es" "names_ok es"
  shows "sh_rel dev d0 k (s\<lparr>tarBuf := b\<rparr>) (a\<lparr>sv_files := es\<rparr>)"
  using assms by (simp add: sh_rel_def console_inv_def keyboard_inv_def term_view_def)

lemma view_clearScreen: "term_view (clearScreen s) = blank (COLOR s)"
proof -
  have "table_of (vram (clearScreen s)) = (\<lambda>y x. if on_screen y x then (32, COLOR s) else (0, 0))"
    using clear_cells [where n = 2000 and col = "COLOR s" and m = 0 and v = "vram s"]
    by (auto simp: clearScreen_def moveCursor_def port_io_shape Let_def table_of_def on_screen_def fun_eq_iff)
  moreover have "cursorX (clearScreen s) = 0" "cursorY (clearScreen s) = 0"
    by (simp_all add: clearScreen_def moveCursor_def port_io_shape Let_def)
  ultimately show ?thesis by (simp add: term_view_def blank_def)
qed

lemma same_drive:
  assumes "drive_after d0 k (trace t) = drive_after d0 k (trace s)"
  shows "ata_ready dev d0 k t = ata_ready dev d0 k s" "disk_buffer d0 k t = disk_buffer d0 k s"
  by (simp_all add: assms ata_ready_def ata_sector_def disk_buffer_def fun_eq_iff)

lemma clearScreen_disk [simp]:
  "ata_ready dev d0 k (clearScreen s) = ata_ready dev d0 k s" "disk_buffer d0 k (clearScreen s) = disk_buffer d0 k s"
  by (rule same_drive; simp add: clearScreen_def moveCursor_trace)+

lemma clearScreen_fields [simp]:
  "COLOR (clearScreen s) = COLOR s" "keyboard_inv (clearScreen t) = keyboard_inv t" "tarBuf (clearScreen u) = tarBuf u"
  by (rule writeChar_observed; simp add: keyboard_inv_def)+

lemma rel_clear:
  assumes "sh_rel dev d0 k s a"
  shows "sh_rel dev d0 k (clearScreen s) (a\<lparr>sv_screen := blank (sv_color a)\<rparr>)"
  using assms by (simp add: sh_rel_def view_clearScreen clearScreen_keeps)

lemma rel_shutdown:
  assumes "sh_rel dev d0 k s a"
  shows "sh_rel dev d0 k (shutdown s) a"
proof -
  have d: "drive_after d0 k (trace (shutdown s)) = drive_after d0 k (trace s)" by (simp add: shutdown_def)
  have "shutdown s = s\<lparr>trace := trace (shutdown s)\<rparr>" by (simp add: shutdown_def port_io_shape)
  then obtain x where x: "shutdown s = s\<lparr>trace := x\<rparr>" by blast
  show ?thesis
    using assms same_drive [OF d] unfolding sh_rel_def by (simp add: x console_inv_def keyboard_inv_def term_view_def)
qed

section \<open>What a line does\<close>

definition edit_spec :: "u8 list \<Rightarrow> shell_view \<Rightarrow> shell_view" where
  "edit_spec f a =
     (let es = (if map_of (sv_files a) f = None then sv_files a else remove_file f (sv_files a) @ [(f, [])])
      in a\<lparr>sv_files := es, sv_disk := es\<rparr>)"

definition free_report :: "shell_env \<Rightarrow> u8 list \<Rightarrow> shell_view \<Rightarrow> shell_view" where
  "free_report env flag =
     (let total = getTotalMem (sh_entries env);
          used = getUsedMem (fst (sh_kernel env)) (snd (sh_kernel env));
          report = (\<lambda>fmt unit. prints env fmt
            [ArgInt (total div of_nat unit), ArgInt (used div of_nat unit), ArgInt (signed_div (total - used) (int unit))])
      in if flag = bytes ''-m'' then report ''total = %dm, used = %dm, free = %dm\<newline>'' (1024 * 1024)
         else if flag = bytes ''-g'' then report ''total = %dg, used = %dg, free = %dg\<newline>'' (1024 * 1024 * 1024)
         else if flag = bytes ''-b'' then report ''total = %db, used = %db, free = %db\<newline>'' 1
         else report ''total = %dk, used = %dk, free = %dk\<newline>'' 1024)"

definition rm_spec :: "shell_env \<Rightarrow> u8 list \<Rightarrow> shell_view \<Rightarrow> shell_view" where
  "rm_spec env f a =
     (if map_of (sv_files a) f = None then prints env ''Not found\<newline>'' [] a
      else let es = remove_file f (sv_files a)
           in typed_text (listing es) (prints env ''reloaded, verifying...\<newline>'' [] (prints env ''flushed to disk\<newline>'' []
                (prints env ''removed from buffer\<newline>'' [] (a\<lparr>sv_files := es, sv_disk := es\<rparr>)))))"

definition touch_spec :: "u8 list \<Rightarrow> shell_view \<Rightarrow> shell_view" where
  "touch_spec f a =
     (let es = (if map_of (sv_files a) f = None then sv_files a @ [(f, [])] else sv_files a)
      in a\<lparr>sv_files := es, sv_disk := es\<rparr>)"

definition line_spec :: "shell_env \<Rightarrow> u8 list list \<Rightarrow> shell_view \<Rightarrow> shell_view" where
  "line_spec env toks a =
     (if toks = [] then a
      else let cmd = toks ! 0; arg = toks ! 1; loaded = a\<lparr>sv_files := sv_disk a\<rparr>
      in if cmd = bytes ''help'' then
           prints env ''Available: help, echo, clear, ping, uptime, uname, free, cat, ls, panic, reboot, shutdown\<newline>'' [] a
         else if cmd = bytes ''echo'' then
           (if arg = bytes ''>'' then edit_spec (toks ! 2) loaded
            else fold (\<lambda>t. prints env ''%s '' [ArgStr t]) (tl toks) a)
         else if cmd = bytes ''clear'' then a\<lparr>sv_screen := blank (sv_color a)\<rparr>
         else if cmd = bytes ''ping'' then prints env ''Pong!\<newline>'' [] a
         else if cmd = bytes ''uptime'' then prints env ''%d s\<newline>'' [ArgInt (sv_ticks a div 100)] a
         else if cmd = bytes ''uname'' then
           prints env ''lanternOS i386 v%s (built %s on %s)\<newline>''
             [ArgStr (sh_version env), ArgStr (fst (sh_build env)), ArgStr (snd (sh_build env))] a
         else if cmd = bytes ''arch'' then
           prints env ''x86%s\<newline>'' [ArgStr (if supports64bit (sh_cpuid env) then bytes ''_64'' else [])] a
         else if cmd = bytes ''free'' then free_report env arg a
         else if cmd = bytes ''ls'' then prints env ''\<newline>'' [] (typed_text (listing (sv_disk a)) loaded)
         else if cmd = bytes ''rm'' then rm_spec env arg a
         else if cmd = bytes ''cat'' then
           (if arg = bytes ''>'' then edit_spec (toks ! 2) loaded
            else typed_text (filter (\<lambda>c. c \<noteq> 0) (the (map_of (sv_disk a) arg))) loaded)
         else if cmd = bytes ''touch'' then touch_spec arg a
         else if cmd = bytes ''shutdown'' then a
         else prints env (if map_of (sv_files a) cmd = None then ''Not found\<newline>'' else ''Corrupted binary\<newline>'') [] a)"

text \<open>
  The lines the specification covers: the arguments a command uses are there; a file that is typed is on the
  disk; a new file has a short name and room; what \<open>echo\<close> finds behind its input ends in a NUL; no long
  listing; and no command that leaves the shell (\<open>panic\<close>, \<open>reboot\<close>, or a file with the header of a program).
\<close>

definition names_program :: "shell_view \<Rightarrow> u8 list \<Rightarrow> bool" where
  "names_program a f \<longleftrightarrow> (case map_of (sv_files a) f of None \<Rightarrow> False | Some d \<Rightarrow> elf_header d)"

definition plain_commands :: "u8 list set" where
  "plain_commands = {bytes ''help'', bytes ''clear'', bytes ''ping'', bytes ''uptime'', bytes ''uname'', bytes ''arch'', bytes ''shutdown''}"

definition file_commands :: "u8 list set" where
  "file_commands = {bytes ''echo'', bytes ''free'', bytes ''ls'', bytes ''rm'', bytes ''cat'', bytes ''touch''}"

definition line_ok :: "shell_env \<Rightarrow> u8 list list \<Rightarrow> u8 list \<Rightarrow> shell_view \<Rightarrow> bool" where
  "line_ok env toks input a \<longleftrightarrow>
     toks = [] \<or> toks ! 0 \<in> plain_commands \<or>
     toks ! 0 \<notin> plain_commands \<union> file_commands \<union> {bytes ''panic'', bytes ''reboot''} \<and> \<not> names_program a (toks ! 0) \<or>
     1 < length toks \<and>
       (toks ! 0 = bytes ''free'' \<or>
        toks ! 0 = bytes ''echo'' \<and> (toks ! 1 \<noteq> bytes ''>'' \<or>
          2 < length toks \<and> length input < 256 \<and> 0 \<in> set (drop (length input + 1) (sh_stack env))) \<or>
        toks ! 0 = bytes ''cat'' \<and>
          (if toks ! 1 = bytes ''>'' then 2 < length toks \<and> length input < 256 else map_of (sv_disk a) (toks ! 1) \<noteq> None) \<or>
        toks ! 0 \<in> {bytes ''ls'', bytes ''rm''} \<and> toks ! 1 \<noteq> bytes ''-l'' \<or>
        toks ! 0 = bytes ''touch'' \<and> length (toks ! 1) < 100 \<and>
          (map_of (sv_files a) (toks ! 1) = None \<longrightarrow> end_of 0 (sv_files a) + 1024 \<le> TAR_BUF_SIZE))"

section \<open>Each command\<close>

lemma words_of_good:
  "cstring cs \<Longrightarrow> cstring w \<Longrightarrow> t \<in> set (words_of w cs) \<Longrightarrow> t \<noteq> [] \<and> cstring t"
  by (induction w cs rule: words_of.induct) (auto split: if_splits)

lemma tokens_good:
  assumes "cstring line" "t \<in> set (tokenize line n)"
  shows "t \<noteq> []" "cstring t"
  using words_of_good [OF assms(1), of "[]" t] assms(2) in_set_takeD [of t n] by (auto simp: tokenize_words [OF assms(1)])

lemma names_ok_add: "names_ok es \<Longrightarrow> map_of es f = None \<Longrightarrow> f \<noteq> [] \<Longrightarrow> names_ok (es @ [(f, d)])"
  by (auto simp: names_ok_def map_of_eq_None_iff)

lemma names_ok_remove: "names_ok es \<Longrightarrow> names_ok (remove_file f es)"
  unfolding names_ok_def names_remove using remove_file_names by (fastforce simp: distinct_remove1)

lemma names_ok_edit: "names_ok es \<Longrightarrow> map_of es f \<noteq> None \<Longrightarrow> names_ok (remove_file f es @ [(f, d)])"
proof (rule names_ok_add)
  assume "names_ok es" "map_of es f \<noteq> None"
  then show "map_of (remove_file f es) f = None" by (simp add: map_of_remove names_ok_def)
  obtain c where "map_of es f = Some c" using \<open>map_of es f \<noteq> None\<close> by blast
  then show "f \<noteq> []" using \<open>names_ok es\<close> map_of_SomeD [of es f c] by (auto simp: names_ok_def)
qed (rule names_ok_remove)

lemma sim_edit:
  assumes "sh_rel dev d0 k s a" "2 < length toks" "cstring (toks ! 2)"
  shows "\<exists>s'. edit_from_input dev toks data s = Inr (Next s') \<and> sh_rel dev d0 k s' (edit_spec (toks ! 2) a)"
proof -
  let ?f = "toks ! 2" and ?es = "sv_files a"
  have a: "archive (tarBuf s) ?es" "names_ok ?es" using assms(1) by (simp_all add: sh_rel_def)
  define es where "es = (if map_of ?es ?f = None then ?es else remove_file ?f ?es @ [(?f, [])])"
  obtain r b where b: "tarEdit (tarBuf s) ?f data (of_nat (length data)) = Inr (r, b)" "archive b es" "names_ok es"
  proof (cases "map_of ?es ?f")
    case None
    then have "tarFind (tarBuf s) ?f = Inr None"
      using tarFind_archive [OF a(1) assms(3)] pos_of_None [of 0 ?es ?f] by simp
    then show ?thesis using None a that by (simp add: tarEdit_def es_def)
  next
    case (Some d)
    then show ?thesis
      using tarEdit_archive [OF a(1) assms(3) Some, of data "of_nat (length data)"] a(2) names_ok_edit [OF a(2), of ?f "[]"] that
      by (auto simp: es_def names_ok_def)
  qed
  have "edit_from_input dev toks data s = Inr (Next ((tarFlush dev (s\<lparr>tarBuf := b\<rparr>))\<lparr>blocking := 1\<rparr>))"
    using b(1) assms(2) by (simp add: edit_from_input_def tok_def)
  moreover have "sh_rel dev d0 k ((tarFlush dev (s\<lparr>tarBuf := b\<rparr>))\<lparr>blocking := 1\<rparr>) (edit_spec ?f a)"
    using rel_flush [OF rel_buffer [OF assms(1) b(2,3)]] by (simp add: rel_fields edit_spec_def es_def Let_def)
  ultimately show ?thesis by blast
qed

lemma sim_echo:
  assumes "sh_rel dev d0 k s a" "toks ! 0 = bytes ''echo''" "line_ok env toks input a" "toks \<noteq> []" "\<forall>t\<in>set toks. cstring t"
  shows "\<exists>s'. cmd_echo env dev toks input s = Inr (Next s') \<and> sh_rel dev d0 k s' (line_spec env toks a)"
proof -
  let ?loaded = "a\<lparr>sv_files := sv_disk a\<rparr>"
  have len: "1 < length toks" and ok: "toks ! 1 \<noteq> bytes ''>'' \<or>
      2 < length toks \<and> length input < 256 \<and> 0 \<in> set (drop (length input + 1) (sh_stack env))"
    using assms(2-4) by (auto simp: line_ok_def plain_commands_def file_commands_def)
  show ?thesis
  proof (cases "toks ! 1 = bytes ''>''")
    case True
    then have o: "2 < length toks" "length input < 256" "0 \<in> set (drop (length input + 1) (sh_stack env))"
      using ok by simp_all
    obtain data where "with_newline (sh_stack env) input = Inr data"
      using o(3) by (simp add: with_newline_def Let_def)
    moreover have "cstring (toks ! 2)" using assms(5) o(1) by simp
    moreover have "sh_rel dev d0 k ((tarLoad dev s)\<lparr>blocking := 0\<rparr>) ?loaded"
      using rel_load [OF assms(1)] by (simp add: rel_fields)
    ultimately show ?thesis
      using sim_edit [of dev d0 k "(tarLoad dev s)\<lparr>blocking := 0\<rparr>" ?loaded toks data] o(1,2) True len assms(2,4)
      by (simp add: cmd_echo_def tok_def line_spec_def Let_def)
  next
    case False
    have "sh_rel dev d0 k (fold (\<lambda>t. print env ''%s '' [ArgStr t]) ts u) (fold (\<lambda>t. prints env ''%s '' [ArgStr t]) ts b)"
      if "sh_rel dev d0 k u b" for ts u b
      using that by (induction ts arbitrary: u b) (simp_all add: rel_print)
    from this [OF assms(1)] show ?thesis
      using False len assms(2,4) by (simp add: cmd_echo_def tok_def line_spec_def Let_def)
  qed
qed

lemma sim_cat:
  assumes "sh_rel dev d0 k s a" "toks ! 0 = bytes ''cat''" "line_ok env toks input a" "toks \<noteq> []" "\<forall>t\<in>set toks. cstring t"
  shows "\<exists>s'. cmd_cat env dev toks input s = Inr (Next s') \<and> sh_rel dev d0 k s' (line_spec env toks a)"
proof -
  let ?loaded = "a\<lparr>sv_files := sv_disk a\<rparr>"
  have len: "1 < length toks" and ok: "if toks ! 1 = bytes ''>'' then 2 < length toks \<and> length input < 256
      else map_of (sv_disk a) (toks ! 1) \<noteq> None"
    using assms(2-4) by (auto simp: line_ok_def plain_commands_def file_commands_def)
  note load = rel_load [OF assms(1)]
  show ?thesis
  proof (cases "toks ! 1 = bytes ''>''")
    case True
    then have o: "2 < length toks" "length input < 256" using ok by simp_all
    moreover have "cstring (toks ! 2)" using assms(5) o(1) by simp
    moreover have "sh_rel dev d0 k ((tarLoad dev s)\<lparr>blocking := 0\<rparr>) ?loaded" using load by (simp add: rel_fields)
    ultimately show ?thesis
      using sim_edit [of dev d0 k "(tarLoad dev s)\<lparr>blocking := 0\<rparr>" ?loaded toks input] True len assms(2,4)
      by (simp add: cmd_cat_def tok_def line_spec_def Let_def)
  next
    case False
    then obtain d where d: "map_of (sv_disk a) (toks ! 1) = Some d" using ok by auto
    have "cstring (toks ! 1)" using assms(5) len by simp
    then have "tarPrintFile (toks ! 1) (tarLoad dev s) = Inr (writeStr (filter (\<lambda>c. c \<noteq> 0) d) (tarLoad dev s))"
      using tarPrintFile_archive [of "tarLoad dev s" "sv_disk a"] load d by (simp add: sh_rel_def)
    moreover have "cstring (filter (\<lambda>c. c \<noteq> 0) d)" by (simp add: cstring_def)
    ultimately show ?thesis
      using rel_writeStr [OF load] False len assms(2,4) d by (simp add: cmd_cat_def tok_def line_spec_def Let_def)
  qed
qed

lemma sim_list:
  assumes "sh_rel dev d0 k s a" "flag \<noteq> bytes ''-l''"
  shows "tarList flag s = Inr (writeStr (listing (sv_files a)) s)"
    "sh_rel dev d0 k (writeStr (listing (sv_files a)) s) (typed_text (listing (sv_files a)) a)"
proof -
  have a: "archive (tarBuf s) (sv_files a)" "\<forall>e\<in>set (sv_files a). fst e \<noteq> []"
    using assms(1) by (simp_all add: sh_rel_def names_ok_def)
  then show "tarList flag s = Inr (writeStr (listing (sv_files a)) s)"
    using tarList_archive [OF a] assms(2) by simp
  have "cstring (fst e)" if "e \<in> set (sv_files a)" for e
    using a(1) that archive_entry [of "tarBuf s" "sv_files a"] by (auto simp: in_set_conv_nth entry_at_def)
  then have "cstring (listing (sv_files a))"
    unfolding listing_def by (intro cstring_concat) (auto simp: list_all_iff)
  then show "sh_rel dev d0 k (writeStr (listing (sv_files a)) s) (typed_text (listing (sv_files a)) a)"
    by (rule rel_writeStr [OF assms(1)])
qed

lemma sim_ls:
  assumes "sh_rel dev d0 k s a" "toks ! 0 = bytes ''ls''" "1 < length toks" "toks ! 1 \<noteq> bytes ''-l''"
  shows "\<exists>s'. cmd_ls env dev toks s = Inr s' \<and> sh_rel dev d0 k s' (line_spec env toks a)"
proof -
  note l = sim_list [OF rel_load [OF assms(1)] assms(4)]
  have "toks \<noteq> []" using assms(3) by auto
  then show ?thesis
    using l(1) rel_print [OF l(2)] assms(2,3) by (simp add: cmd_ls_def tok_def line_spec_def Let_def)
qed

lemma sim_rm:
  assumes "sh_rel dev d0 k s a" "toks ! 0 = bytes ''rm''" "1 < length toks" "toks ! 1 \<noteq> bytes ''-l''" "cstring (toks ! 1)"
  shows "\<exists>s'. cmd_rm env dev toks s = Inr s' \<and> sh_rel dev d0 k s' (line_spec env toks a)"
proof -
  let ?f = "toks ! 1"
  have a: "archive (tarBuf s) (sv_files a)" "names_ok (sv_files a)" using assms(1) by (simp_all add: sh_rel_def)
  have spec: "line_spec env toks a = rm_spec env ?f a"
    using assms(2,3) by (auto simp: line_spec_def Let_def)
  show ?thesis
  proof (cases "map_of (sv_files a) ?f")
    case None
    have "s\<lparr>tarBuf := tarBuf s\<rparr> = s" by simp
    then show ?thesis
      using tarRm_missing [OF a(1) assms(5) None] rel_print [OF assms(1)] None assms(3)
      by (simp add: cmd_rm_def tok_def spec rm_spec_def)
  next
    case (Some d)
    let ?es = "remove_file ?f (sv_files a)"
    obtain b where b: "tarRm (tarBuf s) ?f = Inr (1, b)" "archive b ?es"
      using tarRm_archive [OF a(1) assms(5) Some] by blast
    note r1 = rel_print [OF rel_buffer [OF assms(1) b(2) names_ok_remove [OF a(2)]], of env "''removed from buffer\<newline>''" "[]"]
    note r2 = rel_print [OF rel_flush [OF r1], of env "''flushed to disk\<newline>''" "[]"]
    note r3 = rel_print [OF rel_load [OF r2], of env "''reloaded, verifying...\<newline>''" "[]"]
    note l = sim_list [OF r3 assms(4)]
    have swap: "v\<lparr>sv_disk := x, sv_files := y\<rparr> = v\<lparr>sv_files := y, sv_disk := x\<rparr>" for v :: shell_view and x y by simp
    show ?thesis
      using l b(1) assms(3) Some swap
      by (simp add: cmd_rm_def tok_def spec rm_spec_def Let_def prints_def typed_text_def)
  qed
qed

lemma sim_touch:
  assumes "sh_rel dev d0 k s a" "toks ! 0 = bytes ''touch''" "1 < length toks" "cstring (toks ! 1)" "toks ! 1 \<noteq> []"
    and "length (toks ! 1) < 100" "map_of (sv_files a) (toks ! 1) = None \<Longrightarrow> end_of 0 (sv_files a) + 1024 \<le> TAR_BUF_SIZE"
  shows "\<exists>s'. cmd_touch dev toks s = Inr s' \<and> sh_rel dev d0 k s' (line_spec env toks a)"
proof -
  let ?f = "toks ! 1"
  have a: "archive (tarBuf s) (sv_files a)" "names_ok (sv_files a)" using assms(1) by (simp_all add: sh_rel_def)
  define es where "es = (if map_of (sv_files a) ?f = None then sv_files a @ [(?f, [])] else sv_files a)"
  obtain r b where b: "tarTouch (tarBuf s) ?f = Inr (r, b)" "archive b es" "names_ok es"
  proof (cases "map_of (sv_files a) ?f")
    case None
    then show ?thesis
      using tarTouch_archive [OF a(1) None assms(4,6) assms(7) [OF None]] names_ok_add [OF a(2) None assms(5)] that
      by (auto simp: es_def)
  next
    case (Some d)
    then show ?thesis using tarTouch_there [OF a(1) Some assms(4)] a that by (auto simp: es_def)
  qed
  have spec: "line_spec env toks a = a\<lparr>sv_files := es, sv_disk := es\<rparr>"
    using assms(2,3) by (auto simp: line_spec_def touch_spec_def es_def Let_def)
  show ?thesis
    using rel_flush [OF rel_buffer [OF assms(1) b(2,3)]] b(1) assms(3)
    by (simp add: cmd_touch_def tok_def spec)
qed

lemma sim_free:
  assumes "sh_rel dev d0 k s a" "toks ! 0 = bytes ''free''" "1 < length toks"
  shows "\<exists>s'. cmd_free env toks s = Inr s' \<and> sh_rel dev d0 k s' (line_spec env toks a)"
proof -
  have "toks \<noteq> []" using assms(3) by auto
  then have spec: "line_spec env toks a = free_report env (toks ! 1) a"
    using assms(2) by (simp add: line_spec_def Let_def)
  show ?thesis
    unfolding spec cmd_free_def free_report_def Let_def
    using assms(3) by (simp add: tok_def rel_print [OF assms(1)])
qed

section \<open>A turn of the loop\<close>

lemma turn_of:
  assumes "tokenize line MAX_TOKENS = toks" "toks \<noteq> []"
  shows "toks ! 0 = bytes ''echo'' \<Longrightarrow> sh_turn env trap dev line input s = cmd_echo env dev toks input s"
    "toks ! 0 = bytes ''cat'' \<Longrightarrow> sh_turn env trap dev line input s = cmd_cat env dev toks input s"
    "toks ! 0 = bytes ''ls'' \<Longrightarrow> sh_turn env trap dev line input s = next_turn (cmd_ls env dev toks s)"
    "toks ! 0 = bytes ''rm'' \<Longrightarrow> sh_turn env trap dev line input s = next_turn (cmd_rm env dev toks s)"
    "toks ! 0 = bytes ''touch'' \<Longrightarrow> sh_turn env trap dev line input s = next_turn (cmd_touch dev toks s)"
    "toks ! 0 = bytes ''free'' \<Longrightarrow> sh_turn env trap dev line input s = next_turn (cmd_free env toks s)"
  using assms by (simp_all add: sh_turn_def Let_def)

lemma sim_plain:
  assumes "sh_rel dev d0 k s a" "tokenize line MAX_TOKENS = toks" "toks \<noteq> []" "toks ! 0 \<in> plain_commands"
  shows "\<exists>s'. sh_turn env trap dev line input s = Inr (Next s') \<and> sh_rel dev d0 k s' (line_spec env toks a)"
proof -
  have "sysTicks s = sv_ticks a" using assms(1) by (simp add: sh_rel_def)
  then show ?thesis
    using assms(2-4) rel_print [OF assms(1)] rel_clear [OF assms(1)] rel_shutdown [OF assms(1)]
    unfolding plain_commands_def by (elim insertE) (simp_all add: sh_turn_def line_spec_def Let_def)
qed

lemma unknown_turn:
  assumes "sh_rel dev d0 k s a" "tokenize line MAX_TOKENS = toks" "toks \<noteq> []" "toks ! 0 \<noteq> []" "cstring (toks ! 0)"
    and "toks ! 0 \<notin> plain_commands \<union> file_commands \<union> {bytes ''panic'', bytes ''reboot''}" "\<not> names_program a (toks ! 0)"
  defines "msg \<equiv> if map_of (sv_files a) (toks ! 0) = None then ''Not found\<newline>'' else ''Corrupted binary\<newline>''"
  shows "sh_turn env trap dev line input s = Inr (Next (print env msg [] s))"
proof -
  let ?f = "toks ! 0"
  have arch: "archive (tarBuf s) (sv_files a)" using assms(1) by (simp add: sh_rel_def)
  note find = tarFind_archive [OF arch assms(5)] and none = pos_of_None [of 0 "sv_files a" ?f]
  have "cmd_run env ?f s = Inr (Next (print env msg [] s))"
  proof (cases "map_of (sv_files a) ?f")
    case None
    then show ?thesis using find none by (simp add: cmd_run_def msg_def)
  next
    case (Some d)
    then have "\<not> elf_header d" using assms(7) by (simp add: names_program_def)
    then show ?thesis using find none Some loadBinary_rejects [OF arch assms(5) Some] by (auto simp: cmd_run_def msg_def)
  qed
  then show ?thesis
    using assms(2-4,6) unfolding plain_commands_def file_commands_def sh_turn_def Let_def by simp
qed

lemma sim_unknown:
  assumes "sh_rel dev d0 k s a" "tokenize line MAX_TOKENS = toks" "toks \<noteq> []" "toks ! 0 \<noteq> []" "cstring (toks ! 0)"
    and "toks ! 0 \<notin> plain_commands \<union> file_commands \<union> {bytes ''panic'', bytes ''reboot''}" "\<not> names_program a (toks ! 0)"
  shows "\<exists>s'. sh_turn env trap dev line input s = Inr (Next s') \<and> sh_rel dev d0 k s' (line_spec env toks a)"
proof -
  let ?msg = "if map_of (sv_files a) (toks ! 0) = None then ''Not found\<newline>'' else ''Corrupted binary\<newline>''"
  have "line_spec env toks a = prints env ?msg [] a"
    using assms(3,6) unfolding plain_commands_def file_commands_def line_spec_def Let_def by simp
  then show ?thesis using unknown_turn [OF assms] rel_print [OF assms(1)] by simp
qed

lemma next_turn_ex: "\<exists>t. r = Inr t \<and> P t \<Longrightarrow> \<exists>t. next_turn r = Inr (Next t) \<and> P t"
  by (auto simp: next_turn_def)

lemma sh_turn_simulates:
  assumes "sh_rel dev d0 k s a" "cstring line" "tokenize line MAX_TOKENS = toks" "line_ok env toks input a"
  shows "\<exists>s'. sh_turn env trap dev line input s = Inr (Next s') \<and> sh_rel dev d0 k s' (line_spec env toks a)"
proof -
  have good: "t \<noteq> [] \<and> cstring t" if "t \<in> set toks" for t
    using tokens_good [OF assms(2)] that assms(3) by auto
  note ok = assms(4)
  show ?thesis
  proof (cases "toks = []")
    case True
    then have "sh_turn env trap dev line input s = Inr (Next s)" using assms(3) by (simp add: sh_turn_def)
    then show ?thesis using True assms(1) by (auto simp: line_spec_def)
  next
    case False
    then have hd: "toks ! 0 \<noteq> []" "cstring (toks ! 0)" using good [of "toks ! 0"] by simp_all
    have arg: "toks ! 1 \<noteq> [] \<and> cstring (toks ! 1)" if "1 < length toks" using good that by simp
    note turn = turn_of [OF assms(3) False]
    consider "toks ! 0 \<in> plain_commands"
      | "toks ! 0 \<notin> plain_commands \<union> file_commands \<union> {bytes ''panic'', bytes ''reboot''}" "\<not> names_program a (toks ! 0)"
      | "toks ! 0 = bytes ''echo''" | "toks ! 0 = bytes ''cat''"
      | "toks ! 0 = bytes ''ls''" "1 < length toks" "toks ! 1 \<noteq> bytes ''-l''"
      | "toks ! 0 = bytes ''rm''" "1 < length toks" "toks ! 1 \<noteq> bytes ''-l''"
      | "toks ! 0 = bytes ''free''" "1 < length toks"
      | "toks ! 0 = bytes ''touch''" "1 < length toks" "length (toks ! 1) < 100"
          "map_of (sv_files a) (toks ! 1) = None \<longrightarrow> end_of 0 (sv_files a) + 1024 \<le> TAR_BUF_SIZE"
      using ok False unfolding line_ok_def by (elim disjE) (blast | (elim conjE disjE; blast))+
    then show ?thesis
    proof cases
      case 1
      show ?thesis by (rule sim_plain [OF assms(1) assms(3) False 1])
    next
      case 2
      show ?thesis by (rule sim_unknown [OF assms(1) assms(3) False hd 2])
    next
      case 3
      show ?thesis unfolding turn(1) [OF 3] by (rule sim_echo [OF assms(1) 3 ok False]) (use good in blast)
    next
      case 4
      show ?thesis unfolding turn(2) [OF 4] by (rule sim_cat [OF assms(1) 4 ok False]) (use good in blast)
    next
      case 5
      show ?thesis unfolding turn(3) [OF 5(1)] by (rule next_turn_ex [OF sim_ls [OF assms(1) 5]])
    next
      case 6
      have "cstring (toks ! 1)" using arg 6(2) by blast
      then show ?thesis unfolding turn(4) [OF 6(1)] by (rule next_turn_ex [OF sim_rm [OF assms(1) 6]])
    next
      case 7
      show ?thesis unfolding turn(6) [OF 7(1)] by (rule next_turn_ex [OF sim_free [OF assms(1) 7]])
    next
      case 8
      have "cstring (toks ! 1)" "toks ! 1 \<noteq> []" using arg 8(2) by blast+
      then show ?thesis unfolding turn(5) [OF 8(1)]
        by (intro next_turn_ex sim_touch [OF assms(1) 8(1,2)]) (use 8(3,4) in simp_all)
    qed
  qed
qed

section \<open>The loop\<close>

text \<open>
  The loop of \<open>sh\<close> over the lines that are typed, each with the word that \<open>echo >\<close> and \<open>cat >\<close> read
  afterwards. It ends early in a halted machine or in a program.
\<close>

fun sh_loop ::
  "shell_env \<Rightarrow> (u8 \<Rightarrow> 'a proc_scheme \<Rightarrow> fault + 'a proc_scheme after) \<Rightarrow> device \<Rightarrow> (u8 list \<times> u8 list) list \<Rightarrow>
     'a proc_scheme \<Rightarrow> fault + 'a proc_scheme turn" where
  "sh_loop env trap dev [] s = Inr (Next s)"
| "sh_loop env trap dev ((line, input) # ls) s =
     bindR (sh_turn env trap dev line input (print env ''/$ '' [] s))
       (\<lambda>t. case t of Next s1 \<Rightarrow> sh_loop env trap dev ls s1 | Stopped s1 \<Rightarrow> Inr (Stopped s1) | UserMode e s1 \<Rightarrow> Inr (UserMode e s1))"

definition sh_step ::
  "shell_env \<Rightarrow> (u8 \<Rightarrow> 'a proc_scheme \<Rightarrow> fault + 'a proc_scheme after) \<Rightarrow> device \<Rightarrow> u8 list \<times> u8 list \<Rightarrow>
     'a proc_scheme \<Rightarrow> fault + unit \<times> 'a proc_scheme" where
  "sh_step env trap dev c s =
     bindR (sh_loop env trap dev [c] s) (\<lambda>t. case t of Next s1 \<Rightarrow> Inr ((), s1) | _ \<Rightarrow> Inl Diverges)"

definition shell_spec :: "shell_env \<Rightarrow> u8 list \<times> u8 list \<Rightarrow> shell_view \<Rightarrow> unit \<times> shell_view" where
  "shell_spec env c a = ((), line_spec env (tokenize (fst c) MAX_TOKENS) (prints env ''/$ '' [] a))"

definition shell_ok :: "shell_env \<Rightarrow> u8 list \<times> u8 list \<Rightarrow> shell_view \<Rightarrow> bool" where
  "shell_ok env c a \<longleftrightarrow> cstring (fst c) \<and> line_ok env (tokenize (fst c) MAX_TOKENS) (snd c) (prints env ''/$ '' [] a)"

lemma sh_step_turn:
  "sh_step env trap dev (line, input) s =
     bindR (sh_turn env trap dev line input (print env ''/$ '' [] s)) (\<lambda>t. case t of Next s1 \<Rightarrow> Inr ((), s1) | _ \<Rightarrow> Inl Diverges)"
  by (cases "sh_turn env trap dev line input (print env ''/$ '' [] s)") (auto simp: sh_step_def split: turn.split)

lemma sh_step_simulates:
  assumes "sh_rel dev d0 k s a" "shell_ok env c a"
  shows "\<exists>s'. sh_step env trap dev c s = Inr (fst (shell_spec env c a), s') \<and>
    sh_rel dev d0 k s' (snd (shell_spec env c a))"
proof -
  obtain line input where c: "c = (line, input)" by (cases c)
  obtain s' where s': "sh_turn env trap dev line input (print env ''/$ '' [] s) = Inr (Next s')"
      "sh_rel dev d0 k s' (line_spec env (tokenize line MAX_TOKENS) (prints env ''/$ '' [] a))"
    using sh_turn_simulates [OF rel_print [OF assms(1), of env "''/$ ''" "[]"] _ refl, where line = line and input = input and trap = trap] assms(2)
    unfolding shell_ok_def c by auto
  have "sh_step env trap dev c s = Inr ((), s')" unfolding c sh_step_turn s'(1) by simp
  then show ?thesis using s'(2) by (auto simp: shell_spec_def c)
qed

interpretation sessions: simulation "sh_step env trap dev" "shell_spec env" "shell_ok env" "sh_rel dev d0 k"
  for env trap dev d0 k
  by unfold_locales (rule sh_step_simulates)

lemma sh_loop_calls:
  "run_calls (sh_step env trap dev) cs s = Inr (out, s') \<Longrightarrow> sh_loop env trap dev cs s = Inr (Next s')"
proof (induction cs arbitrary: s out)
  case (Cons c cs)
  obtain line input where c: "c = (line, input)" by (cases c)
  obtain s1 out1 where s1: "sh_step env trap dev c s = Inr ((), s1)" "run_calls (sh_step env trap dev) cs s1 = Inr (out1, s')"
    using Cons.prems by (auto simp: bindR_Inr_iff)
  obtain t where t: "sh_turn env trap dev line input (print env ''/$ '' [] s) = Inr t"
      "(case t of Next s1 \<Rightarrow> Inr ((), s1) | _ \<Rightarrow> Inl Diverges) = Inr ((), s1)"
    using s1(1) unfolding c sh_step_turn bindR_Inr_iff by blast
  then have "sh_turn env trap dev line input (print env ''/$ '' [] s) = Inr (Next s1)" by (cases t) auto
  then show ?case using Cons.IH [OF s1(2)] by (simp add: c)
qed simp

text \<open>The specification keeps memory and disk alike.\<close>

lemma typed_fields [simp]:
  "sv_files (typed_text txt a) = sv_files a" "sv_disk (typed_text txt a) = sv_disk a"
  "sv_files (prints env fmt args a) = sv_files a" "sv_disk (prints env fmt args a) = sv_disk a"
  by (simp_all add: prints_def typed_text_def)

definition in_step :: "shell_view \<Rightarrow> bool" where
  "in_step a \<longleftrightarrow> sv_files a = sv_disk a"

lemma in_step_intros:
  "in_step x \<Longrightarrow> in_step y \<Longrightarrow> in_step (if b then x else y)"
  "in_step (a\<lparr>sv_files := sv_disk a\<rparr>)"
  "in_step a \<Longrightarrow> in_step (a\<lparr>sv_screen := scr\<rparr>)"
  "in_step a \<Longrightarrow> in_step (typed_text txt a)"
  "in_step a \<Longrightarrow> in_step (prints env fmt args a)"
  "in_step (edit_spec f c)" "in_step (touch_spec f c)" "in_step a \<Longrightarrow> in_step (rm_spec env f a)"
  "in_step a \<Longrightarrow> in_step (free_report env f a)"
  by (simp_all add: in_step_def edit_spec_def touch_spec_def rm_spec_def free_report_def Let_def)

lemma in_step_line: "in_step a \<Longrightarrow> in_step (line_spec env toks a)"
proof -
  assume a: "in_step a"
  have "in_step (fold (\<lambda>t. prints env ''%s '' [ArgStr t]) ts b)" if "in_step b" for ts b
    using that by (induction ts arbitrary: b) (simp_all add: in_step_intros)
  then show ?thesis unfolding line_spec_def Let_def using a by (intro in_step_intros) simp_all
qed

section \<open>Properties\<close>


definition ex_view :: shell_view where
  "ex_view = \<lparr>sv_files = ex_files, sv_disk = ex_files, sv_screen = term_view st_disk, sv_color = COLOR st_disk,
     sv_ticks = sysTicks st_disk\<rparr>"

lemma ex_view_rel: "sh_rel ex_dev ex_drive 2 st_disk ex_view"
proof -
  have "tarBuf st_disk = ex_buf" using tarFlush_disk(2) [OF st0_facts(2)] by (simp add: st_disk_def st0_facts)
  moreover have "console_inv st_disk" "keyboard_inv st_disk" by (simp_all add: st_disk_def st0_def)
  moreover have "names_ok ex_files" by (simp add: names_ok_def ex_files_def file_a_def file_b_def)
  ultimately show ?thesis using st_disk_facts by (simp add: sh_rel_def ex_view_def ex_archive)
qed

definition ex_lines :: "(u8 list \<times> u8 list) list" where
  "ex_lines = [(bytes ''touch c'', []), (bytes ''cat a'', []), (bytes ''rm a'', []), (bytes ''what'', [])]"

lemma ex_tokens:
  "tokenize (bytes ''touch c'') MAX_TOKENS = [bytes ''touch'', bytes ''c'']"
  "tokenize (bytes ''cat a'') MAX_TOKENS = [bytes ''cat'', bytes ''a'']"
  "tokenize (bytes ''rm a'') MAX_TOKENS = [bytes ''rm'', bytes ''a'']"
  "tokenize (bytes ''what'') MAX_TOKENS = [bytes ''what'']"
  by (simp_all add: tokenize_words)

lemma ex_lines_run:
  "admissible (shell_ok ex_env) (shell_spec ex_env) ex_lines ex_view"
  "sv_disk (snd (run_spec (shell_spec ex_env) ex_lines ex_view)) = [file_b, (bytes ''c'', [])]"
proof -
  note defs = ex_lines_def shell_ok_def shell_spec_def line_ok_def line_spec_def plain_commands_def file_commands_def names_program_def
    touch_spec_def rm_spec_def prints_def typed_text_def ex_view_def ex_files_def file_a_def file_b_def span_def Let_def ex_tokens
  show "admissible (shell_ok ex_env) (shell_spec ex_env) ex_lines ex_view"
    using ex_tokens by (simp add: defs)
  show "sv_disk (snd (run_spec (shell_spec ex_env) ex_lines ex_view)) = [file_b, (bytes ''c'', [])]"
    using ex_tokens by (simp add: defs)
qed


text \<open>
  C5. The shell is live and its files are durable: from a state in which memory and disk hold the same files,
  it answers every list of covered lines and comes back to the prompt, and what memory holds then is what a
  machine that is switched off and loads the archive again finds on the disk.
\<close>

theorem shell_is_live:
  assumes "sh_rel dev d0 k s a" "sv_files a = sv_disk a" "admissible (shell_ok env) (shell_spec env) cs a"
  shows "\<exists>s' es. sh_loop env trap dev cs s = Inr (Next s') \<and> archive (tarBuf s') es \<and>
    archive (tarBuf (tarLoad dev (s'\<lparr>tarBuf := junk\<rparr>))) es"
proof -
  have keep: "in_step (snd (shell_spec env c b))" if "in_step b" for c b
    using that by (simp add: shell_spec_def in_step_line in_step_intros)
  have "in_step a" using assms(2) by (simp add: in_step_def)
  then obtain s' b where run: "run_calls (sh_step env trap dev) cs s = Inr (fst (run_spec (shell_spec env) cs a), s')"
      and b: "sh_rel dev d0 k s' b" "in_step b"
    using sessions.run_invariant [OF assms(1,3), of in_step trap] keep by blast
  note s' = sh_loop_calls [OF run] b
  let ?off = "s'\<lparr>tarBuf := junk\<rparr>"
  have "ata_ready dev d0 k ?off" "archive (disk_buffer d0 k ?off) (sv_files b)" "archive (tarBuf s') (sv_files b)"
    using s'(2,3) by (simp_all add: sh_rel_def in_step_def)
  then show ?thesis using s'(1) tarLoad_archive [of dev d0 k ?off] by blast
qed

theorem shell_is_live_witness:
  "\<exists>s' es. sh_loop ex_env (\<lambda>n t. Inr (Returned t)) ex_dev ex_lines st_disk = Inr (Next s') \<and> archive (tarBuf s') es \<and>
     archive (tarBuf (tarLoad ex_dev (s'\<lparr>tarBuf := empty_buf\<rparr>))) es"
  by (rule shell_is_live [OF ex_view_rel _ ex_lines_run(1)]) (simp add: ex_view_def)

end
