(* ===== verification/Reachable.thy ===== *)
theory Reachable
  imports Session
begin

text \<open>
  The kernel at work, as a step relation: turns of the shell, prompts, keys read by the shell, system
  calls, interrupts. The locale \<open>kernel_property\<close> is the interface of what every part keeps; a property that has
  it holds in all reachable states.
\<close>

section \<open>What every operation keeps\<close>

lemma interrupt_returned:
  assumes "isr_common_stub dev cr2 callee c s = Inr (Returned (d, t))"
  shows "\<exists>r. interruptDispatcher dev cr2 r (s :: 'a traps_scheme) = Inr (Returned t)"
proof -
  obtain x where x: "interruptDispatcher dev cr2 (registers_at (c_mem (call_frame c)) (c_esp (pushad c))) s = Inr x"
      "(case x of
          Halted t \<Rightarrow> Inr (Halted (call_frame c, t))
        | Returned t \<Rightarrow> Inr (Returned (iretd (add_esp 2 (popad (add_esp 1 (callee (call_frame c))))), t))) =
       (Inr (Returned (d, t)) :: fault + (cpu \<times> 'a traps_scheme) after)"
    using assms unfolding isr_common bindR_Inr_iff by blast
  then show ?thesis by (cases x) auto
qed

locale output_kept =
  fixes P :: "'a proc_scheme \<Rightarrow> bool"
  assumes P_tarBuf: "P s \<Longrightarrow> P (s\<lparr>tarBuf := x1\<rparr>)"
    and P_blocking: "P s \<Longrightarrow> P (s\<lparr>blocking := x6\<rparr>)"
    and P_write: "P s \<Longrightarrow> P (writeChar c s)"
    and P_clear: "P s \<Longrightarrow> P (clearScreen s)"

text \<open>
  The transfers of the archive, and output to a port that is not one of the drive's: with them, a line of the
  shell that comes back keeps the property, but for \<open>panic\<close>.
\<close>

locale shell_kept = output_kept P for P :: "'a proc_scheme \<Rightarrow> bool" +
  fixes dev :: device
  assumes P_transfers: "P s \<Longrightarrow> P (tarLoad dev s)" "P s \<Longrightarrow> P (tarFlush dev s)"
    and P_ports: "p \<notin> {0x1F0..0x1F7} \<Longrightarrow> P s \<Longrightarrow> P (outb p v s)" "p \<notin> {0x1F0..0x1F7} \<Longrightarrow> P s \<Longrightarrow> P (outw p w s)"
begin

lemma P_writes: "P s \<Longrightarrow> P (fold writeChar cs s)" "P s \<Longrightarrow> P (writeStr cs s)"
  by (induction cs arbitrary: s) (simp_all add: P_write)

lemma P_print: "P s \<Longrightarrow> P (print env fmt args s)"
  by (simp add: print_writes P_writes)

lemma P_fmtWrite: "fmtWrite fmt args s = Inr t \<Longrightarrow> P s \<Longrightarrow> P t"
  by (auto simp: fmtWrite_def bindR_Inr_iff P_writes split: if_splits)

lemma P_for:
  assumes "\<And>i t u. P t \<Longrightarrow> body i t = Inr u \<Longrightarrow> P u" "P s"
    and "for_to n (\<lambda>i r. bindR r (body i)) (Inr s) = Inr t"
  shows "P t"
  using assms(3)
proof (induction n arbitrary: t)
  case (Suc n)
  then show ?case using assms(1) by (auto simp: bindR_Inr_iff)
qed (simp add: assms(2))

lemma P_printFile: "P s \<Longrightarrow> tarPrintFile f s = Inr t \<Longrightarrow> P t"
proof -
  assume P: "P s" and t: "tarPrintFile f s = Inr t"
  obtain sz data where r: "tarRead (tarBuf s) f = Inr (sz, data)"
    using t by (auto simp: tarPrintFile_def bindR_Inr_iff)
  show "P t"
  proof (cases data)
    case None
    then show ?thesis using t r P by (auto simp: tarPrintFile_def split: if_splits)
  next
    case (Some d)
    then have "for_to (unat sz)
        (\<lambda>i r. bindR r (\<lambda>t. if d + i < TAR_BUF_SIZE
                        then fmtWrite (bytes ''%c'') [ArgInt (scast (tarBuf t (d + i)))] t
                        else Inl OutOfBounds)) (Inr s) = Inr t"
      using t unfolding tarPrintFile_def r by simp
    then show ?thesis by (rule P_for [OF _ P, rotated]) (auto intro: P_fmtWrite split: if_splits)
  qed
qed

lemma P_entry: "list_entry long p s = Inr t \<Longrightarrow> P s \<Longrightarrow> P t"
  by (auto simp: list_entry_def bindR_Inr_iff Let_def split: if_splits; blast intro: P_fmtWrite)

lemma P_list: "P s \<Longrightarrow> tarList flag s = Inr t \<Longrightarrow> P t"
proof -
  assume P: "P s" and t: "tarList flag s = Inr t"
  define long where "long = (flag = bytes ''-l'')"
  let ?go = "\<lambda>r :: fault + int \<times> 'a proc_scheme. case r of Inl e \<Rightarrow> False
      | Inr (cur, t) \<Rightarrow> header_in cur \<and> tarValid (tarBuf t) (nat cur)"
  let ?step = "\<lambda>r. bindR r (\<lambda>(cur, t). bindR (list_entry long (nat cur) t)
      (\<lambda>t'. Inr (tarNext (tarBuf t') (nat cur), t')))"
  obtain s0 where s0: "(if long then
        bindR (fmtWrite (bytes ''Directory listing of /\<newline>'') [] s) (\<lambda>s1.
        bindR (fmtWrite (bytes ''type  size      lastModify             name\<newline>'') [] s1) (\<lambda>s2.
        fmtWrite (bytes ''===== ========= ====================== =================='') [] s2))
      else Inr s) = Inr s0"
    and w0: "(case while_option ?go ?step (Inr (0, s0)) of None \<Rightarrow> Inl Diverges
       | Some r \<Rightarrow> bindR r (\<lambda>(cur, t). if header_in cur then Inr t else Inl OutOfBounds)) = Inr t"
    using t unfolding tarList_def long_def [symmetric] Let_def bindR_Inr_iff by blast
  have P0: "P s0" using s0 P by (auto simp: bindR_Inr_iff split: if_splits; blast intro: P_fmtWrite)
  obtain r where w: "while_option ?go ?step (Inr (0, s0)) = Some r"
      and r: "bindR r (\<lambda>(cur, t). if header_in cur then Inr t else Inl OutOfBounds) = Inr t"
    using w0 by (auto split: option.splits)
  let ?inv = "\<lambda>r. case r of Inl e \<Rightarrow> True | Inr (cur, t) \<Rightarrow> P t"
  have "?inv r"
    by (rule while_option_rule [OF _ w, where P = ?inv])
      (auto simp: P0 bindR_def intro: P_entry split: sum.splits)
  then show "P t" using r by (auto simp: bindR_Inr_iff split: if_splits)
qed

text \<open>A turn that comes back to the loop or enters a program, and a command that returns.\<close>

definition comes_back :: "fault + 'a proc_scheme turn \<Rightarrow> bool" where
  "comes_back r \<longleftrightarrow> (\<forall>t. r = Inr (Next t) \<or> (\<exists>e. r = Inr (UserMode e t)) \<longrightarrow> P t)"

definition ends :: "fault + 'a proc_scheme \<Rightarrow> bool" where
  "ends r \<longleftrightarrow> (\<forall>t. r = Inr t \<longrightarrow> P t)"

lemma back_intros:
  "comes_back x \<Longrightarrow> comes_back y \<Longrightarrow> comes_back (if b then x else y)" "P s \<Longrightarrow> comes_back (Inr (Next s))" "comes_back (Inl e)"
  "comes_back (Inr (Stopped s))" "P s \<Longrightarrow> comes_back (Inr (UserMode e' s))" "ends r \<Longrightarrow> comes_back (next_turn r)"
  "(\<And>x. comes_back (f x)) \<Longrightarrow> comes_back (bindR q f)"
  by (auto simp: comes_back_def ends_def next_turn_def bindR_Inr_iff)

lemma ends_intros:
  "ends x \<Longrightarrow> ends y \<Longrightarrow> ends (if b then x else y)" "P s \<Longrightarrow> ends (Inr s)" "ends (Inl e)"
  "(\<And>x. ends (f x)) \<Longrightarrow> ends (bindR q f)"
  by (auto simp: ends_def bindR_Inr_iff)

lemma ends_list: "P s \<Longrightarrow> ends (tarList flag s)"
  by (auto simp: ends_def intro: P_list)

lemma back_edit: "P s \<Longrightarrow> comes_back (edit_from_input dev toks data s)"
  unfolding edit_from_input_def by (auto simp: case_prod_beta intro!: back_intros P_blocking P_transfers P_tarBuf)

lemma back_echo: "P s \<Longrightarrow> comes_back (cmd_echo env dev toks input s)"
proof -
  assume P: "P s"
  have "P (fold (\<lambda>t. print env ''%s '' [ArgStr t]) ts u)" if "P u" for ts u
    using that by (induction ts arbitrary: u) (simp_all add: P_print)
  then show ?thesis
    unfolding cmd_echo_def Let_def using P by (intro back_intros back_edit P_blocking P_transfers) simp_all
qed

lemma back_cat: "P s \<Longrightarrow> comes_back (cmd_cat env dev toks input s)"
proof -
  assume P: "P s"
  have print: "comes_back (bindR (tarPrintFile f (tarLoad dev s)) (\<lambda>s2. Inr (Next s2)))" for f
    using P_printFile [OF P_transfers(1) [OF P]] by (auto simp: comes_back_def bindR_Inr_iff)
  show ?thesis
    unfolding cmd_cat_def Let_def
    by (rule back_intros(7), rule back_intros(1), intro back_intros(1,3) back_edit P_blocking P_transfers P, rule print)
qed

lemma ends_ls: "P s \<Longrightarrow> ends (cmd_ls env dev toks s)"
proof -
  assume P: "P s"
  have list: "ends (bindR (tarList t1 (tarLoad dev s)) (\<lambda>s2. Inr (print env ''\<newline>'' [] s2)))" for t1
    using P_list [OF P_transfers(1) [OF P]] by (auto simp: ends_def bindR_Inr_iff intro!: P_print)
  show ?thesis unfolding cmd_ls_def Let_def by (rule ends_intros(4), rule list)
qed

lemma ends_rm: "P s \<Longrightarrow> ends (cmd_rm env dev toks s)"
  unfolding cmd_rm_def Let_def
  by (auto simp: case_prod_beta intro!: ends_intros ends_list P_print P_transfers P_tarBuf)

lemma ends_touch: "P s \<Longrightarrow> ends (cmd_touch dev toks s)"
  unfolding cmd_touch_def by (auto simp: case_prod_beta intro!: ends_intros P_transfers P_tarBuf)

lemma ends_free: "P s \<Longrightarrow> ends (cmd_free env toks s)"
  unfolding cmd_free_def Let_def by (intro ends_intros) (simp add: P_print)

text \<open>A line that the specification of the shell covers, and so a session.\<close>

lemma P_line:
  assumes "sh_rel dev d0 k s a" "cstring line" "line_ok env (tokenize line MAX_TOKENS) input a" "P s"
    and "sh_turn env trap dev line input s = Inr (Next t)"
  shows "P t"
proof -
  note P = assms(4)
  define toks where "toks = tokenize line MAX_TOKENS"
  have good: "toks ! 0 \<noteq> []" "cstring (toks ! 0)" if "toks \<noteq> []"
    using tokens_good [OF assms(2), of "toks ! 0" MAX_TOKENS] that by (simp_all add: toks_def)
  have "toks = [] \<or> toks ! 0 \<in> plain_commands \<union> file_commands \<or>
      toks ! 0 \<notin> plain_commands \<union> file_commands \<union> {bytes ''panic'', bytes ''reboot''} \<and> \<not> names_program a (toks ! 0)"
    using assms(3) unfolding line_ok_def toks_def [symmetric] file_commands_def by blast
  then consider "toks = []" | "toks \<noteq> []" "toks ! 0 \<in> plain_commands \<union> file_commands"
    | "toks \<noteq> []" "toks ! 0 \<notin> plain_commands \<union> file_commands \<union> {bytes ''panic'', bytes ''reboot''}" "\<not> names_program a (toks ! 0)"
    by blast
  then show ?thesis
  proof cases
    case 1
    then show ?thesis using assms(4,5) by (simp add: sh_turn_def toks_def)
  next
    case 2
    have branch: "comes_back (if b then x else y)" if "b \<Longrightarrow> comes_back x" "\<not> b \<Longrightarrow> comes_back y" for b x y
      using that by simp
    have off: "P (shutdown s)" using P_ports(2) [OF _ P, of "0x604"] by (simp add: shutdown_def)
    note simple = back_intros(2) [OF P_print [OF P]] back_intros(2) [OF P_clear [OF P]] back_intros(2) [OF P]
      back_intros(2) [OF off]
    note commands = back_echo [OF P] back_cat [OF P] back_intros(6) [OF ends_ls [OF P]] back_intros(6) [OF ends_rm [OF P]]
      back_intros(6) [OF ends_touch [OF P]] back_intros(6) [OF ends_free [OF P]]
    have "comes_back (sh_turn env trap dev line input s)"
      unfolding sh_turn_def Let_def toks_def [symmetric]
      by (intro branch; (rule simple commands)?; use 2 in \<open>simp add: plain_commands_def file_commands_def\<close>)
    then show ?thesis using assms(5) unfolding comes_back_def by blast
  next
    case 3
    then show ?thesis
      using unknown_turn [OF assms(1) toks_def [symmetric] 3(1) good 3(2,3), of env trap input] assms(5) P_print [OF P] by simp
  qed
qed

end

sublocale shell_kept \<subseteq> kept_sessions: simulation "sh_step env trap dev" "shell_spec env" "shell_ok env"
  "\<lambda>s a. sh_rel dev d0 k s a \<and> P s" for env trap d0 k
proof unfold_locales
  fix s a and c :: "u8 list \<times> u8 list"
  assume r: "sh_rel dev d0 k s a \<and> P s" and ok: "shell_ok env c a"
  obtain line input where c: "c = (line, input)" by (cases c)
  obtain s' where s': "sh_step env trap dev c s = Inr (fst (shell_spec env c a), s')" "sh_rel dev d0 k s' (snd (shell_spec env c a))"
    using sh_step_simulates [OF _ ok] r by blast
  obtain r where r': "sh_turn env trap dev line input (print env ''/$ '' [] s) = Inr r"
      "(case r of Next s1 \<Rightarrow> Inr ((), s1) | _ \<Rightarrow> Inl Diverges) = Inr ((), s')"
    using s'(1) unfolding c sh_step_turn bindR_Inr_iff by auto
  then have "sh_turn env trap dev line input (print env ''/$ '' [] s) = Inr (Next s')" by (cases r) auto
  then have "P s'"
    using P_line [OF rel_print] r ok P_print unfolding c shell_ok_def by (metis fst_conv snd_conv)
  then show "\<exists>s'. sh_step env trap dev c s = Inr (fst (shell_spec env c a), s') \<and>
      sh_rel dev d0 k s' (snd (shell_spec env c a)) \<and> P s'"
    using s' by blast
qed

text \<open>What system calls and interrupts add.\<close>

locale kernel_frame = output_kept P for P :: "'a proc_scheme \<Rightarrow> bool" +
  assumes P_fdTable: "P s \<Longrightarrow> P (s\<lparr>fdTable := x2\<rparr>)"
    and P_umem: "P s \<Longrightarrow> P (s\<lparr>umem := x3\<rparr>)"
    and P_heap: "P s \<Longrightarrow> P (s\<lparr>heap_brk := x4\<rparr>)"
    and P_errno: "P s \<Longrightarrow> P (s\<lparr>errnum := x5\<rparr>)"
    and P_ticks: "P s \<Longrightarrow> P (s\<lparr>sysTicks := x7\<rparr>)"
    and P_stdin: "P s \<Longrightarrow> P (s\<lparr>stdinBuf := x8\<rparr>)" "P s \<Longrightarrow> P (s\<lparr>stdinBufLen := x9\<rparr>)"
      "P s \<Longrightarrow> P (s\<lparr>stdinBufPos := x10\<rparr>)" "P s \<Longrightarrow> P (s\<lparr>stdinLineReady := x11\<rparr>)"
    and P_key: "P s \<Longrightarrow> P (keyboardHandler kdev s)"
    and P_get: "P s \<Longrightarrow> P (snd (getInput s))"

locale kernel_kept = kernel_frame P + shell_kept P dev for P :: "'a proc_scheme \<Rightarrow> bool" and dev :: device
begin

lemmas P_fields = P_tarBuf P_fdTable P_umem P_heap P_errno P_blocking P_ticks P_stdin

lemma P_load: "loadBinary f s = Inr (r, t) \<Longrightarrow> P s \<Longrightarrow> P t"
proof -
  assume t: "loadBinary f s = Inr (r, t)" and P: "P s"
  have seg: "load_segments d s = Inr u \<Longrightarrow> P u" for d u
    using load_segments_keeps [of d s u] P_umem [OF P] by metis
  show "P t"
    using t P by (auto simp: loadBinary_def bindR_Inr_iff split: if_splits option.splits; blast intro: P_fmtWrite seg)
qed

section \<open>Files and system calls\<close>

lemma P_open: "open_file f flags s = Inr (r, t) \<Longrightarrow> P s \<Longrightarrow> P t"
  by (auto simp: open_file_def bindR_Inr_iff Let_def P_fields split: if_splits option.splits)

lemma P_close: "P s \<Longrightarrow> P (snd (close_file dev fd s))"
  by (auto simp: close_file_def Let_def P_fields P_transfers)

lemma P_read: "read_file dev polls fd n s = Inr (r, bs, t) \<Longrightarrow> fd \<noteq> 0 \<Longrightarrow> P s \<Longrightarrow> P t"
proof -
  assume t: "read_file dev polls fd n s = Inr (r, bs, t)" "fd \<noteq> 0" and P: "P s"
  show "P t"
  proof (cases "fd_index fd")
    case (Inl e)
    then show ?thesis using t P by (auto simp: read_file_def P_writes split: if_splits)
  next
    case (Inr i)
    show ?thesis
    proof (cases i)
      case None
      then show ?thesis using t P Inr by (auto simp: read_file_def P_writes split: if_splits)
    next
      case (Some k)
      then show ?thesis
        using t P Inr by (cases "fd_data (fdTable s k)") (auto simp: read_file_def Let_def P_fields P_writes split: if_splits)
    qed
  qed
qed

lemma P_write_file: "write_file fd src n s = Inr (r, t) \<Longrightarrow> P s \<Longrightarrow> P t"
proof -
  assume t: "write_file fd src n s = Inr (r, t)" and P: "P s"
  show "P t"
  proof (cases "fd_index fd")
    case (Inl e)
    then show ?thesis using t P by (auto simp: write_file_def P_writes split: if_splits)
  next
    case (Inr i)
    show ?thesis
    proof (cases i)
      case None
      then show ?thesis using t P Inr by (auto simp: write_file_def P_writes split: if_splits)
    next
      case (Some k)
      then show ?thesis
        using t P Inr by (cases "fd_data (fdTable s k)") (auto simp: write_file_def Let_def P_fields P_writes split: if_splits)
    qed
  qed
qed

lemma P_interrupts: "P s \<Longrightarrow> P (interrupts dev n s)"
  by (induction n) (simp_all add: interrupts_def P_key)

lemma P_readStdin: "readStdin_loop dev polls pos s = Inr (q, t) \<Longrightarrow> P s \<Longrightarrow> P t"
proof (induction polls arbitrary: pos s)
  case (Cons n polls)
  obtain c s1 where g: "getInput (interrupts dev n s) = (c, s1)" by fastforce
  then have "P s1" using P_get [OF P_interrupts [OF Cons.prems(2)], of n] by simp
  then show ?case
    using Cons.prems(1) Cons.IH P_write P_fields unfolding readStdin_loop.simps(2) g
    by (auto simp: Let_def split: if_splits)
qed simp

lemma P_stdin_ops:
  "readStdinLine dev polls s = Inr t \<Longrightarrow> P s \<Longrightarrow> P t" "P s \<Longrightarrow> P (stdin_advance n s)"
proof -
  show "readStdinLine dev polls s = Inr t \<Longrightarrow> P s \<Longrightarrow> P t"
    by (auto simp: readStdinLine_def bindR_Inr_iff split: if_splits) (intro P_fields, erule P_readStdin)
  show "P s \<Longrightarrow> P (stdin_advance n s)" by (simp add: stdin_advance_def Let_def P_fields)
qed

lemma P_kread: "kread_impl dev polls fd n s = Inr (r, bs, t) \<Longrightarrow> P s \<Longrightarrow> P t"
  by (auto simp: kread_impl_def bindR_Inr_iff Let_def P_stdin_ops split: if_splits; blast intro: P_read P_stdin_ops)

lemma P_stdin_get: "stdin_get dev polls s = Inr (c, t) \<Longrightarrow> P s \<Longrightarrow> P t"
  by (auto simp: stdin_get_def bindR_Inr_iff split: if_splits; blast intro: P_kread)

lemma P_handlers:
  "sys_open regs s = Inr (r, t) \<Longrightarrow> P s \<Longrightarrow> P t" "sys_close dev regs s = Inr (r, t) \<Longrightarrow> P s \<Longrightarrow> P t"
  "sys_read dev polls regs s = Inr (r, t) \<Longrightarrow> P s \<Longrightarrow> P t" "sys_write regs s = Inr (r, t) \<Longrightarrow> P s \<Longrightarrow> P t"
  "sys_lseek lc regs s = Inr (r, t) \<Longrightarrow> P s \<Longrightarrow> P t" "sys_fstat lc regs s = Inr (r, t) \<Longrightarrow> P s \<Longrightarrow> P t"
  "sys_isatty regs s = Inr (r, t) \<Longrightarrow> P s \<Longrightarrow> P t" "sys_getpid regs s = Inr (r, t) \<Longrightarrow> P s \<Longrightarrow> P t"
  "sys_kill regs s = Inr (r, t) \<Longrightarrow> P s \<Longrightarrow> P t" "sys_exit regs s = Inr (r, t) \<Longrightarrow> P s \<Longrightarrow> P t"
  "sys_sbrk heap regs s = Inr (r, t) \<Longrightarrow> P s \<Longrightarrow> P t" "sys_nosys lc regs s = Inr (r, t) \<Longrightarrow> P s \<Longrightarrow> P t"
proof -
  show "sys_open regs s = Inr (r, t) \<Longrightarrow> P s \<Longrightarrow> P t"
    by (auto simp: sys_open_def syscall_macros bindR_Inr_iff split: option.splits intro: P_open)
  show "sys_close dev regs s = Inr (r, t) \<Longrightarrow> P s \<Longrightarrow> P t"
    using P_close [of s "f_ebx regs"] by (simp add: sys_close_def syscall_macros case_prod_beta Let_def)
  show "sys_read dev polls regs s = Inr (r, t) \<Longrightarrow> P s \<Longrightarrow> P t"
    by (auto simp: sys_read_def syscall_macros bindR_Inr_iff intro: P_umem P_kread)
  show "sys_write regs s = Inr (r, t) \<Longrightarrow> P s \<Longrightarrow> P t"
    by (auto simp: sys_write_def syscall_macros bindR_Inr_iff intro: P_write_file)
qed (auto simp: syscall_macros sys_lseek_def sys_fstat_def sys_isatty_def sys_getpid_def sys_kill_def sys_exit_def sys_sbrk_def
    sys_nosys_def Let_def case_prod_beta P_fields)

lemma P_syscall: "syscallDispatcher lc dev polls heap regs s = Inr (r, t) \<Longrightarrow> P s \<Longrightarrow> P t"
proof -
  assume t: "syscallDispatcher lc dev polls heap regs s = Inr (r, t)" and P: "P s"
  show "P t"
  proof (cases "orig_eax regs \<ge> SYSCALL_COUNT")
    case True
    then show ?thesis using t P_writes(2) [OF P] unfolding dispatch_unknown [OF True] by blast
  next
    case False
    then obtain h :: "'a proc_scheme handler" where h: "syscallTable lc dev polls heap (orig_eax regs) = Some h"
      using syscallTable_total [where nr = "orig_eax regs"] by (metis not_le option.exhaust)
    then have hs: "h regs s = Inr (r, t)" using t False by (simp add: syscallDispatcher_def Let_def)
    from h have "h = sys_open \<or> h = sys_close dev \<or> h = sys_read dev polls \<or> h = sys_write \<or> h = sys_lseek lc \<or>
        h = sys_fstat lc \<or> h = sys_isatty \<or> h = sys_getpid \<or> h = sys_kill \<or> h = sys_exit \<or> h = sys_sbrk heap \<or> h = sys_nosys lc"
      unfolding syscallTable_def nosys_handlers by (simp split: if_splits)
    then show ?thesis
      using hs by (elim disjE) (simp only:, erule P_handlers [OF _ P])+
  qed
qed

section \<open>Interrupts and the shell\<close>

lemma P_irq: "interruptDispatcher dev cr2 r s = Inr (Returned t) \<Longrightarrow> P s \<Longrightarrow> P t"
  by (auto simp: interruptDispatcher_def irqHandler_def Let_def bindR_Inr_iff P_ports P_key P_ticks split: if_splits)

lemma P_interrupt: "interrupt code dev cr2 callee n e c s = Inr (Returned (d, t)) \<Longrightarrow> P s \<Longrightarrow> P t"
  unfolding interrupt_def isr_stub_def Let_def using interrupt_returned P_irq by blast

lemma back_run: "P s \<Longrightarrow> comes_back (cmd_run env f s)"
proof -
  assume P: "P s"
  have run: "comes_back (bindR (loadBinary f s) (\<lambda>(r, s1). case r of
      None \<Rightarrow> Inr (Next (print env ''Corrupted binary\<newline>'' [] s1)) | Some entry \<Rightarrow> Inr (UserMode entry s1)))"
    using P by (auto simp: comes_back_def bindR_Inr_iff split: option.splits intro!: P_print intro: P_load)
  show ?thesis
    unfolding cmd_run_def by (rule back_intros(7), rule back_intros(1), intro back_intros(2) P_print P, rule run)
qed

lemma back_panic:
  assumes trap: "\<And>n u t. trap n u = Inr (Returned t) \<Longrightarrow> P u \<Longrightarrow> P t" and P: "P s"
  shows "comes_back (cmd_panic env trap toks s)"
proof -
  have trapped: "comes_back (bindR (trap n u) (\<lambda>r. Inr (resume r)))" if u: "P u" for n u
    unfolding comes_back_def
  proof (intro allI impI)
    fix t
    assume "bindR (trap n u) (\<lambda>r. Inr (resume r)) = Inr (Next t) \<or>
        (\<exists>e. bindR (trap n u) (\<lambda>r. Inr (resume r)) = Inr (UserMode e t))"
    then obtain r where r: "trap n u = Inr r" "resume r = Next t \<or> (\<exists>e. resume r = UserMode e t)"
      unfolding bindR_Inr_iff by blast
    then have "r = Returned t" by (cases r) (simp_all add: resume_def)
    then show "P t" using trap r(1) u by blast
  qed
  have "P (if b then print env f [] s else s)" for b f using P by (simp add: P_print)
  then show ?thesis unfolding cmd_panic_def Let_def by (intro back_intros(7) trapped)
qed

lemma P_turn:
  assumes trap: "\<And>n u t. trap n u = Inr (Returned t) \<Longrightarrow> P u \<Longrightarrow> P t"
    and "sh_turn env trap dev line input s = Inr (Next t) \<or> sh_turn env trap dev line input s = Inr (UserMode e t)" "P s"
  shows "P t"
proof -
  note P = assms(3)
  have off: "P (shutdown s)" using P_ports(2) [OF _ P, of "0x604"] by (simp add: shutdown_def)
  have stop: "comes_back (bindR (reboot dev s) (\<lambda>t. Inr (Stopped t)))" by (intro back_intros)
  note simple = back_intros(2) [OF P_print [OF P]] back_intros(2) [OF P_clear [OF P]] back_intros(2) [OF P]
    back_intros(2) [OF off] stop
  note commands = back_echo [OF P] back_cat [OF P] back_run [OF P] back_panic [OF trap P]
    back_intros(6) [OF ends_ls [OF P]] back_intros(6) [OF ends_rm [OF P]] back_intros(6) [OF ends_touch [OF P]]
    back_intros(6) [OF ends_free [OF P]]
  have "comes_back (sh_turn env trap dev line input s)"
    unfolding sh_turn_def Let_def by (intro back_intros(1); (rule simple commands; assumption?))
  then show ?thesis using assms(2) unfolding comes_back_def by blast
qed

end

section \<open>The steps\<close>

text \<open>
  What \<open>panic\<close> does to the machine: \<open>userPanic\<close> without a number, \<open>sendInterrupt\<close> with one. Interrupt 0x80
  is the entry of system calls; EAX, whose low byte is the number, is then out of the table.
\<close>

definition shell_trap ::
  "(u32 \<Rightarrow> stub) \<Rightarrow> device \<Rightarrow> u32 \<Rightarrow> (cpu \<Rightarrow> cpu) \<Rightarrow> u32 \<Rightarrow> cpu \<Rightarrow> 'a traps_scheme dispatch \<Rightarrow> u8 \<Rightarrow>
     'a traps_scheme \<Rightarrow> fault + 'a traps_scheme after" where
  "shell_trap code dev cr2 callee ip c dispatch n s =
     (if n = 34 then bindR (userPanic code dev cr2 callee ip c s) (\<lambda>r. Inr (map_after snd r))
      else if n = 0x80 then
        bindR (int80 dispatch callee (c\<lparr>c_eax := (c_eax c AND NOT 0xFF) OR 0x80, c_eip := ip\<rparr>) s) (\<lambda>(d, t). Inr (Returned t))
      else bindR (sendInterrupt code dev cr2 callee ip (fold push [ucast n, c_eip c] c) s) (\<lambda>r. Inr (map_after snd r)))"

text \<open>
  One step of the running system: a turn of the shell that comes back or enters a program, its prompt, a
  character that it reads, a system call of the program, an interrupt that returns to what it interrupted.
\<close>

inductive kernel_step :: "(u32 \<Rightarrow> stub) \<Rightarrow> device \<Rightarrow> (cpu \<Rightarrow> cpu) \<Rightarrow> 'a proc_scheme \<Rightarrow> 'a proc_scheme \<Rightarrow> bool"
  for code :: "u32 \<Rightarrow> stub" and dev :: device and callee :: "cpu \<Rightarrow> cpu" where
  step_turn: "sh_turn env (shell_trap code dev cr2 callee ip c (syscallDispatcher lc dev polls heap)) dev line input s = Inr (Next t) \<Longrightarrow>
    kernel_step code dev callee s t"
| step_enter: "sh_turn env (shell_trap code dev cr2 callee ip c (syscallDispatcher lc dev polls heap)) dev line input s = Inr (UserMode e t) \<Longrightarrow>
    kernel_step code dev callee s t"
| step_prompt: "kernel_step code dev callee s (print env ''/$ '' [] s)"
| step_input: "stdin_get dev polls s = Inr (ch, t) \<Longrightarrow> kernel_step code dev callee s t"
| step_call: "int80 (syscallDispatcher lc dev polls heap) callee c s = Inr (d, t) \<Longrightarrow> kernel_step code dev callee s t"
| step_irq: "interrupt code dev cr2 callee n e c s = Inr (Returned (d, t)) \<Longrightarrow> kernel_step code dev callee s t"

inductive_cases kernel_stepE [consumes 1, case_names turn enter prompt input call irq]:
  "kernel_step code dev callee s t"

definition reachable :: "(u32 \<Rightarrow> stub) \<Rightarrow> device \<Rightarrow> (cpu \<Rightarrow> cpu) \<Rightarrow> 'a proc_scheme \<Rightarrow> 'a proc_scheme \<Rightarrow> bool" where
  "reachable code dev callee = (kernel_step code dev callee)\<^sup>*\<^sup>*"

context kernel_kept
begin

lemma P_int80: "int80 (syscallDispatcher lc dev polls heap) callee c s = Inr (d, t) \<Longrightarrow> P s \<Longrightarrow> P t"
  by (auto simp: int80_def int80_stub_def Let_def bindR_Inr_iff intro: P_syscall split: option.splits)

lemma P_sent:
  assumes "sendInterrupt code dev cr2 callee ip c s = Inr (Returned (d, t))" "P s"
  shows "P t"
proof -
  obtain n c2 x where x: "interrupt code dev cr2 callee n None c2 s = Inr x"
      "(case x of
          Halted y \<Rightarrow> Inr (Halted y)
        | Returned (c3, t) \<Rightarrow>
            (let c4 = add_esp 1 (c3\<lparr>c_ebp := dw c3 0\<rparr>)
             in Inr (Returned (add_esp 1 (c4\<lparr>c_eip := dw c4 0\<rparr>), t)))) =
        (Inr (Returned (d, t)) :: fault + (cpu \<times> 'a proc_scheme) after)"
    using assms(1) unfolding sendInterrupt_def Let_def bindR_Inr_iff by blast
  then obtain d' where "x = Returned (d', t)" by (cases x) (auto simp: Let_def)
  then show ?thesis using P_interrupt x(1) assms(2) by blast
qed

lemma P_trap:
  assumes "shell_trap code dev cr2 callee ip c (syscallDispatcher lc dev polls heap) n s = Inr (Returned t)" "P s"
  shows "P t"
proof -
  consider "n = 34" | "n = 0x80" | "n \<noteq> 34" "n \<noteq> 0x80" by blast
  then show ?thesis
  proof cases
    case 1
    then show ?thesis using assms(1) by (auto simp: shell_trap_def userPanic_def bindR_Inr_iff)
  next
    case 2
    then show ?thesis using assms by (auto simp: shell_trap_def bindR_Inr_iff intro: P_int80)
  next
    case 3
    then obtain r where r: "sendInterrupt code dev cr2 callee ip (fold push [ucast n, c_eip c] c) s = Inr r"
        "map_after snd r = Returned t"
      using assms(1) by (auto simp: shell_trap_def bindR_Inr_iff)
    then obtain d where "sendInterrupt code dev cr2 callee ip (fold push [ucast n, c_eip c] c) s = Inr (Returned (d, t))"
      by (cases r) auto
    then show ?thesis using P_sent assms(2) by blast
  qed
qed

lemma P_step: "kernel_step code dev callee s t \<Longrightarrow> P s \<Longrightarrow> P t"
proof (induction rule: kernel_step.induct)
  case (step_turn env cr2 ip c lc polls heap line input s t)
  show ?case by (rule P_turn [OF _ disjI1 [OF step_turn.hyps] step_turn.prems]) (erule P_trap)
next
  case (step_enter env cr2 ip c lc polls heap line input s e t)
  show ?case by (rule P_turn [OF _ disjI2 [OF step_enter.hyps] step_enter.prems]) (erule P_trap)
qed (auto intro: P_print P_stdin_get P_int80 P_interrupt)

lemma P_reachable: "reachable code dev callee s t \<Longrightarrow> P s \<Longrightarrow> P t"
  unfolding reachable_def by (induction rule: rtranclp_induct) (auto intro: P_step)

end

text \<open>A property that does not look at the ports is kept for every device.\<close>

locale kernel_property = kernel_frame P for P :: "'a proc_scheme \<Rightarrow> bool" +
  assumes P_trace: "P s \<Longrightarrow> P (s\<lparr>trace := x0\<rparr>)"

sublocale kernel_property \<subseteq> kernel_kept P dev for dev
proof unfold_locales
  have quiet: "P t" if "P s" "quiet s t" for s t
    using that P_trace P_tarBuf unfolding quiet_def by metis
  show "P (tarLoad dev s)" "P (tarFlush dev s)" if "P s" for s
    using quiet [OF that] quiet_tarLoad quiet_tarFlush by blast+
  show "P (outb p v s)" "P (outw p w s)" if "P s" for p v w s
    using P_trace [OF that] by (simp_all add: port_io_shape)
qed

text \<open>The lines of a session are steps.\<close>

lemma reachable_trans: "reachable code dev callee r s \<Longrightarrow> reachable code dev callee s t \<Longrightarrow> reachable code dev callee r t"
  unfolding reachable_def by (rule rtranclp_trans)

lemma reachable_step: "kernel_step code dev callee s t \<Longrightarrow> reachable code dev callee s t"
  unfolding reachable_def by (rule r_into_rtranclp)

lemma sh_loop_reachable:
  assumes "sh_loop env (shell_trap code dev cr2 callee ip c (syscallDispatcher lc dev polls heap)) dev cs s = Inr (Next t)"
  shows "reachable code dev callee s t"
  using assms
proof (induction cs arbitrary: s)
  case Nil
  then show ?case by (simp add: reachable_def)
next
  case (Cons l cs)
  obtain line input where l: "l = (line, input)" by (cases l)
  let ?trap = "shell_trap code dev cr2 callee ip c (syscallDispatcher lc dev polls heap)"
  obtain r where r: "sh_turn env ?trap dev line input (print env ''/$ '' [] s) = Inr r"
      "(case r of Next s1 \<Rightarrow> sh_loop env ?trap dev cs s1 | Stopped s1 \<Rightarrow> Inr (Stopped s1)
          | UserMode e s1 \<Rightarrow> Inr (UserMode e s1)) = Inr (Next t)"
    using Cons.prems unfolding l sh_loop.simps bindR_Inr_iff by blast
  obtain s1 where s1: "r = Next s1" "sh_loop env ?trap dev cs s1 = Inr (Next t)" using r(2) by (cases r) auto
  have "reachable code dev callee (print env ''/$ '' [] s) s1" using r(1) unfolding s1(1) by (rule reachable_step [OF step_turn])
  from reachable_trans [OF reachable_trans [OF reachable_step [OF step_prompt] this] Cons.IH [OF s1(2)]]
  show ?case .
qed

section \<open>What holds in every reachable state\<close>

lemma output_descs [simp]:
  "idt (writeChar c s) = idt s" "tss (writeChar c s) = tss s" "gdt (writeChar c s) = gdt s"
  "idt (clearScreen s) = idt s" "tss (clearScreen s) = tss s" "gdt (clearScreen s) = gdt s"
  "gdt (keyboardHandler dev s) = gdt s"
  by (rule writeChar_observed keyboardHandler_observed; simp)+

lemma getInput_descs [simp]:
  "idt (snd (getInput s)) = idt s" "tss (snd (getInput s)) = tss s" "gdt (snd (getInput s)) = gdt s"
  by (simp_all add: getInput_def)

interpretation console_kept: kernel_property console_inv
  by unfold_locales (simp_all add: writeChar_keeps clearScreen_keeps keyboardHandler_keeps, simp_all add: console_inv_def getInput_def)

interpretation keyboard_kept: kernel_property keyboard_inv
  by unfold_locales (simp_all add: keyboardHandler_keeps getInput_keeps, simp_all add: keyboard_inv_def)

interpretation gates_kept: kernel_property "linked code" for code
  by unfold_locales (erule linked_frame, simp)+

interpretation segments_kept: kernel_property "\<lambda>s. tss s = ts \<and> gdt s = g" for ts g
  by unfold_locales simp_all

text \<open>
  C6. In every state that the running system reaches, the gates still lead to their stubs, descriptors and
  task state are those of the start, the cursor is on the screen and the key buffer in bounds; so an
  interrupt that is no fault - a request, or a number without a stub of its own - is still transparent: the
  interrupted program, of ring 0 or ring 3, goes on with all its registers, its memory is untouched, the
  interrupt is acknowledged once, the timer has ticked when it was the timer's, and archive, open files and the
  drive, which may be in the middle of a transfer, are as they were.
\<close>

theorem reachable_interruptible:
  assumes "linked code s" "console_inv s" "keyboard_inv s" "cdecl callee" "reachable code dev callee s t"
    and "n \<notin> set fault_vectors" "n \<noteq> 34" "n \<noteq> 0x80"
  shows "linked code t \<and> tss t = tss s \<and> gdt t = gdt s \<and> console_inv t \<and> keyboard_inv t \<and>
    (\<exists>c' u. interrupt code dev cr2 callee n None c t = Inr (Returned (c', u)) \<and> same_regs c c' \<and>
      umem u = umem t \<and> eoi_count (trace u) = Suc (eoi_count (trace t)) \<and>
      sysTicks u = sysTicks t + (if n = 32 then 1 else 0) \<and> tarBuf u = tarBuf t \<and> fdTable u = fdTable t \<and>
      (\<forall>d0 k. drive_after d0 k (trace u) = drive_after d0 k (trace t)) \<and> reachable code dev callee s u)"
proof -
  note kept = gates_kept.P_reachable [OF assms(5,1)] console_kept.P_reachable [OF assms(5,2)]
    keyboard_kept.P_reachable [OF assms(5,3)] segments_kept.P_reachable [OF assms(5), of "tss s" "gdt s"]
  obtain c' u where u: "interrupt code dev cr2 callee n None c t = Inr (Returned (c', u))" "same_regs c c'"
      "umem u = umem t" "eoi_count (trace u) = Suc (eoi_count (trace t))"
      "sysTicks u = sysTicks t + (if n = 32 then 1 else 0)" "tarBuf u = tarBuf t" "fdTable u = fdTable t"
      "\<And>d0 k. drive_after d0 k (trace u) = drive_after d0 k (trace t)"
    using interrupt_transparent [OF kept(1) assms(4,6-8)] by blast
  have "reachable code dev callee s u"
    using assms(5) step_irq [OF u(1)] unfolding reachable_def by (rule rtranclp.rtrancl_into_rtrancl)
  then show ?thesis using kept u by blast
qed

theorem reachable_interruptible_witness:
  "linked ex_code (print ex_env ''/$ '' [] st_gates) \<and>
   (\<exists>c' u. interrupt ex_code ex_dev 0 ex_callee 33 None (ex_cpu 8) (print ex_env ''/$ '' [] st_gates) = Inr (Returned (c', u)) \<and>
      c_eax c' = 7)"
proof -
  let ?t = "print ex_env ''/$ '' [] st_gates"
  have "reachable ex_code ex_dev ex_callee st_gates ?t" unfolding reachable_def by (rule r_into_rtranclp) (rule step_prompt)
  moreover have "console_inv st_gates" by (simp add: st_gates_def) (simp add: st0_def)
  ultimately show ?thesis
    using reachable_interruptible [OF ex_stub_facts(2) _ st_gates_keyboard(1) ex_stub_facts(1),
        where t = ?t and n = 33 and dev = ex_dev and ?cr2.0 = "0" and c = "ex_cpu 8"]
    by (auto simp: fault_vectors_def same_regs_def ex_cpu_def)
qed

end
