(* ===== verification/Boot.thy ===== *)
theory Boot
  imports Reachable
begin

text \<open>
  From \<open>kmain\<close> to the prompt: what the start of the kernel leaves behind - gates, descriptors, the archive
  in memory, the text on the screen - and the kernel as a whole, from the machine that is switched on to the
  lines of a session.
\<close>

section \<open>What the start says\<close>

definition init_text :: "'e boot_env_scheme \<Rightarrow> string \<Rightarrow> u8 list" where
  "init_text be name =
     (let p = sh_printf (shell_env.truncate be)
      in p (bytes ''Initializing %s...'') [ArgStr (bytes name)] @ p (bytes ''ok\<newline>'') [])"

definition boot_text :: "'e boot_env_scheme \<Rightarrow> u8 list" where
  "boot_text be =
     (let p = sh_printf (shell_env.truncate be)
      in p (bytes ''LanternOS v%s, copyright (c) 2026 hackifiery. All rights reserved.\<newline>'') [ArgStr (sh_version be)] @
         p (bytes ''Built with picolibc %s\<newline>\<newline>'') [ArgStr (bt_libc_version be)] @
         concat (map (init_text be) [''IDT'', ''GDT'', ''interrupts'', ''ATA'', ''tar driver'', ''timer'']) @
         p (bytes ''\<newline>Welcome to the lanternOS shell\<newline>Report bugs at https://github.com/hackifiery/lantern-os.\<newline>'') [] @
         p (bytes ''Type 'help' for commands.\<newline>\<newline>'') [])"

text \<open>The view that the shell starts with.\<close>

definition boot_view :: "'e boot_env_scheme \<Rightarrow> tar_file list \<Rightarrow> 'a proc_scheme \<Rightarrow> shell_view" where
  "boot_view be es s =
     \<lparr>sv_files = es, sv_disk = es, sv_screen = fold (term_put (COLOR s)) (boot_text be) (blank (COLOR s)),
      sv_color = COLOR s, sv_ticks = sysTicks s\<rparr>"

section \<open>The steps of the start\<close>

definition boot_rel ::
  "device \<Rightarrow> drive \<Rightarrow> nat \<Rightarrow> tar_file list \<Rightarrow> u8 \<Rightarrow> u32 \<Rightarrow> 'a proc_scheme \<Rightarrow> terminal \<Rightarrow> bool" where
  "boot_rel dev d0 k es col tk s scr \<longleftrightarrow>
     ata_ready dev d0 k s \<and> archive (disk_buffer d0 k s) es \<and> console_inv s \<and> keyboard_inv s \<and>
     COLOR s = col \<and> sysTicks s = tk \<and> term_view s = scr"

lemma boot_print:
  assumes "boot_rel dev d0 k es col tk s scr"
  shows "boot_rel dev d0 k es col tk (print env fmt args s) (fold (term_put col) (sh_printf env (bytes fmt) args) scr)"
proof -
  have "term_view (fold writeChar cs t) = fold (term_put (COLOR t)) cs (term_view t) \<and>
      console_inv (fold writeChar cs t) \<and> COLOR (fold writeChar cs t) = COLOR t \<and>
      keyboard_inv (fold writeChar cs t) = keyboard_inv t" if "console_inv t" for cs and t :: "'a proc_scheme"
    using that by (induction cs arbitrary: t) (simp_all add: view_writeChar writeChar_keeps)
  then show ?thesis using assms by (simp add: boot_rel_def) (simp add: print_writes)
qed

lemma boot_announce:
  assumes "boot_rel dev d0 k es col tk s scr"
    and "\<And>t scr. boot_rel dev d0 k es col tk t scr \<Longrightarrow> boot_rel dev d0 k es col tk (f t) scr"
  shows "boot_rel dev d0 k es col tk (announce be name f s) (fold (term_put col) (init_text be name) scr)"
  unfolding announce_def init_text_def Let_def fold_append o_apply
  by (rule boot_print, rule assms(2), rule boot_print, rule assms(1))

text \<open>Steps that look at other devices, or at other variables, keep it.\<close>

lemma boot_same:
  assumes "boot_rel dev d0 k es col tk s scr" "drive_after d0 k (trace t) = drive_after d0 k (trace s)"
    and "console_inv t = console_inv s" "keyboard_inv t = keyboard_inv s" "COLOR t = COLOR s" "sysTicks t = sysTicks s"
    "term_view t = term_view s"
  shows "boot_rel dev d0 k es col tk t scr"
  using assms same_drive [OF assms(2)] by (simp add: boot_rel_def)

lemma boot_io:
  assumes "boot_rel dev d0 k es col tk s scr" "drive_after d0 k (trace t) = drive_after d0 k (trace s)" "only_io s t"
  shows "boot_rel dev d0 k es col tk t scr"
proof -
  obtain x where t: "t = s\<lparr>trace := x\<rparr>" using assms(3) unfolding only_io_def by blast
  show ?thesis
    by (rule boot_same [OF assms(1,2)]) (simp_all add: t console_inv_def keyboard_inv_def term_view_def)
qed

lemma drive_initIdt: "drive_after d0 k (trace (initIdt addr ia (s :: 'a traps_scheme))) = drive_after d0 k (trace s)"
proof -
  have gate: "trace (setIdtGate n b t) = trace t" "trace (setIdtGateWithFlags n b fl t) = trace t" for n b fl t
    by (simp_all add: setIdtGate_def setIdtGateWithFlags_def)
  have gates: "trace (fold (\<lambda>i. setIdtGate (g i) (h i)) xs t) = trace t" for g h xs t
    by (induction xs arbitrary: t) (simp_all add: gate)
  have pic: "drive_after d0 k (trace (remapPic t)) = drive_after d0 k (trace t)" for t :: "'a traps_scheme"
    by (simp add: remapPic_def)
  show ?thesis by (simp add: initIdt_def Let_def pic gate gates del: fold_simps)
qed

lemma boot_steps:
  assumes "boot_rel dev d0 k es col tk s scr"
  shows "boot_rel dev d0 k es col tk (initIdt addr ia s) scr" "boot_rel dev d0 k es col tk (initGdt ga ta stk s) scr"
    "boot_rel dev d0 k es col tk (snd (ataIdentify dev sh s)) scr" "boot_rel dev d0 k es col tk (tarLoad dev s) scr"
    "boot_rel dev d0 k es col tk (the (initTimer 100 s)) scr" "boot_rel dev d0 k es col tk (enableCursor dev 14 15 s) scr"
proof -
  have r: "ata_ready dev d0 k s" "archive (disk_buffer d0 k s) es" using assms by (simp_all add: boot_rel_def)
  have "term_view (initIdt addr ia s) = term_view s" "COLOR (initIdt addr ia s) = COLOR s" "sysTicks (initIdt addr ia s) = sysTicks s"
    by (rule initIdt_observed; simp add: term_view_def)+
  then show "boot_rel dev d0 k es col tk (initIdt addr ia s) scr"
    by (intro boot_same [OF assms]) (simp_all add: drive_initIdt)
  have "term_view (initGdt ga ta stk s) = term_view s" "COLOR (initGdt ga ta stk s) = COLOR s"
      "sysTicks (initGdt ga ta stk s) = sysTicks s"
    by (rule initGdt_observed; simp add: term_view_def)+
  then show "boot_rel dev d0 k es col tk (initGdt ga ta stk s) scr"
    by (intro boot_same [OF assms]) simp_all
  show "boot_rel dev d0 k es col tk (snd (ataIdentify dev sh s)) scr"
    by (rule boot_io [OF assms ataIdentify_keeps(2,1) [OF r(1)]])
  have "sysTicks (tarLoad dev s) = sysTicks s" by simp
  then show "boot_rel dev d0 k es col tk (tarLoad dev s) scr"
    using assms tarLoad_disk(1) [OF r(1)] by (simp add: boot_rel_def)
  obtain lo hi where t: "the (initTimer 100 s) = outb 0x40 hi (outb 0x40 lo (outb 0x43 0x36 s))"
    by (auto simp: initTimer_def Let_def)
  show "boot_rel dev d0 k es col tk (the (initTimer 100 s)) scr"
    by (rule boot_io [OF assms]) (simp_all add: t only_io_def port_io_shape)
  show "boot_rel dev d0 k es col tk (enableCursor dev 14 15 s) scr"
    by (rule boot_io [OF assms]) (simp_all add: enableCursor_def Let_def case_prod_beta only_io_def, simp add: port_io_shape)
qed


section \<open>The whole start\<close>

lemma keyboard_fields: "keyboard_inv (s\<lparr>trace := x\<rparr>) = keyboard_inv s" "sysTicks (t\<lparr>trace := x\<rparr>) = sysTicks t"
  by (simp_all add: keyboard_inv_def)

lemma boot_cleared:
  fixes s :: "'a proc_scheme"
  assumes "ata_ready dev d0 k s" "archive (disk_buffer d0 k s) es" "keyboard_inv s"
  shows "boot_rel dev d0 k es (COLOR s) (sysTicks s) (clearScreen (moveCursor 0 0 (print env fmt args s))) (blank (COLOR s))"
proof -
  let ?p = "print env fmt args s"
  have m: "moveCursor 0 0 ?p = ?p\<lparr>trace := trace (moveCursor 0 0 ?p)\<rparr>" by (simp add: moveCursor_def port_io_shape Let_def)
  have d: "drive_after d0 k (trace (moveCursor 0 0 ?p)) = drive_after d0 k (trace ?p)" by (simp add: moveCursor_trace)
  have f: "COLOR ?p = COLOR s" "sysTicks ?p = sysTicks s" "keyboard_inv ?p = keyboard_inv s"
    unfolding print_writes by (rule writeChar_observed; simp add: keyboard_inv_def)+
  have "keyboard_inv (moveCursor 0 0 ?p) = keyboard_inv s" "sysTicks (moveCursor 0 0 ?p) = sysTicks s"
    unfolding f(2,3) [symmetric] using m by (metis keyboard_fields)+
  then show ?thesis
    using assms same_drive [OF d] by (simp add: boot_rel_def clearScreen_keeps view_clearScreen f)
qed

text \<open>The start in three parts: the tables, the drive, and the rest from the archive on.\<close>

definition kmain_tables :: "'e boot_env_scheme \<Rightarrow> 'a proc_scheme \<Rightarrow> 'a proc_scheme" where
  "kmain_tables be s =
     (let env = shell_env.truncate be;
          s1 = clearScreen (moveCursor 0 0 (print env ''\<newline>'' [] s));
          s2 = print env ''LanternOS v%s, copyright (c) 2026 hackifiery. All rights reserved.\<newline>'' [ArgStr (sh_version be)] s1;
          s3 = print env ''Built with picolibc %s\<newline>\<newline>'' [ArgStr (bt_libc_version be)] s2
      in announce be ''GDT'' (initGdt (bt_gdt be) (bt_tss be) (bt_tss_top be))
           (announce be ''IDT'' (initIdt (bt_addr be) (bt_idt be)) s3))"

definition kmain_drive :: "'e boot_env_scheme \<Rightarrow> device \<Rightarrow> 'a proc_scheme \<Rightarrow> 'a proc_scheme" where
  "kmain_drive be dev s =
     announce be ''ATA'' (\<lambda>t. snd (ataIdentify dev (bt_shift be) t)) (announce be ''interrupts'' id s)"

definition kmain_rest :: "'e boot_env_scheme \<Rightarrow> device \<Rightarrow> 'a proc_scheme \<Rightarrow> 'a proc_scheme" where
  "kmain_rest be dev s =
     (let env = shell_env.truncate be;
          s9 = announce be ''timer'' (\<lambda>t. the (initTimer 100 t)) (announce be ''tar driver'' (tarLoad dev) s);
          s11 = print env ''\<newline>Welcome to the lanternOS shell\<newline>Report bugs at https://github.com/hackifiery/lantern-os.\<newline>''
            [] (enableCursor dev 14 15 s9)
      in print env ''Type 'help' for commands.\<newline>\<newline>'' [] s11)"

lemma kmain_parts: "kmain be dev s = kmain_rest be dev (kmain_drive be dev (kmain_tables be s))"
  by (simp only: kmain_def kmain_rest_def kmain_drive_def kmain_tables_def Let_def)

context kernel_property
begin

lemma P_announce: "(\<And>t. P t \<Longrightarrow> P (f t)) \<Longrightarrow> P s \<Longrightarrow> P (announce be name f s)"
  by (simp add: announce_def Let_def P_print)

lemma P_timer: "P s \<Longrightarrow> P (the (initTimer 100 s))"
proof -
  assume P: "P s"
  obtain lo hi where t: "the (initTimer 100 s) = outb 0x40 hi (outb 0x40 lo (outb 0x43 0x36 s))"
    by (auto simp: initTimer_def Let_def)
  show ?thesis unfolding t by (simp add: P_ports P)
qed

lemma P_only_io: "only_io s t \<Longrightarrow> P s \<Longrightarrow> P t"
  unfolding only_io_def using P_trace by metis

lemma P_cursor: "P s \<Longrightarrow> P (enableCursor dev 14 15 s)"
  by (rule P_only_io) (simp_all add: enableCursor_def Let_def case_prod_beta only_io_def port_io_shape)

lemma P_rest: "P s \<Longrightarrow> P (kmain_rest be dev s)"
  unfolding kmain_rest_def Let_def by (intro P_print P_cursor P_announce P_timer P_transfers)

lemma P_drive:
  assumes "P s" "ata_ready dev d0 k s"
  shows "P (kmain_drive be dev s)"
proof -
  let ?t = "print (shell_env.truncate be) ''Initializing %s...'' [ArgStr (bytes ''ATA'')] (announce be ''interrupts'' id s)"
  have "ata_ready dev d0 k ?t" using assms(2) by (simp add: announce_def Let_def)
  moreover have "P ?t" using assms(1) by (intro P_print P_announce) simp_all
  ultimately have "P (snd (ataIdentify dev (bt_shift be) ?t))" using P_only_io ataIdentify_keeps(1) by blast
  then show ?thesis unfolding kmain_drive_def announce_def [where name = "''ATA''"] Let_def by (rule P_print)
qed

end

text \<open>The rest, from the archive on.\<close>

lemma rel_io:
  assumes "sh_rel dev d0 k s a" "drive_after d0 k (trace t) = drive_after d0 k (trace s)" "only_io s t"
  shows "sh_rel dev d0 k t a"
proof -
  obtain x where t: "t = s\<lparr>trace := x\<rparr>" using assms(3) unfolding only_io_def by blast
  show ?thesis
    using assms(1) same_drive [OF assms(2)] unfolding sh_rel_def by (simp add: t console_inv_def keyboard_inv_def term_view_def)
qed

definition rest_text :: "'e boot_env_scheme \<Rightarrow> u8 list" where
  "rest_text be =
     (let p = sh_printf (shell_env.truncate be)
      in init_text be ''tar driver'' @ init_text be ''timer'' @
         p (bytes ''\<newline>Welcome to the lanternOS shell\<newline>Report bugs at https://github.com/hackifiery/lantern-os.\<newline>'') [] @
         p (bytes ''Type 'help' for commands.\<newline>\<newline>'') [])"

lemma rel_announce:
  assumes "sh_rel dev d0 k s a" "\<And>t b. sh_rel dev d0 k t b \<Longrightarrow> sh_rel dev d0 k (f t) b"
  shows "sh_rel dev d0 k (announce be name f s) (typed_text (init_text be name) a)"
proof -
  have "typed_text (init_text be name) a =
      prints (shell_env.truncate be) ''ok\<newline>'' [] (prints (shell_env.truncate be) ''Initializing %s...'' [ArgStr (bytes name)] a)"
    by (simp add: typed_text_def prints_def init_text_def Let_def)
  then show ?thesis
    unfolding announce_def Let_def using assms by (simp add: rel_print)
qed

lemma rel_rest:
  assumes "boot_rel dev d0 k es col tk s scr" "names_ok es"
  shows "sh_rel dev d0 k (kmain_rest be dev s)
    \<lparr>sv_files = es, sv_disk = es, sv_screen = fold (term_put col) (rest_text be) scr, sv_color = col, sv_ticks = tk\<rparr>"
proof -
  let ?env = "shell_env.truncate be"
  let ?p = "print ?env ''Initializing %s...'' [ArgStr (bytes ''tar driver'')] s"
  let ?view = "\<lambda>scr. \<lparr>sv_files = es, sv_disk = es, sv_screen = scr, sv_color = col, sv_ticks = tk\<rparr>"
  have timer: "sh_rel dev d0 k t b \<Longrightarrow> sh_rel dev d0 k (the (initTimer 100 t)) b" for t b
  proof -
    assume r: "sh_rel dev d0 k t b"
    obtain lo hi where t: "the (initTimer 100 t) = outb 0x40 hi (outb 0x40 lo (outb 0x43 0x36 t))"
      by (auto simp: initTimer_def Let_def)
    show "sh_rel dev d0 k (the (initTimer 100 t)) b"
      by (rule rel_io [OF r]) (simp_all add: t only_io_def port_io_shape)
  qed
  have cursor: "sh_rel dev d0 k t b \<Longrightarrow> sh_rel dev d0 k (enableCursor dev 14 15 t) b" for t b
    by (erule rel_io) (simp_all add: enableCursor_def Let_def case_prod_beta only_io_def, simp add: port_io_shape)
  have p: "boot_rel dev d0 k es col tk ?p (fold (term_put col) (sh_printf ?env (bytes ''Initializing %s...'') [ArgStr (bytes ''tar driver'')]) scr)"
    by (rule boot_print [OF assms(1)])
  have "ata_ready dev d0 k ?p" "archive (disk_buffer d0 k ?p) es" using p by (simp_all add: boot_rel_def)
  then have "archive (tarBuf (tarLoad dev ?p)) es" by (rule tarLoad_archive)
  then have "sh_rel dev d0 k (tarLoad dev ?p)
      (?view (fold (term_put col) (sh_printf ?env (bytes ''Initializing %s...'') [ArgStr (bytes ''tar driver'')]) scr))"
    using boot_steps(4) [OF p] assms(2) by (simp add: boot_rel_def sh_rel_def)
  from rel_print [OF this, of ?env "''ok\<newline>''" "[]"]
  have "sh_rel dev d0 k (announce be ''tar driver'' (tarLoad dev) s) (?view (fold (term_put col) (init_text be ''tar driver'') scr))"
    by (simp add: announce_def init_text_def prints_def typed_text_def Let_def)
  from rel_announce [OF this, where be = be and name = "''timer''" and f = "\<lambda>t. the (initTimer 100 t)", OF timer]
  have 2: "sh_rel dev d0 k (announce be ''timer'' (\<lambda>t. the (initTimer 100 t)) (announce be ''tar driver'' (tarLoad dev) s))
      (?view (fold (term_put col) (init_text be ''timer'') (fold (term_put col) (init_text be ''tar driver'') scr)))"
    by (simp add: typed_text_def)
  have p: "sh_rel dev d0 k (print ?env fmt args t) (?view (fold (term_put col) (sh_printf ?env (bytes fmt) args) sc))"
    if "sh_rel dev d0 k t (?view sc)" for fmt args t sc
    using rel_print [OF that, of ?env fmt args] by (simp only: prints_def typed_text_def shell_view.simps)
  show ?thesis
    unfolding kmain_rest_def Let_def rest_text_def fold_append o_apply by (rule p cursor 2)+
qed

definition tables_text :: "'e boot_env_scheme \<Rightarrow> u8 list" where
  "tables_text be =
     (let p = sh_printf (shell_env.truncate be)
      in p (bytes ''LanternOS v%s, copyright (c) 2026 hackifiery. All rights reserved.\<newline>'') [ArgStr (sh_version be)] @
         p (bytes ''Built with picolibc %s\<newline>\<newline>'') [ArgStr (bt_libc_version be)] @
         init_text be ''IDT'' @ init_text be ''GDT'')"

lemma kmain_tables_rel:
  fixes s :: "'a proc_scheme"
  assumes "ata_ready dev d0 k s" "archive (disk_buffer d0 k s) es" "keyboard_inv s"
  shows "boot_rel dev d0 k es (COLOR s) (sysTicks s) (kmain_tables be s) (fold (term_put (COLOR s)) (tables_text be) (blank (COLOR s)))"
  unfolding kmain_tables_def tables_text_def Let_def fold_append o_apply
  by (rule boot_announce boot_print boot_cleared [OF assms] boot_steps | assumption)+

lemma kmain_rel:
  fixes s :: "'a proc_scheme"
  assumes "ata_ready dev d0 k s" "archive (disk_buffer d0 k s) es" "keyboard_inv s" "names_ok es"
  shows "sh_rel dev d0 k (kmain be dev s) (boot_view be es s)"
proof -
  have id: "boot_rel dev d0 k es (COLOR s) (sysTicks s) (id t) scr" if "boot_rel dev d0 k es (COLOR s) (sysTicks s) t scr" for t scr
    using that by simp
  have "boot_rel dev d0 k es (COLOR s) (sysTicks s) (kmain_drive be dev (kmain_tables be s))
      (fold (term_put (COLOR s)) (init_text be ''ATA'') (fold (term_put (COLOR s)) (init_text be ''interrupts'')
       (fold (term_put (COLOR s)) (tables_text be) (blank (COLOR s)))))"
    unfolding kmain_drive_def
    by (rule boot_announce kmain_tables_rel [OF assms(1-3)] boot_steps id | assumption)+
  from rel_rest [OF this assms(4), of be] show ?thesis
    unfolding kmain_parts by (simp add: boot_view_def boot_text_def rest_text_def tables_text_def Let_def)
qed

text \<open>After the tables are loaded nothing changes them.\<close>

definition tables_set :: "(u32 \<Rightarrow> stub) \<Rightarrow> u32 \<Rightarrow> 'a traps_scheme \<Rightarrow> bool" where
  "tables_set code stk s \<longleftrightarrow>
     linked code s \<and> tss_esp0 (tss s) = stk \<and> tss_ss0 (tss s) = 0x10 \<and>
     map (access \<circ> gdt s) [0..<6] = [0, 0x9A, 0x92, 0xFA, 0xF2, 0xE9]"

lemma tables_frame:
  "tables_set code stk s \<Longrightarrow> idt t = idt s \<Longrightarrow> tss t = tss s \<Longrightarrow> gdt t = gdt s \<Longrightarrow> tables_set code stk t"
  by (simp add: tables_set_def linked_def)

interpretation tables_kept: kernel_property "tables_set code stk" for code stk
  by unfold_locales (erule tables_frame, simp_all)+

lemma kmain_tables_set:
  fixes s :: "'a proc_scheme"
  assumes "\<And>n :: u8. code (bt_addr be (stub_of n)) = stub_of n"
  shows "tables_set code (bt_tss_top be) (kmain_tables be s)"
proof -
  have idt: "linked code (initIdt (bt_addr be) ia t)" for ia and t :: "'a proc_scheme" by (rule linked_initIdt [OF assms])
  have gdt: "tables_set code (bt_tss_top be) (initGdt (bt_gdt be) (bt_tss be) (bt_tss_top be) t)" if "linked code t" for t :: "'a proc_scheme"
    using linked_frame [OF that, of "initGdt (bt_gdt be) (bt_tss be) (bt_tss_top be) t"]
      initGdt_segments(3) [of "bt_gdt be" "bt_tss be" "bt_tss_top be" t]
    by (simp add: tables_set_def) (simp add: initGdt_def setTssGate_def Let_def)
  show ?thesis
    unfolding kmain_tables_def announce_def Let_def by (intro tables_kept.P_print gdt gates_kept.P_print idt)
qed

lemma kmain_tables_kept:
  fixes s :: "'a proc_scheme"
  assumes "ata_ready dev d0 k s" "archive (disk_buffer d0 k s) es" "keyboard_inv s"
    and "\<And>n :: u8. code (bt_addr be (stub_of n)) = stub_of n"
  shows "tables_set code (bt_tss_top be) (kmain be dev s)"
proof -
  have "ata_ready dev d0 k (kmain_tables be s)"
    using kmain_tables_rel [OF assms(1-3), of be] by (simp add: boot_rel_def)
  then show ?thesis
    unfolding kmain_parts by (intro tables_kept.P_rest tables_kept.P_drive kmain_tables_set assms(4))
qed

section \<open>Properties\<close>

text \<open>
  C8. The start of the kernel: from any state in which the drive holds an archive, \<open>kmain\<close> comes to the
  prompt with the archive in memory, the texts of the start on the screen and nothing else, every gate at its
  stub, and the task state and descriptors that a program needs.
\<close>

theorem kernel_boots:
  fixes s :: "'a proc_scheme"
  assumes "ata_ready dev d0 k s" "archive (disk_buffer d0 k s) es" "keyboard_inv s" "names_ok es"
    and "\<And>n :: u8. code (bt_addr be (stub_of n)) = stub_of n"
  shows "sh_rel dev d0 k (kmain be dev s) (boot_view be es s) \<and> tables_set code (bt_tss_top be) (kmain be dev s)"
  by (intro conjI kmain_rel [OF assms(1-4)] kmain_tables_kept [OF assms(1-3,5)])

definition ex_boot :: boot_env where
  "ex_boot = shell_env.extend ex_env
     (boot_env.fields ex_addr 0x3000 0x4000 0x5000 0x6000 0 [])"

lemma ex_boot_facts: "bt_addr ex_boot = ex_addr" "bt_tss_top ex_boot = 0x6000" "shell_env.truncate ex_boot = ex_env"
  by (simp_all add: ex_boot_def shell_env.defs boot_env.defs ex_env_def)

lemma st_disk_boots:
  "ata_ready ex_dev ex_drive 2 st_disk" "archive (disk_buffer ex_drive 2 st_disk) ex_files" "keyboard_inv st_disk"
  "names_ok ex_files"
  using ex_view_rel by (simp_all add: sh_rel_def ex_view_def)

theorem kernel_boots_witness:
  "archive (tarBuf (kmain ex_boot ex_dev st_disk)) ex_files \<and> tables_set ex_code 0x6000 (kmain ex_boot ex_dev st_disk)"
  using kernel_boots [OF st_disk_boots, of ex_code ex_boot] ex_code_addr
  by (simp add: ex_boot_facts sh_rel_def boot_view_def)

text \<open>
  The kernel as a whole: a machine that starts over a disk with an archive answers every list of covered
  lines as the specification says, from the view of the start; and in the state it is in then, an interrupt
  that is no fault still returns to what it interrupted.
\<close>

theorem kernel_session:
  fixes s :: "'a proc_scheme"
  assumes "ata_ready dev d0 k s" "archive (disk_buffer d0 k s) es" "keyboard_inv s" "names_ok es"
    and "\<And>n :: u8. code (bt_addr be (stub_of n)) = stub_of n" "cdecl callee"
    and "admissible (shell_ok (shell_env.truncate be)) (shell_spec (shell_env.truncate be)) cs (boot_view be es s)"
    and "n \<notin> set fault_vectors" "n \<noteq> 34" "n \<noteq> 0x80"
  shows "\<exists>t. sh_loop (shell_env.truncate be) (shell_trap code dev cr2 callee ip c (syscallDispatcher lc dev polls heap)) dev cs
        (kmain be dev s) = Inr (Next t) \<and>
      sh_rel dev d0 k t (snd (run_spec (shell_spec (shell_env.truncate be)) cs (boot_view be es s))) \<and>
      (\<exists>c' u. interrupt code dev cr2 callee n None c t = Inr (Returned (c', u)) \<and> same_regs c c')"
proof -
  let ?trap = "shell_trap code dev cr2 callee ip c (syscallDispatcher lc dev polls heap)"
  obtain t where t: "run_calls (sh_step (shell_env.truncate be) ?trap dev) cs (kmain be dev s) =
        Inr (fst (run_spec (shell_spec (shell_env.truncate be)) cs (boot_view be es s)), t)"
      "sh_rel dev d0 k t (snd (run_spec (shell_spec (shell_env.truncate be)) cs (boot_view be es s)))"
    using sessions.run_simulates [OF kmain_rel [OF assms(1-4)] assms(7), of ?trap] by blast
  have loop: "sh_loop (shell_env.truncate be) ?trap dev cs (kmain be dev s) = Inr (Next t)"
    by (rule sh_loop_calls [OF t(1)])
  have "linked code (kmain be dev s)" using kmain_tables_kept [OF assms(1-3,5)] by (simp add: tables_set_def)
  then have "linked code t" by (rule gates_kept.P_reachable [OF sh_loop_reachable [OF loop]])
  then show ?thesis using loop t(2) interrupt_transparent [OF _ assms(6,8-10)] by blast
qed

theorem kernel_session_witness:
  "\<exists>t. sh_loop ex_env (shell_trap ex_code ex_dev 0 ex_callee 0 (ex_cpu 8) (syscallDispatcher ex_libc ex_dev [] 0)) ex_dev
      [(bytes ''touch c'', [])] (kmain ex_boot ex_dev st_disk) = Inr (Next t) \<and>
    archive (disk_buffer ex_drive 2 t) (ex_files @ [(bytes ''c'', [])])"
proof -
  let ?cs = "[(bytes ''touch c'', []) :: u8 list \<times> u8 list]" and ?v = "boot_view ex_boot ex_files st_disk"
  note defs = shell_ok_def shell_spec_def line_ok_def line_spec_def plain_commands_def file_commands_def names_program_def
    touch_spec_def prints_def typed_text_def boot_view_def ex_files_def file_a_def file_b_def span_def Let_def ex_tokens
  have "admissible (shell_ok ex_env) (shell_spec ex_env) ?cs ?v" using ex_tokens by (simp add: defs)
  moreover have "sv_disk (snd (run_spec (shell_spec ex_env) ?cs ?v)) = ex_files @ [(bytes ''c'', [])]"
    using ex_tokens by (simp add: defs)
  ultimately show ?thesis
    using kernel_session [OF st_disk_boots, of ex_code ex_boot ex_callee ?cs 33 "0" 0 "ex_cpu 8" ex_libc "[]" 0]
      ex_stub_facts(1) ex_code_addr
    by (auto simp: ex_boot_facts sh_rel_def fault_vectors_def)
qed

end
