(* ===== verification/Interleaving.thy ===== *)
theory Interleaving
  imports Boot
begin

text \<open>
  Disk transfers and interrupts. The kernel runs its transfers with interrupts on, so the timer and the
  keyboard come in between any two port accesses. The transfers are written again as programs of port
  accesses (\<open>port_prog\<close>), which are proved to be the driver's operations; a run of a program in which
  interrupts are taken at any points (\<open>interleaved\<close>) then has the result of the run without them.
\<close>

section \<open>Programs of port accesses\<close>

datatype 'r port_prog =
    Ret 'r
  | PutB u16 u8 "'r port_prog"
  | PutW u16 u16 "'r port_prog"
  | GetB u16 "u8 \<Rightarrow> 'r port_prog"
  | GetW u16 "u16 \<Rightarrow> 'r port_prog"

primrec perform :: "device \<Rightarrow> 'r port_prog \<Rightarrow> 'a machine_scheme \<Rightarrow> 'r \<times> 'a machine_scheme" where
  "perform dev (Ret r) = (\<lambda>s. (r, s))"
| "perform dev (PutB p v q) = (\<lambda>s. perform dev q (outb p v s))"
| "perform dev (PutW p v q) = (\<lambda>s. perform dev q (outw p v s))"
| "perform dev (GetB p f) = (\<lambda>s. let (v, s1) = inb dev p s in perform dev (f v) s1)"
| "perform dev (GetW p f) = (\<lambda>s. let (v, s1) = inw dev p s in perform dev (f v) s1)"

primrec seq :: "'r port_prog \<Rightarrow> ('r \<Rightarrow> 'q port_prog) \<Rightarrow> 'q port_prog" where
  "seq (Ret r) g = g r"
| "seq (PutB p v q) g = PutB p v (seq q g)"
| "seq (PutW p v q) g = PutW p v (seq q g)"
| "seq (GetB p f) g = GetB p (\<lambda>v. seq (f v) g)"
| "seq (GetW p f) g = GetW p (\<lambda>v. seq (f v) g)"

lemma perform_seq: "perform dev (seq q g) s = perform dev (g (fst (perform dev q s))) (snd (perform dev q s))"
  by (induction q arbitrary: s) (simp_all add: case_prod_beta Let_def)

section \<open>The driver as programs\<close>

fun poll_prog :: "u8 \<Rightarrow> u8 \<Rightarrow> nat \<Rightarrow> bool port_prog" where
  "poll_prog msk val 0 = Ret False"
| "poll_prog msk val (Suc n) = GetB ATA_SR (\<lambda>st. if st AND msk = val then Ret True else poll_prog msk val n)"

fun data_prog :: "nat \<Rightarrow> bool port_prog" where
  "data_prog 0 = Ret False"
| "data_prog (Suc n) =
     GetB ATA_SR (\<lambda>st. if st AND ATA_SR_DRQ \<noteq> 0 then Ret True else if st AND ATA_SR_ERR \<noteq> 0 then Ret False else data_prog n)"

definition command_prog :: "u32 \<Rightarrow> u8 \<Rightarrow> unit port_prog" where
  "command_prog lba comm =
     PutB ATA_HEAD (ucast (0xE0 OR (drop_bit 24 lba AND 0x0F))) (PutB ATA_ERR 0 (PutB ATA_SEC_COUNT 1
      (PutB ATA_LBA_L (ucast lba) (PutB ATA_LBA_M (ucast (drop_bit 8 lba)) (PutB ATA_LBA_H (ucast (drop_bit 16 lba))
        (PutB ATA_COMM comm (Ret ())))))))"

fun in_prog :: "nat \<Rightarrow> u16 list port_prog" where
  "in_prog 0 = Ret []"
| "in_prog (Suc n) = GetW ATA_DATA (\<lambda>w. seq (in_prog n) (\<lambda>ws. Ret (w # ws)))"

fun out_prog :: "u16 list \<Rightarrow> unit port_prog" where
  "out_prog [] = Ret ()"
| "out_prog (w # ws) = PutW ATA_DATA w (out_prog ws)"

definition read_prog :: "u32 \<Rightarrow> u16 list port_prog" where
  "read_prog lba =
     seq (command_prog lba ATA_COMM_READ) (\<lambda>_.
       seq (poll_prog ATA_SR_BSY 0 10000) (\<lambda>ready. seq (if ready then data_prog 10000 else Ret False) (\<lambda>_. in_prog 256)))"

definition write_prog :: "u32 \<Rightarrow> u16 list \<Rightarrow> unit port_prog" where
  "write_prog lba buf =
     seq (poll_prog ATA_SR_BSY 0 10000) (\<lambda>_. seq (command_prog lba ATA_COMM_WRITE) (\<lambda>_.
       seq (poll_prog ATA_SR_DRQ ATA_SR_DRQ 10000) (\<lambda>ready. if \<not> ready then Ret ()
         else seq (out_prog (take 256 buf)) (\<lambda>_. PutB ATA_COMM ATA_COMM_FLUSH
           (seq (poll_prog ATA_SR_BSY 0 10000) (\<lambda>_. Ret ()))))))"

fun flush_prog :: "nat \<Rightarrow> buffer \<Rightarrow> unit port_prog" where
  "flush_prog 0 b = Ret ()"
| "flush_prog (Suc n) b = seq (flush_prog n b) (\<lambda>_. write_prog (TAR_START_LBA + of_nat n) (load_words b (n * 512) 256))"

lemma perform_polls:
  "perform dev (poll_prog msk val n) s = ataWait dev msk val n s"
  "perform dev (data_prog n) s = wait_data dev n s"
  "ataWait dev ATA_SR_BSY 0 n s = wait_not_busy dev n s"
  by (induction n arbitrary: s) (simp_all add: case_prod_beta Let_def)

lemma perform_words:
  "perform dev (in_prog n) s = in_words dev n s" "perform dev (out_prog ws) s = ((), out_words ws s)"
  "perform dev (command_prog lba comm) s = ((), ata_command lba comm s)"
proof -
  show "perform dev (in_prog n) s = in_words dev n s"
    by (induction n arbitrary: s) (simp_all add: perform_seq case_prod_beta Let_def)
  show "perform dev (out_prog ws) s = ((), out_words ws s)" by (induction ws arbitrary: s) simp_all
qed (simp add: command_prog_def ata_command_def Let_def)

lemma perform_read: "perform dev (read_prog lba) s = ataRead dev lba s"
  by (simp add: read_prog_def perform_seq perform_words perform_polls ataRead_def waitDrive_def case_prod_beta Let_def
      if_distrib [of "\<lambda>q. perform dev q _"] cong: if_cong)

lemma perform_write: "perform dev (write_prog lba buf) s = ((), ataWrite dev lba buf s)"
  by (simp add: write_prog_def perform_seq perform_words perform_polls(1) ataWrite_def case_prod_beta Let_def
      del: poll_prog.simps ataWait.simps)

lemma perform_flush: "perform dev (flush_prog TAR_MAX_SECTORS (tarBuf s)) s = ((), tarFlush dev s)"
proof -
  have "perform dev (flush_prog n b) s =
      ((), for_to n (\<lambda>i. ataWrite dev (TAR_START_LBA + of_nat i) (load_words b (i * 512) 256)) s)" for n b
    by (induction n) (simp_all add: perform_seq perform_write)
  then show ?thesis unfolding tarFlush_def using tarFlush_writes [of dev TAR_MAX_SECTORS s] by simp
qed

section \<open>Interrupts in between\<close>

inductive interleaved ::
  "(u32 \<Rightarrow> stub) \<Rightarrow> device \<Rightarrow> (cpu \<Rightarrow> cpu) \<Rightarrow> 'r port_prog \<Rightarrow> 'a proc_scheme \<Rightarrow> 'r \<Rightarrow> 'a proc_scheme \<Rightarrow> bool"
  for code :: "u32 \<Rightarrow> stub" and dev :: device and callee :: "cpu \<Rightarrow> cpu" where
  il_ret: "interleaved code dev callee (Ret r) s r s"
| il_putb: "interleaved code dev callee q (outb p v s) r t \<Longrightarrow> interleaved code dev callee (PutB p v q) s r t"
| il_putw: "interleaved code dev callee q (outw p w s) r t \<Longrightarrow> interleaved code dev callee (PutW p w q) s r t"
| il_getb: "interleaved code dev callee (f (fst (inb dev p s))) (snd (inb dev p s)) r t \<Longrightarrow>
    interleaved code dev callee (GetB p f) s r t"
| il_getw: "interleaved code dev callee (g (fst (inw dev p s))) (snd (inw dev p s)) r t \<Longrightarrow>
    interleaved code dev callee (GetW p g) s r t"
| il_irq: "interrupt code dev cr2 callee n e c s = Inr (Returned (d, s')) \<Longrightarrow> interleaved code dev callee q s' r t \<Longrightarrow>
    interleaved code dev callee q s r t"

inductive_cases interleaved_RetE: "interleaved code dev callee (Ret r) s r' t"

lemma interleaved_perform: "interleaved code dev callee q s (fst (perform dev q s)) (snd (perform dev q s))"
  by (induction q arbitrary: s) (auto simp: case_prod_beta Let_def intro: il_ret il_putb il_putw il_getb il_getw)

text \<open>A program that reads the drive only, and a drive whose answers are determined by its state.\<close>

primrec reads_drive :: "'r port_prog \<Rightarrow> bool" where
  "reads_drive (Ret r) = True"
| "reads_drive (PutB p v q) = reads_drive q"
| "reads_drive (PutW p v q) = reads_drive q"
| "reads_drive (GetB p f) = (p = ATA_SR \<and> (\<forall>v. reads_drive (f v)))"
| "reads_drive (GetW p f) = (p = ATA_DATA \<and> (\<forall>v. reads_drive (f v)))"

definition steady :: "device \<Rightarrow> drive \<Rightarrow> nat \<Rightarrow> bool" where
  "steady dev d0 k \<longleftrightarrow>
     (\<forall>tr tr'. drive_after d0 k tr = drive_after d0 k tr' \<longrightarrow> dev tr ATA_SR = dev tr' ATA_SR \<and> dev tr ATA_DATA = dev tr' ATA_DATA)"

lemma steady_pio: "steady (pio_drive d0 k) d0 k"
  by (simp add: steady_def pio_drive_def)

lemma reads_seq: "reads_drive q \<Longrightarrow> (\<And>r. reads_drive (g r)) \<Longrightarrow> reads_drive (seq q g)"
  by (induction q) auto

lemma reads_driver:
  "reads_drive (poll_prog msk val n)" "reads_drive (data_prog n)" "reads_drive (in_prog n)" "reads_drive (out_prog ws)"
  "reads_drive (command_prog lba comm)"
proof -
  show "reads_drive (poll_prog msk val n)" "reads_drive (data_prog n)" "reads_drive (in_prog n)"
    by (induction n) (auto intro: reads_seq)
  show "reads_drive (out_prog ws)" by (induction ws) simp_all
qed (simp add: command_prog_def)

lemma reads_transfers: "reads_drive (read_prog lba)" "reads_drive (write_prog lba buf)" "reads_drive (flush_prog n b)"
proof -
  show "reads_drive (read_prog lba)" unfolding read_prog_def by (intro reads_seq reads_driver) (simp add: reads_driver)
  have w: "reads_drive (write_prog l buf)" for l buf
    unfolding write_prog_def by (intro reads_seq reads_driver) (simp add: reads_driver reads_seq)
  show "reads_drive (write_prog lba buf)" by (rule w)
  show "reads_drive (flush_prog n b)" by (induction n) (simp_all add: reads_seq w)
qed

text \<open>Interrupts change neither the result of a program nor what it does to the drive, nor anything else of the files.\<close>

lemma drive_interrupt:
  fixes s :: "'a proc_scheme"
  assumes "interrupt code dev cr2 callee n e c s = Inr (Returned (d, t))"
  shows "drive_after d0 k (trace t) = drive_after d0 k (trace s)" "tarBuf t = tarBuf s" "fdTable t = fdTable s"
proof -
  obtain r where "interruptDispatcher dev cr2 r s = Inr (Returned t)"
    using assms interrupt_returned unfolding interrupt_def isr_stub_def Let_def by blast
  then show "drive_after d0 k (trace t) = drive_after d0 k (trace s)" "tarBuf t = tarBuf s" "fdTable t = fdTable s"
    using dispatched_drive dispatched_fields(4,5) by blast+
qed

lemma ports_files [simp]:
  "tarBuf (snd (inb dev p s)) = tarBuf s" "tarBuf (snd (inw dev p s)) = tarBuf s"
  "fdTable (snd (inb dev p t)) = fdTable t" "fdTable (snd (inw dev p t)) = fdTable t"
  "tarBuf (outb p v s) = tarBuf s" "tarBuf (outw p w s) = tarBuf s" "fdTable (outb p v t) = fdTable t" "fdTable (outw p w t) = fdTable t"
  by (simp_all add: port_io_shape)

lemma interleaved_result:
  fixes s u :: "'a proc_scheme"
  assumes "interleaved code dev callee q s r t" "reads_drive q" "steady dev d0 k"
    and "drive_after d0 k (trace u) = drive_after d0 k (trace s)"
  shows "fst (perform dev q u) = r \<and>
    drive_after d0 k (trace (snd (perform dev q u))) = drive_after d0 k (trace t) \<and> tarBuf t = tarBuf s \<and> fdTable t = fdTable s"
  using assms
proof (induction arbitrary: u rule: interleaved.induct)
  case (il_putb q p v s r t)
  then show ?case using il_putb.IH [of "outb p v u"] by simp
next
  case (il_putw q p w s r t)
  then show ?case using il_putw.IH [of "outw p w u"] by simp
next
  case (il_getb f p s r t)
  have "p = ATA_SR" "dev (trace u) ATA_SR = dev (trace s) ATA_SR"
    using il_getb.prems unfolding steady_def by (simp, blast)
  then have v: "fst (inb dev p u) = fst (inb dev p s)" by (simp add: port_io_shape)
  have "drive_after d0 k (trace (snd (inb dev p u))) = drive_after d0 k (trace (snd (inb dev p s)))"
    using il_getb.prems(3) v by simp
  moreover have "reads_drive (f (fst (inb dev p s)))" using il_getb.prems(1) by simp
  ultimately show ?case
    using il_getb.IH [of "snd (inb dev p u)"] il_getb.prems(2) v by (simp add: case_prod_beta Let_def)
next
  case (il_getw g p s r t)
  have "p = ATA_DATA" "dev (trace u) ATA_DATA = dev (trace s) ATA_DATA"
    using il_getw.prems unfolding steady_def by (simp, blast)
  then have v: "fst (inw dev p u) = fst (inw dev p s)" by (simp add: port_io_shape)
  have "drive_after d0 k (trace (snd (inw dev p u))) = drive_after d0 k (trace (snd (inw dev p s)))"
    using il_getw.prems(3) v by simp
  moreover have "reads_drive (g (fst (inw dev p s)))" using il_getw.prems(1) by simp
  ultimately show ?case
    using il_getw.IH [of "snd (inw dev p u)"] il_getw.prems(2) v by (simp add: case_prod_beta Let_def)
next
  case (il_irq cr2 n e c s d s' q r t)
  then show ?case using drive_interrupt [OF il_irq.hyps(1)] by simp
qed simp_all

section \<open>Properties\<close>

text \<open>
  C10. Transfers survive interrupts: \<open>tarFlush\<close> and then a read of a sector, each with any interrupts at any
  points between its port accesses, write the same disk and give the same words as the operations alone; the
  archive in memory stays, and the drive is ready afterwards.
\<close>

theorem transfers_survive_interrupts:
  fixes s :: "'a proc_scheme"
  assumes "ata_ready dev d0 k s" "steady dev d0 k" "archive (tarBuf s) es" "lba < 2 ^ 28"
    and "interleaved code dev callee (flush_prog TAR_MAX_SECTORS (tarBuf s)) s r t"
    and "interleaved code dev callee (read_prog lba) t ws u"
  shows "perform dev (flush_prog TAR_MAX_SECTORS (tarBuf s)) s = ((), tarFlush dev s) \<and>
    perform dev (read_prog lba) t = ataRead dev lba t \<and>
    disk_buffer d0 k t = disk_buffer d0 k (tarFlush dev s) \<and> ws = ata_sector d0 k (tarFlush dev s) lba \<and>
    archive (disk_buffer d0 k u) es \<and> archive (tarBuf u) es \<and> fdTable u = fdTable s \<and> ata_ready dev d0 k u"
proof -
  have t: "drive_after d0 k (trace (tarFlush dev s)) = drive_after d0 k (trace t)" "tarBuf t = tarBuf s" "fdTable t = fdTable s"
    using interleaved_result [OF assms(5) reads_transfers(3) assms(2) refl] unfolding perform_flush by simp_all
  have u: "fst (ataRead dev lba t) = ws" "drive_after d0 k (trace (snd (ataRead dev lba t))) = drive_after d0 k (trace u)"
      "tarBuf u = tarBuf t" "fdTable u = fdTable t"
    using interleaved_result [OF assms(6) reads_transfers(1) assms(2) refl] unfolding perform_read by simp_all
  note flushed = same_drive [OF t(1)]
  have ready: "ata_ready dev d0 k t" using tarFlush_disk(1) [OF assms(1)] flushed(1) by simp
  note rd = ataRead_drive [OF ready assms(4)]
  have "ata_sector d0 k t lba = ata_sector d0 k (tarFlush dev s) lba" using t(1) by (simp add: ata_sector_def)
  moreover have "ata_ready dev d0 k u" using rd same_drive(1) [OF u(2)] by simp
  moreover have "disk (drive_after d0 k (trace u)) = disk (drive_after d0 k (trace t))" using rd unfolding u(2) by blast
  then have "disk_buffer d0 k u = disk_buffer d0 k t" by (intro ext) (simp add: disk_buffer_def ata_sector_def)
  ultimately show ?thesis
    using perform_flush [of dev s] perform_read [of dev lba t] t(2,3) u rd flushed(2) assms(3) tarFlush_archive [OF assms(1,3)] by simp
qed

theorem transfers_survive_interrupts_witness:
  "\<exists>t ws u. interleaved ex_code ex_dev ex_callee (flush_prog TAR_MAX_SECTORS ex_buf) st_gates () t \<and>
    interleaved ex_code ex_dev ex_callee (read_prog 101) t ws u \<and>
    sysTicks t = sysTicks st_gates + 1 \<and> archive (disk_buffer ex_drive 2 u) ex_files"
proof -
  obtain d s1 where irq: "interrupt ex_code ex_dev 0 ex_callee 32 None (ex_cpu 8) st_gates = Inr (Returned (d, s1))"
      and tick: "sysTicks s1 = sysTicks st_gates + 1"
    using interrupt_transparent [OF ex_stub_facts(2,1), of 32 ex_dev 0 "ex_cpu 8"] by (auto simp: fault_vectors_def)
  have d: "drive_after d0 k (trace st_gates) = drive_after d0 k (trace st0)" for d0 k
    by (simp add: st_gates_def drive_initIdt)
  have g: "ata_ready ex_dev ex_drive 2 st_gates" "tarBuf st_gates = ex_buf" "archive (tarBuf st_gates) ex_files"
    using same_drive(1) [OF d] st0_facts by (simp_all add: st_gates_def)
  have b: "tarBuf s1 = ex_buf" using drive_interrupt(2) [OF irq] g(2) by simp
  let ?t = "tarFlush ex_dev s1" and ?r = "ataRead ex_dev 101 (tarFlush ex_dev s1)"
  have "interleaved ex_code ex_dev ex_callee (flush_prog TAR_MAX_SECTORS ex_buf) s1 () ?t"
    using interleaved_perform [of ex_code ex_dev ex_callee "flush_prog TAR_MAX_SECTORS ex_buf" s1] perform_flush [of ex_dev s1]
    by (simp add: b)
  then have flush: "interleaved ex_code ex_dev ex_callee (flush_prog TAR_MAX_SECTORS ex_buf) st_gates () ?t" by (rule il_irq [OF irq])
  have read: "interleaved ex_code ex_dev ex_callee (read_prog 101) ?t (fst ?r) (snd ?r)"
    using interleaved_perform [of ex_code ex_dev ex_callee "read_prog 101" ?t] by (simp add: perform_read)
  have "steady ex_dev ex_drive 2" by (simp add: ex_dev_def steady_pio)
  then have "archive (disk_buffer ex_drive 2 (snd ?r)) ex_files"
    using transfers_survive_interrupts [OF g(1) _ g(3) _ flush [folded g(2)] read] by simp
  then show ?thesis using flush read tick by (intro exI [where x = ?t] exI [where x = "fst ?r"] exI [where x = "snd ?r"]) simp
qed

end
