(* ===== verification/Statements.thy ===== *)
theory Statements
  imports Lantern_Prelude
begin

text \<open>
  Sequences of statements that an interrupt can come between. A statement is a load or a store of a shared
  variable; a run takes interrupts at any points (\<open>interrupted\<close>), and what it leaves is shown with assertions that
  every interrupt keeps (\<open>stable\<close>, \<open>from_to\<close>).
\<close>

section \<open>Sequences of statements\<close>

text \<open>A statement changes the state; what comes next depends on the state that it found.\<close>

datatype ('s, 'r) stmts = Return 'r | Stmt "'s \<Rightarrow> 's" "'s \<Rightarrow> ('s, 'r) stmts"

primrec run_stmts :: "('s, 'r) stmts \<Rightarrow> 's \<Rightarrow> 'r \<times> 's" where
  "run_stmts (Return r) = (\<lambda>s. (r, s))"
| "run_stmts (Stmt f g) = (\<lambda>s. run_stmts (g s) (f s))"

definition store :: "('s \<Rightarrow> 's) \<Rightarrow> ('s, 'r) stmts \<Rightarrow> ('s, 'r) stmts" where
  "store f q = Stmt f (\<lambda>s. q)"

definition load :: "('s \<Rightarrow> 'v) \<Rightarrow> ('v \<Rightarrow> ('s, 'r) stmts) \<Rightarrow> ('s, 'r) stmts" where
  "load g q = Stmt id (\<lambda>s. q (g s))"

primrec and_then :: "('s, 'q) stmts \<Rightarrow> ('s, 'r) stmts \<Rightarrow> ('s, 'r) stmts" where
  "and_then (Return x) q = q"
| "and_then (Stmt f g) q = Stmt f (\<lambda>s. and_then (g s) q)"

fun count_up :: "nat \<Rightarrow> (nat \<Rightarrow> ('s, unit) stmts) \<Rightarrow> ('s, unit) stmts" where
  "count_up 0 body = Return ()"
| "count_up (Suc n) body = and_then (count_up n body) (body n)"

lemma run_simps [simp]:
  "run_stmts (store f q) s = run_stmts q (f s)" "run_stmts (load g p) s = run_stmts (p (g s)) s"
  "run_stmts (and_then b q) s = run_stmts q (snd (run_stmts b s))"
proof -
  show "run_stmts (and_then b q) s = run_stmts q (snd (run_stmts b s))" by (induction b arbitrary: s) simp_all
qed (simp_all add: store_def load_def)

lemma run_count_up:
  "run_stmts (count_up n body) s = ((), for_to n (\<lambda>i t. snd (run_stmts (body i) t)) s)"
  by (induction n) (simp_all add: prod_eq_iff)

section \<open>Interrupts between statements\<close>

text \<open>A run with the interrupts that were taken, each with the states before and after it.\<close>

inductive interrupted :: "('s \<Rightarrow> 's \<Rightarrow> bool) \<Rightarrow> ('s, 'r) stmts \<Rightarrow> 's \<Rightarrow> ('s \<times> 's) list \<Rightarrow> 'r \<Rightarrow> 's \<Rightarrow> bool"
  for irq :: "'s \<Rightarrow> 's \<Rightarrow> bool" where
  it_return: "interrupted irq (Return r) s [] r s"
| it_stmt: "interrupted irq (g s) (f s) ds r t \<Longrightarrow> interrupted irq (Stmt f g) s ds r t"
| it_irq: "irq s s' \<Longrightarrow> interrupted irq q s' ds r t \<Longrightarrow> interrupted irq q s ((s, s') # ds) r t"

lemma interrupted_run: "interrupted irq q s [] (fst (run_stmts q s)) (snd (run_stmts q s))"
  by (induction q arbitrary: s) (auto intro: it_return it_stmt)

lemma one_interrupt: "irq s s' \<Longrightarrow> interrupted irq q s [(s, s')] (fst (run_stmts q s')) (snd (run_stmts q s'))"
  by (rule it_irq [OF _ interrupted_run])

lemma it_store: "interrupted irq q (f s) ds r t \<Longrightarrow> interrupted irq (store f q) s ds r t"
  by (simp add: store_def it_stmt)

lemma it_load: "interrupted irq (p (g s)) s ds r t \<Longrightarrow> interrupted irq (load g p) s ds r t"
  by (simp add: load_def it_stmt)

text \<open>
  An assertion speaks of the interrupts so far and the state. \<open>from_to irq P q Q\<close>: every run of \<open>q\<close> from \<open>P\<close>
  ends in \<open>Q\<close>.
\<close>

definition stable :: "('s \<Rightarrow> 's \<Rightarrow> bool) \<Rightarrow> (('s \<times> 's) list \<Rightarrow> 's \<Rightarrow> bool) \<Rightarrow> bool" where
  "stable irq P \<longleftrightarrow> (\<forall>ds s s'. P ds s \<longrightarrow> irq s s' \<longrightarrow> P (ds @ [(s, s')]) s')"

definition from_to ::
  "('s \<Rightarrow> 's \<Rightarrow> bool) \<Rightarrow> (('s \<times> 's) list \<Rightarrow> 's \<Rightarrow> bool) \<Rightarrow> ('s, 'r) stmts \<Rightarrow>
     ('r \<Rightarrow> ('s \<times> 's) list \<Rightarrow> 's \<Rightarrow> bool) \<Rightarrow> bool" where
  "from_to irq P q Q \<longleftrightarrow> (\<forall>cs s ds r t. P cs s \<longrightarrow> interrupted irq q s ds r t \<longrightarrow> Q r (cs @ ds) t)"

lemma from_toD: "from_to irq P q Q \<Longrightarrow> P [] s \<Longrightarrow> interrupted irq q s ds r t \<Longrightarrow> Q r ds t"
  unfolding from_to_def by (metis append_Nil)

lemma from_to_return:
  assumes "stable irq P" "\<And>ds s. P ds s \<Longrightarrow> Q r ds s"
  shows "from_to irq P (Return r) Q"
  unfolding from_to_def
proof (intro allI impI)
  fix cs s ds r' t
  assume "P cs s" "interrupted irq (Return r) s ds r' t"
  from this(2,1) show "Q r' (cs @ ds) t"
  proof (induction "Return r :: ('a, 'b) stmts" s ds r' t arbitrary: cs rule: interrupted.induct)
    case (it_irq s s' ds r' t)
    have "P (cs @ [(s, s')]) s'" using assms(1) it_irq.prems it_irq.hyps(1) by (simp add: stable_def)
    from it_irq.hyps(3) [OF this] show ?case by simp
  qed (simp add: assms(2))
qed

lemma from_to_stmt:
  assumes "stable irq P" "\<And>ds s. P ds s \<Longrightarrow> P' s ds (f s)" "\<And>ds s. P ds s \<Longrightarrow> from_to irq (P' s) (g s) Q"
  shows "from_to irq P (Stmt f g) Q"
  unfolding from_to_def
proof (intro allI impI)
  fix cs s ds r t
  assume "P cs s" "interrupted irq (Stmt f g) s ds r t"
  from this(2,1) show "Q r (cs @ ds) t"
  proof (induction "Stmt f g" s ds r t arbitrary: cs rule: interrupted.induct)
    case (it_stmt s ds r t)
    then show ?case using assms(2,3) [OF it_stmt.prems] unfolding from_to_def by blast
  next
    case (it_irq s s' ds r t)
    have "P (cs @ [(s, s')]) s'" using assms(1) it_irq.prems it_irq.hyps(1) by (simp add: stable_def)
    from it_irq.hyps(3) [OF this] show ?case by simp
  qed
qed

lemma from_to_store:
  assumes "stable irq P" "\<And>ds s. P ds s \<Longrightarrow> P' ds (f s)" "from_to irq P' q Q"
  shows "from_to irq P (store f q) Q"
  unfolding store_def using assms by (intro from_to_stmt [where P' = "\<lambda>s. P'"])

lemma from_to_load:
  assumes "stable irq P" "\<And>ds s. P ds s \<Longrightarrow> P' (h s) ds s" "\<And>v. from_to irq (P' v) (q v) Q"
  shows "from_to irq P (load h q) Q"
  unfolding load_def using assms by (intro from_to_stmt [where P' = "\<lambda>s. P' (h s)"]) simp_all

text \<open>What is known of a loaded value stays true, as it is local.\<close>

lemma from_to_load_fact:
  assumes "stable irq P" "\<And>ds s. P ds s \<Longrightarrow> b (h s)" "\<And>v. b v \<Longrightarrow> from_to irq P (q v) Q"
  shows "from_to irq P (load h q) Q"
proof (rule from_to_load [OF assms(1), where P' = "\<lambda>v ds s. P ds s \<and> b v"])
  show "from_to irq (\<lambda>ds s. P ds s \<and> b v) (q v) Q" for v
    using assms(3) [of v] unfolding from_to_def by blast
qed (simp add: assms(2))

lemma from_to_weaken:
  "from_to irq P q Q \<Longrightarrow> (\<And>ds s. P' ds s \<Longrightarrow> P ds s) \<Longrightarrow> from_to irq P' q Q"
  unfolding from_to_def by blast

text \<open>A run of two sequences is a run of the first and one of the second.\<close>

lemma interrupted_and_then:
  assumes "interrupted irq (and_then b q) s ds r t"
  shows "\<exists>x u ds1 ds2. interrupted irq b s ds1 x u \<and> interrupted irq q u ds2 r t \<and> ds = ds1 @ ds2"
  using assms
proof (induction "and_then b q" s ds r t arbitrary: b rule: interrupted.induct)
  case (it_return r s)
  then obtain x where b: "b = Return x" "q = Return r" by (cases b) auto
  have "interrupted irq b s [] x s" "interrupted irq q s [] r s" unfolding b by (rule interrupted.it_return)+
  then show ?case by blast
next
  case (it_stmt g s f ds r t)
  show ?case
  proof (cases b)
    case (Return x)
    have "interrupted irq (Stmt f g) s ds r t" by (rule interrupted.it_stmt [of irq g s f ds r t, OF it_stmt.hyps(1)])
    then have "interrupted irq q s ds r t" using it_stmt.hyps(3) Return by simp
    moreover have "interrupted irq b s [] x s" unfolding Return by (rule interrupted.it_return)
    ultimately show ?thesis by fastforce
  next
    case (Stmt f' g')
    then have "g s = and_then (g' s) q" "f' = f" using it_stmt.hyps(3) by simp_all
    then obtain x u ds1 ds2 where "interrupted irq (g' s) (f s) ds1 x u" "interrupted irq q u ds2 r t" "ds = ds1 @ ds2"
      using it_stmt.hyps(2) by blast
    then show ?thesis unfolding Stmt \<open>f' = f\<close> using interrupted.it_stmt [of irq g' s f ds1 x u] by blast
  qed
next
  case (it_irq s s' ds r t)
  then obtain x u ds1 ds2 where "interrupted irq b s' ds1 x u" "interrupted irq q u ds2 r t" "ds = ds1 @ ds2"
    by blast
  from interrupted.it_irq [OF it_irq.hyps(1) this(1)] this(2,3) show ?case by fastforce
qed

lemma from_to_and_then:
  assumes "from_to irq P b (\<lambda>x. R)" "from_to irq R q Q"
  shows "from_to irq P (and_then b q) Q"
  unfolding from_to_def
proof (intro allI impI)
  fix cs s ds r t
  assume p: "P cs s" and i: "interrupted irq (and_then b q) s ds r t"
  from interrupted_and_then [OF i] obtain x u ds1 ds2
    where i: "interrupted irq b s ds1 x u" "interrupted irq q u ds2 r t" "ds = ds1 @ ds2" by blast
  have "R (cs @ ds1) u" using assms(1) p i(1) unfolding from_to_def by blast
  then have "Q r ((cs @ ds1) @ ds2) t" using assms(2) i(2) unfolding from_to_def by blast
  then show "Q r (cs @ ds) t" by (simp add: i(3))
qed

lemma from_to_count_up:
  assumes "stable irq P" "\<And>i. i < n \<Longrightarrow> from_to irq P (body i) (\<lambda>x. P)"
  shows "from_to irq P (count_up n body) (\<lambda>x. P)"
  using assms(2)
proof (induction n)
  case 0
  show ?case unfolding count_up.simps by (rule from_to_return [OF assms(1)])
next
  case (Suc n)
  then show ?case by (auto intro: from_to_and_then)
qed

end
