(* ===== verification/Races.thy ===== *)
theory Races
  imports Statements Boot
begin

text \<open>
  Interrupts between the statements of the two operations of src/io.c that share variables with the keyboard
  interrupt: \<open>getInput\<close>, which reads the ring buffer that the interrupt fills, and \<open>writeChar\<close>, whose cursor and
  page the interrupt clears when Ctrl+L is pressed. The operations are written again as sequences of statements,
  one for each load and store of a shared variable, and are proved to be the operations when nothing comes
  in between.
\<close>

section \<open>The operations as statements\<close>

text \<open>The loads of \<open>getInput\<close> in their order; \<open>tail\<close> is loaded three times.\<close>

definition getInput_stmts :: "('a keyboard_scheme, u8) stmts" where
  "getInput_stmts =
     load head (\<lambda>h. load tail (\<lambda>t.
       if h = t then Return 0
       else load (\<lambda>s. keyBuffer s (tail s)) (\<lambda>c. load tail (\<lambda>t'.
         store (\<lambda>s. s\<lparr>tail := (t' + 1) mod BUFFER_SIZE\<rparr>) (Return c)))))"

definition copy_stmts :: "nat \<Rightarrow> nat \<Rightarrow> ('a console_scheme, unit) stmts" where
  "copy_stmts y x =
     (let dst = (y * VGA_W + x) * 2; src = ((y + 1) * VGA_W + x) * 2
      in load (\<lambda>s. vram s src) (\<lambda>b. store (\<lambda>s. s\<lparr>vram := (vram s)(dst := b)\<rparr>)
           (load (\<lambda>s. vram s (src + 1)) (\<lambda>b. store (\<lambda>s. s\<lparr>vram := (vram s)(dst + 1 := b)\<rparr>) (Return ())))))"

definition put_stmts :: "nat \<Rightarrow> u8 \<Rightarrow> ('a console_scheme, 'r) stmts \<Rightarrow> ('a console_scheme, 'r) stmts" where
  "put_stmts offset c q =
     store (\<lambda>s. s\<lparr>vram := (vram s)(offset := c)\<rparr>)
       (load COLOR (\<lambda>col. store (\<lambda>s. s\<lparr>vram := (vram s)(offset + 1 := col)\<rparr>) q))"

definition scroll_stmts :: "('a console_scheme, unit) stmts" where
  "scroll_stmts =
     and_then (count_up (VGA_H - 1) (\<lambda>y. count_up VGA_W (\<lambda>x. copy_stmts y x)))
       (and_then (count_up VGA_W (\<lambda>x. put_stmts (((VGA_H - 1) * VGA_W + x) * 2) (asc CHR '' '') (Return ())))
          (store (\<lambda>s. s\<lparr>cursorY := VGA_H - 1\<rparr>) (Return ())))"

definition moveCursor_stmts :: "u32 \<Rightarrow> u32 \<Rightarrow> ('a machine_scheme, unit) stmts" where
  "moveCursor_stmts x y =
     (let pos = ucast (y * VGA_W + x) :: u16
      in store (outb 0x3D4 0x0E) (store (outb 0x3D5 (ucast (drop_bit 8 pos AND 0xFF)))
           (store (outb 0x3D4 0x0F) (store (outb 0x3D5 (ucast (pos AND 0xFF))) (Return ())))))"

text \<open>\<open>cursorX++\<close> and \<open>cursorY++\<close>, and the macro \<open>VGA_OFF\<close>, load before they compute.\<close>

definition step_x :: "u32 \<Rightarrow> ('a console_scheme, 'r) stmts \<Rightarrow> ('a console_scheme, 'r) stmts" where
  "step_x d q = load cursorX (\<lambda>x. store (\<lambda>s. s\<lparr>cursorX := x + d\<rparr>) q)"

definition step_y :: "u32 \<Rightarrow> ('a console_scheme, 'r) stmts \<Rightarrow> ('a console_scheme, 'r) stmts" where
  "step_y d q = load cursorY (\<lambda>y. store (\<lambda>s. s\<lparr>cursorY := y + d\<rparr>) q)"

definition put_at_cursor :: "u8 \<Rightarrow> ('a console_scheme, 'r) stmts \<Rightarrow> ('a console_scheme, 'r) stmts" where
  "put_at_cursor c q = load cursorY (\<lambda>y. load cursorX (\<lambda>x. put_stmts (unat ((y * VGA_W + x) * 2)) c q))"

text \<open>The end of \<open>writeChar\<close>: wrap, scroll, and the hardware cursor, whose arguments are loaded last to first.\<close>

definition wrap_stmts :: "('a console_scheme, unit) stmts" where
  "wrap_stmts =
     (let cursor = load cursorY (\<lambda>y. load cursorX (\<lambda>x. moveCursor_stmts x y));
          fit = load cursorY (\<lambda>y. if y \<ge> VGA_H then and_then scroll_stmts cursor else cursor)
      in load cursorX (\<lambda>x. if x \<ge> VGA_W then store (\<lambda>s. s\<lparr>cursorX := 0\<rparr>) (step_y 1 fit) else fit))"

definition writeChar_stmts :: "u8 \<Rightarrow> ('a console_scheme, unit) stmts" where
  "writeChar_stmts c =
     (if c = asc CHR ''\<newline>'' then store (\<lambda>s. s\<lparr>cursorX := 0\<rparr>) (step_y 1 wrap_stmts)
      else if c = 8 then
        (let erase = put_at_cursor (asc CHR '' '') wrap_stmts
         in load cursorX (\<lambda>x.
              if x > 0 then step_x (- 1) erase
              else load cursorY (\<lambda>y.
                if y > 0 then step_y (- 1) (store (\<lambda>s. s\<lparr>cursorX := VGA_W - 1\<rparr>) erase) else erase)))
      else put_at_cursor c (step_x 1 wrap_stmts))"

section \<open>Without interrupts they are the operations\<close>

lemma run_getInput: "run_stmts getInput_stmts s = getInput s"
  by (simp add: getInput_stmts_def getInput_def)

lemma for_to_vram:
  "for_to n (\<lambda>i t. t\<lparr>vram := h (COLOR t) i (vram t)\<rparr>) s = s\<lparr>vram := for_to n (h (COLOR s)) (vram s)\<rparr>"
  by (induction n) simp_all

lemma run_put: "run_stmts (put_stmts k c q) s = run_stmts q (s\<lparr>vram := (vram s)(k := c, k + 1 := COLOR s)\<rparr>)"
  by (simp add: put_stmts_def)

lemma run_copy: "run_stmts (copy_stmts y x) s = ((), s\<lparr>vram := copy_cell y x (vram s)\<rparr>)"
  by (simp add: copy_stmts_def copy_cell_def Let_def)

lemma run_scroll: "run_stmts scroll_stmts s = ((), scroll s)"
proof -
  have row: "run_stmts (count_up 80 (copy_stmts y)) t = ((), t\<lparr>vram := for_to 80 (copy_cell y) (vram t)\<rparr>)"
    for y and t :: "'a console_scheme"
    unfolding run_count_up run_copy using for_to_vram [where n = 80 and h = "\<lambda>col. copy_cell y" and s = t] by (simp del: upt_rec_numeral)
  have rows: "run_stmts (count_up 24 (\<lambda>y. count_up 80 (copy_stmts y))) s =
      ((), s\<lparr>vram := for_to 24 (\<lambda>y. for_to 80 (copy_cell y)) (vram s)\<rparr>)"
    unfolding run_count_up [of 24] row using for_to_vram [where n = 24 and h = "\<lambda>col y. for_to 80 (copy_cell y)" and s = s]
    by (simp del: upt_rec_numeral)
  have clear: "run_stmts (count_up 80 (\<lambda>x. put_stmts (3840 + x * 2) 32 (Return ()))) t =
      ((), t\<lparr>vram := for_to 80 (\<lambda>x. clear_cell (COLOR t) (1920 + x)) (vram t)\<rparr>)" for t :: "'a console_scheme"
    unfolding run_count_up using for_to_vram [where n = 80 and h = "\<lambda>col x. clear_cell col (1920 + x)" and s = t]
    by (simp add: run_put clear_cell_def algebra_simps del: upt_rec_numeral)
  show ?thesis by (simp add: scroll_stmts_def scroll_def rows clear del: upt_rec_numeral fold_simps)
qed

lemma run_moveCursor: "run_stmts (moveCursor_stmts x y) s = ((), moveCursor x y s)"
  by (simp add: moveCursor_stmts_def moveCursor_def Let_def)

lemma run_steps:
  "run_stmts (step_x d q) s = run_stmts q (s\<lparr>cursorX := cursorX s + d\<rparr>)"
  "run_stmts (step_y d q) s = run_stmts q (s\<lparr>cursorY := cursorY s + d\<rparr>)"
  "run_stmts (put_at_cursor c q) s = run_stmts q (put_cell c s)"
  by (simp_all add: step_x_def step_y_def put_at_cursor_def put_cell_def VGA_OFF_def run_put Let_def)

lemma run_wrap:
  "run_stmts wrap_stmts s1 =
     (let s2 = (if cursorX s1 \<ge> VGA_W then s1\<lparr>cursorX := 0, cursorY := cursorY s1 + 1\<rparr> else s1);
          s3 = (if cursorY s2 \<ge> VGA_H then scroll s2 else s2)
      in ((), moveCursor (cursorX s3) (cursorY s3) s3))"
  by (simp add: wrap_stmts_def run_steps run_scroll run_moveCursor Let_def)

lemma run_writeChar: "run_stmts (writeChar_stmts c) s = ((), writeChar c s)"
  by (simp add: writeChar_stmts_def writeChar_def run_steps run_wrap Let_def)

section \<open>The interrupts\<close>

definition taken :: "(u32 \<Rightarrow> stub) \<Rightarrow> device \<Rightarrow> (cpu \<Rightarrow> cpu) \<Rightarrow> 'a proc_scheme \<Rightarrow> 'a proc_scheme \<Rightarrow> bool" where
  "taken code dev callee s s' \<longleftrightarrow> (\<exists>cr2 n e c d. interrupt code dev cr2 callee n e c s = Inr (Returned (d, s')))"

text \<open>An interrupt that returns is the keyboard's, or it touches the ports and the ticks only.\<close>

lemma taken_cases:
  fixes s :: "'a proc_scheme"
  assumes "taken code dev callee s s'"
  obtains "s' = keyboardHandler dev s" | x k where "s' = s\<lparr>trace := x, sysTicks := k\<rparr>"
proof -
  obtain cr2 r where d: "interruptDispatcher dev cr2 r s = Inr (Returned s')"
    using assms interrupt_returned unfolding taken_def interrupt_def isr_stub_def Let_def by blast
  have irq: "irqHandler r s = s\<lparr>trace := trace (irqHandler r s), sysTicks := sysTicks (irqHandler r s)\<rparr>"
    by (simp add: irqHandler_def port_io_shape Let_def)
  have eoi: "outb p v (if b then outb p' v' s else s) = s\<lparr>trace := trace (outb p v (if b then outb p' v' s else s)),
      sysTicks := sysTicks s\<rparr>" for p v b p' v'
    by (simp add: port_io_shape)
  have "s' = keyboardHandler dev s \<or> s' = irqHandler r s \<or> s' = outb 0x20 0x20 (if int_no r \<ge> 40 then outb 0xA0 0x20 s else s)"
    using d by (simp add: interruptDispatcher_def Let_def bindR_Inr_iff split: if_splits)
  then have "s' = keyboardHandler dev s \<or> (\<exists>x k. s' = s\<lparr>trace := x, sysTicks := k\<rparr>)"
    using irq eoi by metis
  then show thesis using that by blast
qed

section \<open>The ring buffer\<close>

text \<open>The keys that the interrupts of a run brought.\<close>

definition brought :: "('a keyboard_scheme \<times> 'a keyboard_scheme) list \<Rightarrow> u8 list" where
  "brought ds = concat (map (\<lambda>(s, s'). drop (length (pending s)) (pending s')) ds)"

lemma key_arrives:
  fixes s :: "'a proc_scheme"
  assumes "taken code dev callee s s'" "keyboard_inv s"
  shows "keyboard_inv s'" "tail s' = tail s" "pending s' = pending s @ drop (length (pending s)) (pending s')"
proof -
  have other: "pending (s\<lparr>trace := x, sysTicks := k\<rparr>) = pending s" for x k by (simp add: pending_def)
  from assms(1) show "keyboard_inv s'"
    by (rule taken_cases) (use assms(2) keyboardHandler_keeps in \<open>auto simp: keyboard_inv_def\<close>)
  have "tail (keyboardHandler dev s) = tail s" by (rule keyboardHandler_observed) simp_all
  note kept = this
  from assms(1) show "tail s' = tail s" by (rule taken_cases) (simp_all add: kept)
  from assms(1) show "pending s' = pending s @ drop (length (pending s)) (pending s')"
  proof (rule taken_cases)
    assume k: "s' = keyboardHandler dev s"
    show ?thesis
      unfolding k pending_keyboardHandler [OF assms(2)] by (simp split: option.split del: length_pending)
  qed (simp add: other del: length_pending)
qed

lemma pending_empty: "keyboard_inv s \<Longrightarrow> pending s = [] \<longleftrightarrow> head s = tail s"
  by (auto simp: pending_def keyboard_inv_def ring_used_def split: if_splits)

definition arrived :: "'a proc_scheme \<Rightarrow> ('a proc_scheme \<times> 'a proc_scheme) list \<Rightarrow> 'a proc_scheme \<Rightarrow> bool" where
  "arrived s0 ds s \<longleftrightarrow> keyboard_inv s \<and> pending s = pending s0 @ brought ds"

lemma arrived_more:
  assumes "arrived s0 ds s" "taken code dev callee s s'"
  shows "arrived s0 (ds @ [(s, s')]) s'" "tail s' = tail s" "\<exists>cs. pending s' = pending s @ cs"
  using assms(1) key_arrives [OF assms(2)] by (auto simp: arrived_def brought_def simp del: length_pending)

lemma stable_arrived:
  fixes s0 :: "'a proc_scheme"
  assumes "\<And>s s' cs. tail s' = tail s \<Longrightarrow> pending s' = pending s @ cs \<Longrightarrow> F s \<Longrightarrow> F s'"
  shows "stable (taken code dev callee) (\<lambda>ds s. arrived s0 ds s \<and> F s)"
  unfolding stable_def
proof (intro allI impI)
  fix ds and s s' :: "'a proc_scheme"
  assume "arrived s0 ds s \<and> F s" and i: "taken code dev callee s s'"
  then have a: "arrived s0 ds s" "F s" by simp_all
  obtain cs where "pending s' = pending s @ cs" using arrived_more(3) [OF a(1) i] by blast
  from assms [OF arrived_more(2) [OF a(1) i] this a(2)]
  show "arrived s0 (ds @ [(s, s')]) s' \<and> F s'" using arrived_more(1) [OF a(1) i] by blast
qed

lemma getInput_between:
  fixes s0 :: "'a proc_scheme"
  assumes "keyboard_inv s0" "interrupted (taken code dev callee) getInput_stmts s0 ds r t"
  shows "keyboard_inv t \<and> (pending s0 = [] \<and> r = 0 \<and> pending t = brought ds \<or> pending s0 @ brought ds = r # pending t)"
proof -
  let ?irq = "taken code dev callee"
  let ?Q = "\<lambda>r ds t. keyboard_inv t \<and>
    (pending s0 = [] \<and> r = 0 \<and> pending t = brought ds \<or> pending s0 @ brought ds = r # pending t)"
  define A where "A h ds s \<longleftrightarrow> arrived s0 ds s \<and>
    (h = tail s \<longrightarrow> pending s0 = []) \<and> (h \<noteq> tail s \<longrightarrow> pending s \<noteq> [])" for h ds and s :: "'a proc_scheme"
  define B where "B c n ds s \<longleftrightarrow> arrived s0 ds s \<and> (\<exists>cs. pending s = c # cs) \<and> n = tail s"
    for c n ds and s :: "'a proc_scheme"
  define E where "E ds s \<longleftrightarrow> arrived s0 ds s \<and> pending s0 = []" for ds and s :: "'a proc_scheme"
  define N where "N ds s \<longleftrightarrow> arrived s0 ds s \<and> pending s \<noteq> []" for ds and s :: "'a proc_scheme"
  define R where "R c ds s \<longleftrightarrow> keyboard_inv s \<and> pending s0 @ brought ds = c # pending s"
    for c and ds :: "('a proc_scheme \<times> 'a proc_scheme) list" and s :: "'a proc_scheme"
  have st: "stable ?irq (arrived s0)" using stable_arrived [of "\<lambda>s. True" code dev callee s0] by simp
  have st_A: "stable ?irq (A h)" and st_E: "stable ?irq E" and st_N: "stable ?irq N" and st_B: "stable ?irq (B c n)" for h c n
    unfolding A_def [abs_def] E_def [abs_def] N_def [abs_def] B_def [abs_def]
    by (rule stable_arrived; auto simp del: length_pending)+
  then have st_ex: "stable ?irq (\<lambda>ds s. \<exists>n. B c n ds s)" for c unfolding stable_def by blast
  have stR: "stable ?irq (R c)" for c
    unfolding stable_def R_def
  proof (intro allI impI)
    fix ds :: "('a proc_scheme \<times> 'a proc_scheme) list" and s s' :: "'a proc_scheme"
    assume "keyboard_inv s \<and> pending s0 @ brought ds = c # pending s" and i: "?irq s s'"
    then have a: "keyboard_inv s" "pending s0 @ brought ds = c # pending s" by simp_all
    have "brought (ds @ [(s, s')]) = brought ds @ drop (length (pending s)) (pending s')" by (simp add: brought_def)
    then show "keyboard_inv s' \<and> pending s0 @ brought (ds @ [(s, s')]) = c # pending s'"
      using key_arrives(1,3) [OF i a(1)] a(2) by (metis append.assoc append_Cons)
  qed
  have "from_to ?irq (arrived s0) getInput_stmts ?Q"
    unfolding getInput_stmts_def
  proof (rule from_to_load [OF st, where P' = A])
    show "A (head s) ds s" if "arrived s0 ds s" for ds s
      using that pending_empty [of s] by (auto simp: A_def arrived_def)
    fix h
    show "from_to ?irq (A h) (load tail (\<lambda>t. if h = t then Return 0
        else load (\<lambda>s. keyBuffer s (tail s)) (\<lambda>c. load tail (\<lambda>t'.
          store (\<lambda>s. s\<lparr>tail := (t' + 1) mod BUFFER_SIZE\<rparr>) (Return c))))) ?Q"
    proof (rule from_to_load [OF st_A, where P' = "\<lambda>t. if h = t then E else N"])
      show "(if h = tail s then E else N) ds s" if "A h ds s" for ds s using that by (auto simp: A_def E_def N_def)
      fix t
      have "from_to ?irq E (Return 0) ?Q" by (rule from_to_return [OF st_E]) (auto simp: E_def arrived_def)
      moreover have "from_to ?irq N (load (\<lambda>s. keyBuffer s (tail s)) (\<lambda>c. load tail (\<lambda>t'.
          store (\<lambda>s. s\<lparr>tail := (t' + 1) mod BUFFER_SIZE\<rparr>) (Return c)))) ?Q"
      proof (rule from_to_load [OF st_N, where P' = "\<lambda>c ds s. \<exists>n. B c n ds s"])
        fix ds and s :: "'a proc_scheme" assume N: "N ds s"
        then obtain c cs where p: "keyboard_inv s" "pending s = c # cs" "head s \<noteq> tail s"
          using pending_empty [of s] by (cases "pending s") (auto simp: N_def arrived_def)
        then show "\<exists>n. B (keyBuffer s (tail s)) n ds s"
          using N getInput_pending(1) [OF p(1,2)] by (simp add: B_def N_def getInput_def)
      next
        fix c
        show "from_to ?irq (\<lambda>ds s. \<exists>n. B c n ds s)
            (load tail (\<lambda>t'. store (\<lambda>s. s\<lparr>tail := (t' + 1) mod BUFFER_SIZE\<rparr>) (Return c))) ?Q"
        proof (rule from_to_load [OF st_ex, where P' = "\<lambda>n. B c n"])
          fix n
          show "from_to ?irq (B c n) (store (\<lambda>s. s\<lparr>tail := (n + 1) mod BUFFER_SIZE\<rparr>) (Return c)) ?Q"
          proof (rule from_to_store [OF st_B, where P' = "R c"])
            fix ds and s :: "'a proc_scheme" assume "B c n ds s"
            then have a: "arrived s0 ds s" "\<exists>cs. pending s = c # cs" "n = tail s" by (simp_all add: B_def)
            then obtain cs where p: "keyboard_inv s" "pending s = c # cs" "n = tail s" "pending s0 @ brought ds = c # cs"
              unfolding arrived_def by metis
            then have "snd (getInput s) = s\<lparr>tail := (n + 1) mod BUFFER_SIZE\<rparr>"
              using pending_empty [of s] by (auto simp: getInput_def)
            then show "R c ds (s\<lparr>tail := (n + 1) mod BUFFER_SIZE\<rparr>)"
              using getInput_pending(2) [OF p(1,2)] getInput_keeps [OF p(1)] p(4) by (simp add: R_def)
          qed (rule from_to_return [OF stR], simp add: R_def)
        qed (auto simp: B_def)
      qed
      ultimately show "from_to ?irq (if h = t then E else N) (if h = t then Return 0
          else load (\<lambda>s. keyBuffer s (tail s)) (\<lambda>c. load tail (\<lambda>t'.
            store (\<lambda>s. s\<lparr>tail := (t' + 1) mod BUFFER_SIZE\<rparr>) (Return c)))) ?Q" by simp
    qed
  qed
  moreover have "arrived s0 [] s0" using assms(1) by (simp add: arrived_def brought_def)
  ultimately show ?thesis using assms(2) by (rule from_toD)
qed

section \<open>The screen\<close>

text \<open>The cursor and the page in the keyboard interrupt: nothing, or Ctrl+L.\<close>

lemma keyboard_screen:
  "(cursorX (keyboardHandler dev s), cursorY (keyboardHandler dev s)) \<in> {(cursorX s, cursorY s), (0, 0)} \<and>
   (\<forall>a\<ge>4000. vram (keyboardHandler dev s) a = vram s a)"
proof -
  have clear: "cursorX (clearScreen t) = 0" "cursorY (clearScreen t) = 0" "a \<ge> 4000 \<Longrightarrow> vram (clearScreen t) a = vram t a"
    for a and t :: "'a keyboard_scheme"
    unfolding vram_clearScreen by (simp_all add: clearScreen_def moveCursor_def port_io_shape Let_def)
  have put: "cursorX (put_key c t) = cursorX t" "cursorY (put_key c t) = cursorY t" "vram (put_key c t) = vram t"
    for c and t :: "'a keyboard_scheme"
    by (simp_all add: put_key_def Let_def)
  have "(cursorX (control_key k t), cursorY (control_key k t)) \<in> {(cursorX t, cursorY t), (0, 0)} \<and>
      (\<forall>a\<ge>4000. vram (control_key k t) a = vram t a)" for k and t :: "'a keyboard_scheme"
    by (simp add: control_key_def Let_def clear)
  then have "(cursorX (key_pressed k t), cursorY (key_pressed k t)) \<in> {(cursorX t, cursorY t), (0, 0)} \<and>
      (\<forall>a\<ge>4000. vram (key_pressed k t) a = vram t a)" for k and t :: "'a keyboard_scheme"
    by (simp add: key_pressed_def put)
  from this [of "ucast (dev (trace s) 0x60)" "s\<lparr>trace := InB 0x60 (ucast (dev (trace s) 0x60)) # trace s\<rparr>"]
  show ?thesis by (simp add: keyboardHandler_shape key_released_def port_io_shape Let_def)
qed

definition at_most :: "(nat \<Rightarrow> u8) \<Rightarrow> nat \<Rightarrow> nat \<Rightarrow> ('s \<times> 's) list \<Rightarrow> 'a console_scheme \<Rightarrow> bool" where
  "at_most v x y ds s \<longleftrightarrow> unat (cursorX s) \<le> x \<and> unat (cursorY s) \<le> y \<and> (\<forall>a\<ge>4000. vram s a = v a)"

lemma at_most_stable:
  fixes s :: "'a proc_scheme"
  assumes "at_most v x y ds s" "taken code dev callee s s'"
  shows "at_most v x y ds' s'"
  using assms(2)
proof (rule taken_cases)
  assume "s' = keyboardHandler dev s"
  then show ?thesis using assms(1) keyboard_screen [of dev s] by (auto simp: at_most_def)
qed (use assms(1) in \<open>simp add: at_most_def\<close>)

lemma stable_at_most: "stable (taken code dev callee) (at_most v x y)"
  unfolding stable_def using at_most_stable by blast

text \<open>Stores into the page, and ports, change nothing that is asserted.\<close>

lemma from_to_put:
  assumes "offset + 1 < 4000" "from_to (taken code dev callee) (at_most v x y) q Q"
  shows "from_to (taken code dev callee) (at_most v x y) (put_stmts offset c q) Q"
  unfolding put_stmts_def
  by (rule from_to_store [OF stable_at_most, where P' = "at_most v x y"],
      use assms(1) in \<open>simp add: at_most_def\<close>,
      rule from_to_load [OF stable_at_most, where P' = "\<lambda>c. at_most v x y"], assumption,
      rule from_to_store [OF stable_at_most _ assms(2)], use assms(1) in \<open>simp add: at_most_def\<close>)

lemma from_to_done: "from_to (taken code dev callee) (at_most v x y) (Return ()) (\<lambda>r. at_most v x y)"
  by (rule from_to_return [OF stable_at_most])

lemma from_to_copy:
  assumes "i < 24" "j < 80"
  shows "from_to (taken code dev callee) (at_most v x y) (copy_stmts i j) (\<lambda>r. at_most v x y)"
proof -
  have less: "(i * 80 + j) * 2 + 1 < 4000" using assms by simp
  show ?thesis
    unfolding copy_stmts_def Let_def
    by (rule from_to_load [OF stable_at_most, where P' = "\<lambda>b. at_most v x y"], assumption,
        rule from_to_store [OF stable_at_most, where P' = "at_most v x y"], use less in \<open>simp add: at_most_def\<close>,
        rule from_to_load [OF stable_at_most, where P' = "\<lambda>b. at_most v x y"], assumption,
        rule from_to_store [OF stable_at_most, where P' = "at_most v x y"], use less in \<open>simp add: at_most_def\<close>,
        rule from_to_done)
qed

lemma from_to_scroll:
  "from_to (taken code dev callee) (at_most v 79 25) scroll_stmts (\<lambda>r. at_most v 79 24)"
proof -
  have rows: "from_to (taken code dev callee) (at_most v 79 25) (count_up (25 - 1) (\<lambda>y. count_up 80 (copy_stmts y)))
      (\<lambda>r. at_most v 79 25)"
    by (intro from_to_count_up stable_at_most from_to_copy) simp_all
  have clear: "from_to (taken code dev callee) (at_most v 79 25)
      (count_up 80 (\<lambda>x. put_stmts (((25 - 1) * 80 + x) * 2) c (Return ()))) (\<lambda>r. at_most v 79 25)" for c
    by (intro from_to_count_up stable_at_most from_to_put from_to_done) simp
  have last: "from_to (taken code dev callee) (at_most v 79 25) (store (\<lambda>s. s\<lparr>cursorY := 25 - 1\<rparr>) (Return ())) (\<lambda>r. at_most v 79 24)"
    by (rule from_to_store [OF stable_at_most _ from_to_done]) (simp add: at_most_def)
  show ?thesis unfolding scroll_stmts_def by (rule from_to_and_then [OF rows from_to_and_then [OF clear last]])
qed

lemma from_to_ports:
  "from_to (taken code dev callee) (at_most v x y) (moveCursor_stmts i j) (\<lambda>r. at_most v x y)"
proof -
  have step: "from_to (taken code dev callee) (at_most v x y) (store (outb p b) q) (\<lambda>r. at_most v x y)"
    if "from_to (taken code dev callee) (at_most v x y) q (\<lambda>r. at_most v x y)" for p b q
    by (rule from_to_store [OF stable_at_most _ that]) (simp add: at_most_def port_io_shape)
  show ?thesis unfolding moveCursor_stmts_def Let_def by (intro step from_to_done)
qed

text \<open>The cursor as it is loaded, and the steps.\<close>

lemma from_to_steps:
  "x < 2 ^ 31 \<Longrightarrow> from_to (taken code dev callee) (at_most v (x + 1) y) q Q \<Longrightarrow>
     from_to (taken code dev callee) (at_most v x y) (step_x 1 q) Q"
  "y < 2 ^ 31 \<Longrightarrow> from_to (taken code dev callee) (at_most v x (y + 1)) q Q \<Longrightarrow>
     from_to (taken code dev callee) (at_most v x y) (step_y 1 q) Q"
  unfolding step_x_def step_y_def
  by (rule from_to_load_fact [OF stable_at_most, where b = "\<lambda>k. unat k \<le> x"], simp add: at_most_def,
      erule from_to_store [OF stable_at_most, rotated], simp add: at_most_def unat_word_ariths)
    (rule from_to_load_fact [OF stable_at_most, where b = "\<lambda>k. unat k \<le> y"], simp add: at_most_def,
      erule from_to_store [OF stable_at_most, rotated], simp add: at_most_def unat_word_ariths)

lemma cell_in_page:
  assumes "unat (x :: u32) \<le> 79" "unat (y :: u32) \<le> 24"
  shows "unat ((y * 80 + x) * 2) + 1 < 4000"
proof -
  have "unat ((y * 80 + x) * 2) = (unat y * 80 + unat x) * 2"
    using assms by (simp add: unat_word_ariths)
  then show ?thesis using assms by simp
qed

lemma from_to_put_at_cursor:
  assumes "from_to (taken code dev callee) (at_most v 79 24) q Q"
  shows "from_to (taken code dev callee) (at_most v 79 24) (put_at_cursor c q) Q"
  unfolding put_at_cursor_def
  by (rule from_to_load_fact [OF stable_at_most, where b = "\<lambda>y. unat y \<le> 24"], simp add: at_most_def,
      rule from_to_load_fact [OF stable_at_most, where b = "\<lambda>x. unat x \<le> 79"], simp add: at_most_def,
      rule from_to_put [OF _ assms], rule cell_in_page)

text \<open>The end of \<open>writeChar\<close>, from a cursor that is one column or one line too far, but not both.\<close>

lemma from_to_wrap:
  assumes "x = 79 \<and> y = 25 \<or> x = 80 \<and> y = 24"
  shows "from_to (taken code dev callee :: 'a proc_scheme \<Rightarrow> _) (at_most v x y) wrap_stmts (\<lambda>r. at_most v 79 24)"
proof -
  let ?irq = "taken code dev callee :: 'a proc_scheme \<Rightarrow> 'a proc_scheme \<Rightarrow> bool"
  let ?cursor = "load cursorY (\<lambda>y. load cursorX (\<lambda>x. moveCursor_stmts x y))"
  let ?fit = "load cursorY (\<lambda>y. if y \<ge> 25 then and_then scroll_stmts ?cursor else ?cursor)"
  have cursor: "from_to ?irq (at_most v 79 24) ?cursor (\<lambda>r. at_most v 79 24)"
    by (rule from_to_load_fact [OF stable_at_most, where b = "\<lambda>k. True"], simp,
        rule from_to_load_fact [OF stable_at_most, where b = "\<lambda>k. True"], simp, rule from_to_ports)
  have fit: "from_to ?irq (at_most v 79 25) ?fit (\<lambda>r. at_most v 79 24)"
  proof (rule from_to_load [OF stable_at_most, where P' = "\<lambda>k. at_most v 79 (if k \<ge> 25 then 25 else 24)"], goal_cases)
    case (1 ds s)
    then show ?case by (auto simp: at_most_def word_le_nat_alt)
  next
    case (2 k)
    then show ?case using cursor from_to_and_then [OF from_to_scroll cursor] by simp
  qed
  have over: "from_to ?irq (at_most v 80 24) (store (\<lambda>s. s\<lparr>cursorX := 0\<rparr>) (step_y 1 ?fit)) (\<lambda>r. at_most v 79 24)"
    by (rule from_to_store [OF stable_at_most, where P' = "at_most v 79 24"], simp add: at_most_def,
        rule from_to_steps(2)) (use fit in simp_all)
  show ?thesis
    unfolding wrap_stmts_def Let_def
  proof (rule from_to_load [OF stable_at_most, where P' = "\<lambda>k. if k \<ge> 80 then at_most v 80 24 else at_most v 79 25"], goal_cases)
    case (1 ds s)
    then show ?case using assms by (auto simp: at_most_def word_le_nat_alt)
  next
    case (2 k)
    then show ?case using fit over by simp
  qed
qed

lemma writeChar_between:
  fixes s :: "'a proc_scheme"
  assumes "console_inv s" "c \<noteq> 8" "interrupted (taken code dev callee) (writeChar_stmts c) s ds r t"
  shows "console_inv t \<and> (\<forall>a\<ge>4000. vram t a = vram s a)"
proof -
  have inv: "console_inv u \<longleftrightarrow> unat (cursorX u) \<le> 79 \<and> unat (cursorY u) \<le> 24" for u :: "'a proc_scheme"
    by (auto simp: console_inv_def word_less_nat_alt)
  have "from_to (taken code dev callee) (at_most (vram s) 79 24) (writeChar_stmts c) (\<lambda>r. at_most (vram s) 79 24)"
  proof (cases "c = 10")
    case True
    have "from_to (taken code dev callee) (at_most (vram s) 79 24) (store (\<lambda>s. s\<lparr>cursorX := 0\<rparr>) (step_y 1 wrap_stmts))
        (\<lambda>r. at_most (vram s) 79 24)"
      by (rule from_to_store [OF stable_at_most, where P' = "at_most (vram s) 79 24"], simp add: at_most_def,
          rule from_to_steps(2)) (simp_all add: from_to_wrap)
    then show ?thesis using True by (simp add: writeChar_stmts_def)
  next
    case False
    have "from_to (taken code dev callee) (at_most (vram s) 79 24) (put_at_cursor c (step_x 1 wrap_stmts)) (\<lambda>r. at_most (vram s) 79 24)"
      by (rule from_to_put_at_cursor, rule from_to_steps(1)) (simp_all add: from_to_wrap)
    then show ?thesis using False assms(2) by (simp add: writeChar_stmts_def)
  qed
  moreover have "at_most (vram s) 79 24 [] s" using assms(1) by (simp add: inv at_most_def)
  ultimately have "at_most (vram s) 79 24 ds t" using assms(3) by (rule from_toD)
  then show ?thesis by (simp add: inv at_most_def)
qed

section \<open>Ctrl+L in a backspace\<close>

lemma keyboard_interrupt:
  assumes "linked code s" "cdecl callee"
  shows "taken code dev callee s (keyboardHandler dev s)"
proof -
  have "stub_of 33 = Irq1" by (simp add: stub_of_def)
  then have st: "code (gate_addr (idt s (unat (33 :: u8)))) = Irq1"
    using assms(1) unfolding linked_def by (metis (no_types))
  have "stub_pushes Irq1 = [0, 33]" by simp
  then obtain c' t where t: "isr_stub dev 0 callee Irq1 (take_gate (tss s) (idt s (unat (33 :: u8))) None (ex_cpu 8)) s =
        Inr (Returned (c', t))" "interruptDispatcher dev 0 (frame_of 33 0 (entry_esp (tss s) (ex_cpu 8)) (ex_cpu 8)) s = Inr (Returned t)"
    using isr_stub_irq [OF assms(2), of Irq1 33 dev 0 "tss s" "idt s (unat (33 :: u8))" "ex_cpu 8" s] by auto
  have "int_no (frame_of 33 0 (entry_esp (tss s) (ex_cpu 8)) (ex_cpu 8)) = 33" by (simp add: frame_of_def)
  then have "t = keyboardHandler dev s" using t(2) by (simp add: interruptDispatcher_def)
  then have "interrupt code dev 0 callee 33 None (ex_cpu 8) s = Inr (Returned (c', keyboardHandler dev s))"
    using t(1) by (simp only: interrupt_def Let_def st)
  then show ?thesis unfolding taken_def by blast
qed

lemma key_between:
  assumes "linked code s" "cdecl callee"
  shows "interrupted (taken code dev callee) q s [(s, keyboardHandler dev s)] (fst (run_stmts q (keyboardHandler dev s)))
    (snd (run_stmts q (keyboardHandler dev s)))"
  by (rule one_interrupt [where irq = "taken code dev callee"], rule keyboard_interrupt [OF assms])

lemma ctrl_L:
  assumes "controlActive s \<noteq> 0" "dev (trace s) 0x60 = 0x26"
  shows "cursorX (keyboardHandler dev s) = 0" "cursorY (keyboardHandler dev s) = 0" "COLOR (keyboardHandler dev s) = COLOR s"
proof -
  have k: "control_char (keymap ! 38) = 12" by (simp add: keymap_def control_char_def)
  show "cursorX (keyboardHandler dev s) = 0" "cursorY (keyboardHandler dev s) = 0"
    using assms by (simp_all add: keyboardHandler_shape key_pressed_def control_key_def k clearScreen_def moveCursor_def
        port_io_shape Let_def)
  show "COLOR (keyboardHandler dev s) = COLOR s" by (rule keyboardHandler_observed) simp_all
qed

lemma backspace_after_clear:
  assumes "cursorX s = 0" "cursorY s = 0"
  shows "vram (snd (run_stmts (step_x (- 1) (put_at_cursor 32 wrap_stmts)) s)) =
    (vram s)(0xFFFFFFFE := 32, 0xFFFFFFFF := COLOR s)"
  using assms by (simp add: run_steps run_wrap put_cell_def VGA_OFF_def Let_def word_le_nat_alt)

section \<open>Properties\<close>

text \<open>
  C11. Reading a key survives interrupts: with any interrupts between its loads and stores, \<open>getInput\<close> either finds
  the queue empty and leaves what the interrupts brought, or takes the oldest key of those that waited and those
  that were brought, and leaves the others in their order. No key is lost, doubled or passed by another.
\<close>

theorem keys_survive_interrupts:
  fixes s :: "'a proc_scheme"
  assumes "keyboard_inv s" "interrupted (taken code dev callee) getInput_stmts s ds r t"
  shows "run_stmts getInput_stmts s = getInput s \<and> keyboard_inv t \<and>
    (pending s = [] \<and> r = 0 \<and> pending t = brought ds \<or> pending s @ brought ds = r # pending t)"
  using getInput_between [OF assms] run_getInput [of s] by blast

definition key_held :: "u16 \<Rightarrow> device" where
  "key_held k = (\<lambda>tr port. k)"

lemma st_gates_idle:
  "keyboard_inv st_gates" "pending st_gates = []" "console_inv st_gates"
  "controlActive st_gates = 0" "shiftActive st_gates = 0" "capsLockActive st_gates = 0"
proof -
  have ctl: "controlActive (initGdt x y z t) = controlActive t" "controlActive (initIdt u v t) = controlActive t"
    and shift: "shiftActive (initGdt x y z t) = shiftActive t" "shiftActive (initIdt u v t) = shiftActive t"
    and caps: "capsLockActive (initGdt x y z t) = capsLockActive t" "capsLockActive (initIdt u v t) = capsLockActive t"
    for x y z u v and t :: proc
    by (rule initGdt_observed initIdt_observed; simp)+
  show "keyboard_inv st_gates" "pending st_gates = []" by (rule st_gates_keyboard)+
  show "console_inv st_gates" by (simp add: st_gates_def) (simp add: st0_def)
  show "controlActive st_gates = 0" "shiftActive st_gates = 0" "capsLockActive st_gates = 0"
    by (simp_all add: st_gates_def ctl shift caps) (simp_all add: st0_def ex_state_def)
qed

theorem keys_survive_interrupts_witness:
  "\<exists>ds t. interrupted (taken ex_code (key_held 0x1E) ex_callee) getInput_stmts st_gates ds 97 t \<and> brought ds = 97 # pending t"
proof -
  let ?s = "keyboardHandler (key_held 0x1E) st_gates"
  have "keymap ! 30 = 97" by (simp add: keymap_def)
  then have "typed st_gates 0x1E = Some 97" by (simp add: typed_def modifier_key_def printable_def st_gates_idle)
  then have "pending ?s = [97]"
    unfolding pending_keyboardHandler [OF st_gates_idle(1)] by (simp add: key_held_def st_gates_idle(2))
  then have "fst (getInput ?s) = 97"
    using getInput_pending(1) [of ?s] keyboardHandler_keeps(1) [OF st_gates_idle(1)] by blast
  then have "interrupted (taken ex_code (key_held 0x1E) ex_callee) getInput_stmts st_gates [(st_gates, ?s)] 97 (snd (getInput ?s))"
    using key_between [OF ex_stub_facts(2,1), of "key_held 0x1E" getInput_stmts]
    by (simp add: run_getInput)
  then show ?thesis using keys_survive_interrupts [OF st_gates_idle(1)] st_gates_idle(2) by fastforce
qed

text \<open>
  C12. Printing survives interrupts: with any interrupts between the statements of \<open>writeChar\<close> - Ctrl+L, which moves
  the cursor, included - every store of a character other than backspace is to the text page, through scrolling,
  and the cursor stays on the screen.
\<close>

theorem printing_survives_interrupts:
  fixes s :: "'a proc_scheme"
  assumes "console_inv s" "c \<noteq> 8" "interrupted (taken code dev callee) (writeChar_stmts c) s ds r t"
  shows "run_stmts (writeChar_stmts c) s = ((), writeChar c s) \<and> console_inv t \<and> (\<forall>a\<ge>4000. vram t a = vram s a)"
  using writeChar_between [OF assms] run_writeChar [of c s] by blast

theorem printing_survives_interrupts_witness:
  "\<exists>s' t. interrupted (taken ex_code (key_held 0x26) ex_callee) (writeChar_stmts 65) st_gates [(st_gates, s')] () t \<and>
     console_inv t \<and> vram t 4000 = vram st_gates 4000"
proof -
  let ?s = "keyboardHandler (key_held 0x26) st_gates"
  have "\<exists>t. interrupted (taken ex_code (key_held 0x26) ex_callee) (writeChar_stmts 65) st_gates [(st_gates, ?s)] () t"
    using key_between [OF ex_stub_facts(2,1), of "key_held 0x26" "writeChar_stmts 65"] by auto
  then obtain t where t: "interrupted (taken ex_code (key_held 0x26) ex_callee) (writeChar_stmts 65) st_gates [(st_gates, ?s)] () t" ..
  show ?thesis using t printing_survives_interrupts [OF st_gates_idle(3) _ t] by auto
qed

text \<open>
  C36. A backspace does not: when Ctrl+L comes between the test of the column and the decrement, the column goes
  below zero, and the blank and its colour are stored in the two bytes before the text page.
\<close>

theorem backspace_race:
  fixes s :: "'a proc_scheme"
  assumes "linked code s" "cdecl callee" "0 < cursorX s" "controlActive s \<noteq> 0" "dev (trace s) 0x60 = 0x26"
  shows "\<exists>s' t. interrupted (taken code dev callee) (writeChar_stmts 8) s [(s, s')] () t \<and>
    vram t 0xFFFFFFFE = 32 \<and> vram t 0xFFFFFFFF = COLOR s"
proof -
  let ?s = "keyboardHandler dev s" and ?q = "step_x (- 1) (put_at_cursor 32 wrap_stmts)"
  let ?t = "snd (run_stmts ?q ?s)"
  have "interrupted (taken code dev callee) ?q s [(s, ?s)] () ?t"
    using key_between [OF assms(1,2), of dev ?q] by simp
  then have "interrupted (taken code dev callee) (writeChar_stmts 8) s [(s, ?s)] () ?t"
    unfolding writeChar_stmts_def Let_def using assms(3) by (auto intro: it_load)
  then show ?thesis
    using backspace_after_clear [of ?s] ctrl_L [where dev = dev and s = s, OF assms(4,5)] by fastforce
qed

theorem backspace_race_witness:
  "\<exists>s' t. interrupted (taken ex_code (key_held 0x26) ex_callee) (writeChar_stmts 8)
      (st_gates\<lparr>cursorX := 5, controlActive := 1\<rparr>) [(st_gates\<lparr>cursorX := 5, controlActive := 1\<rparr>, s')] () t \<and>
    vram t 0xFFFFFFFE = 32"
proof -
  let ?s = "st_gates\<lparr>cursorX := 5, controlActive := 1\<rparr>"
  have "linked ex_code ?s" by (rule linked_frame [OF ex_stub_facts(2)]) simp
  then show ?thesis
    using backspace_race [OF _ ex_stub_facts(1), of ex_code ?s "key_held 0x26"] by (auto simp: key_held_def)
qed

end
