(* ===== verification/Program.thy ===== *)
theory Program
  imports Boot
begin

text \<open>
  Programs: how the kernel enters one (src/ring3.asm), the tables it offers (\<open>struct KernelAPI\<close>, the \<open>FILE\<close>
  objects of src/syscalls.c), the runtime of a program (apps/app_stub.c, apps/user_syscalls.c) and the
  program apps/hello.c, from its first instruction to the shell that its \<open>exit\<close> starts.
\<close>

section \<open>The table of kernel functions\<close>

text \<open>The members are pointers to functions; 0 is \<open>NULL\<close>. The object is global, so it starts as zeros.\<close>

record KernelAPI =
  api_fmtWrite :: u32
  api_fmtGet :: u32
  api_sfmtWrite :: u32
  api_writeChar :: u32
  api_clearScreen :: u32
  api_reboot :: u32
  api_shutdown :: u32
  api_userPanic :: u32
  api_sendInterrupt :: u32
  api_sysTicks :: u32
  api_getTotalMem :: u32
  api_getUsedMem :: u32
  api_tarLoad :: u32
  api_tarList :: u32
  api_tarPrintFile :: u32
  api_tarReadFile :: u32
  api_memInfo :: u32

definition api_zero :: KernelAPI where
  "api_zero = \<lparr>api_fmtWrite = 0, api_fmtGet = 0, api_sfmtWrite = 0, api_writeChar = 0, api_clearScreen = 0,
     api_reboot = 0, api_shutdown = 0, api_userPanic = 0, api_sendInterrupt = 0, api_sysTicks = 0,
     api_getTotalMem = 0, api_getUsedMem = 0, api_tarLoad = 0, api_tarList = 0, api_tarPrintFile = 0,
     api_tarReadFile = 0, api_memInfo = 0\<rparr>"

text \<open>What \<open>kmain\<close> fills in; \<open>symbol\<close> gives the addresses of the linked kernel.\<close>

definition kmain_api :: "(string \<Rightarrow> u32) \<Rightarrow> KernelAPI \<Rightarrow> KernelAPI" where
  "kmain_api symbol api =
     api\<lparr>api_fmtWrite := symbol ''fmtWrite'', api_fmtGet := symbol ''fmtGet'', api_sfmtWrite := symbol ''sfmtWrite'',
         api_writeChar := symbol ''writeChar''\<rparr>"

section \<open>Streams\<close>

text \<open>
  picolibc's \<open>FILE\<close>, as far as the initialisers set it. Its formatter hands a stream one character after the
  other through \<open>put\<close>; a stream without \<open>put\<close> takes none (\<open>file_out\<close>).
\<close>

record 's stdio_file =
  file_flags :: u32
  file_put :: "(u8 \<Rightarrow> 's \<Rightarrow> fault + u32 \<times> 's) option"
  file_get :: "('s \<Rightarrow> fault + u8 option \<times> 's) option"
  file_flush :: "('s \<Rightarrow> fault + u32 \<times> 's) option"

fun file_out :: "'s stdio_file \<Rightarrow> u8 list \<Rightarrow> 's \<Rightarrow> fault + 's" where
  "file_out f [] s = Inr s"
| "file_out f (c # cs) s =
     (case file_put f of
        None \<Rightarrow> Inr s
      | Some put \<Rightarrow> bindR (put c s) (\<lambda>(r, s1). file_out f cs s1))"

definition kernel_stdout :: "u32 \<Rightarrow> 'a console_scheme stdio_file" where
  "kernel_stdout swr =
     \<lparr>file_flags = swr, file_put = Some (\<lambda>c s. Inr (stdout_put c s)), file_get = None, file_flush = None\<rparr>"

definition kernel_stdin :: "u32 \<Rightarrow> device \<Rightarrow> nat list \<Rightarrow> 'a proc_scheme stdio_file" where
  "kernel_stdin srd dev polls =
     \<lparr>file_flags = srd, file_put = None, file_get = Some (stdin_get dev polls), file_flush = None\<rparr>"

definition kernel_stderr :: "u32 \<Rightarrow> 'a console_scheme stdio_file" where
  "kernel_stderr swr =
     \<lparr>file_flags = swr, file_put = Some (\<lambda>c s. Inr (stdout_put c s)), file_get = None, file_flush = None\<rparr>"

text \<open>A program's \<open>put\<close>: its argument \<open>c\<close> lies on its stack, at \<open>p\<close>, and is written from there.\<close>

definition user_put :: "'a proc_scheme dispatch \<Rightarrow> uregs \<Rightarrow> u32 \<Rightarrow> u8 \<Rightarrow> 'a proc_scheme \<Rightarrow> fault + u32 \<times> 'a proc_scheme" where
  "user_put dispatch u p c s = user_stdout_put dispatch u p (s\<lparr>umem := (umem s)(p := c)\<rparr>)"

definition user_stdout :: "'a proc_scheme dispatch \<Rightarrow> uregs \<Rightarrow> u32 \<Rightarrow> u32 \<Rightarrow> 'a proc_scheme stdio_file" where
  "user_stdout dispatch u p swr =
     \<lparr>file_flags = swr, file_put = Some (user_put dispatch u p), file_get = None, file_flush = None\<rparr>"

definition user_stderr :: "'a proc_scheme dispatch \<Rightarrow> uregs \<Rightarrow> u32 \<Rightarrow> u32 \<Rightarrow> 'a proc_scheme stdio_file" where
  "user_stderr dispatch u p swr =
     \<lparr>file_flags = swr, file_put = Some (user_put dispatch u p), file_get = None, file_flush = None\<rparr>"

text \<open>The other two wrappers of \<open>int 0x80\<close>.\<close>

definition syscall0 ::
  "(InterruptFrame \<Rightarrow> 's \<Rightarrow> fault + u32 option \<times> 's) \<Rightarrow> uregs \<Rightarrow> u32 \<Rightarrow> 's \<Rightarrow> fault + u32 option \<times> 's" where
  "syscall0 dispatch u nr s =
     bindR (int80Handler dispatch (u\<lparr>u_eax := nr\<rparr>) s) (\<lambda>(u', s1). Inr (map_option u_eax u', s1))"

definition syscall2 ::
  "(InterruptFrame \<Rightarrow> 's \<Rightarrow> fault + u32 option \<times> 's) \<Rightarrow> uregs \<Rightarrow> u32 \<Rightarrow> u32 \<Rightarrow> u32 \<Rightarrow> 's \<Rightarrow> fault + u32 option \<times> 's" where
  "syscall2 dispatch u nr a1 a2 s =
     bindR (int80Handler dispatch (u\<lparr>u_eax := nr, u_ebx := a1, u_ecx := a2\<rparr>) s)
       (\<lambda>(u', s1). Inr (map_option u_eax u', s1))"

section \<open>The program\<close>

text \<open>
  \<open>_start\<close> calls \<open>main\<close> and hands its result to \<open>_exit\<close>. The \<open>main\<close> of apps/hello.c has no \<open>return\<close>: its
  result is whatever EAX holds (\<open>res\<close>). The text has no conversion, so the formatter's output is the text.
\<close>

definition user_start ::
  "('s \<Rightarrow> fault + u32 \<times> 's) \<Rightarrow> 's dispatch \<Rightarrow> uregs \<Rightarrow> 's \<Rightarrow> fault + unit option \<times> 's" where
  "user_start umain dispatch u s = bindR (umain s) (\<lambda>(res, s1). user_exit dispatch u res s1)"

definition hello_main :: "'s stdio_file \<Rightarrow> u32 \<Rightarrow> 's \<Rightarrow> fault + u32 \<times> 's" where
  "hello_main out res s = bindR (file_out out (bytes ''hi\<newline>'') s) (\<lambda>s1. Inr (res, s1))"

section \<open>Into ring 3\<close>

text \<open>
  \<open>enterUsermode\<close>: the arguments from the stack, the selectors of ring 3, the program's own stack with a
  dummy return address and \<open>arg\<close>, and an \<open>iret\<close> to the entry, with the kernel's flags.
\<close>

definition poke :: "u32 \<Rightarrow> u32 \<Rightarrow> cpu \<Rightarrow> cpu" where
  "poke a v c = c\<lparr>c_mem := (c_mem c)(a := v)\<rparr>"

definition enterUsermode :: "cpu \<Rightarrow> cpu" where
  "enterUsermode c =
     (let c1 = c\<lparr>c_eax := dw c 1, c_ecx := dw c 2, c_edx := dw c 3,
                 c_ebx := (c_ebx c AND NOT 0xFFFF) OR 0x23, c_ds := 0x23, c_es := 0x23, c_fs := 0x23, c_gs := 0x23\<rparr>;
          c2 = c1\<lparr>c_ecx := c_ecx c1 - 4\<rparr>;
          c3 = poke (c_ecx c2) (c_edx c2) c2;
          c4 = c3\<lparr>c_ecx := c_ecx c3 - 4\<rparr>;
          c5 = poke (c_ecx c4) 0 c4
      in iretd (fold push [0x23, c_ecx c5, c_eflags c5, 0x1B, c_eax c5] c5))"

section \<open>What a program prints\<close>

text \<open>The kernel's own streams are the \<open>printf\<close> of the shell.\<close>

lemma kernel_stream: "file_out (kernel_stdout swr) cs s = Inr (fold writeChar cs s)"
  by (induction cs arbitrary: s) (simp_all add: kernel_stdout_def stdout_put_def)

lemma printf_stream: "file_out (kernel_stdout swr) (sh_printf env (bytes fmt) args) s = Inr (print env fmt args s)"
  by (simp add: kernel_stream print_writes)

lemma user_put_writes:
  "user_put (syscallDispatcher lc dev polls heap) u p c s = Inr (0, writeChar c (s\<lparr>umem := (umem s)(p := c)\<rparr>))"
proof -
  let ?s = "s\<lparr>umem := (umem s)(p := c)\<rparr>"
  have "umem_bytes (umem ?s) p 1 = [c]" by (simp add: umem_bytes_def)
  then have "syscallDispatcher lc dev polls heap (int80_frame (u\<lparr>u_eax := 3, u_ebx := 1, u_ecx := p, u_edx := 1\<rparr>)) ?s =
      Inr (Some 1, writeChar c ?s)"
    by (subst dispatch_known(4)) (simp_all add: int80_frame_def sys_write_def syscall_macros write_file_def)
  then show ?thesis
    by (simp add: user_put_def user_stdout_put_def user_write_def syscall_number_back)
qed

lemma output_proc [simp]:
  "umem (writeChar c s) = umem s" "pending (writeChar c s) = pending s" "keyboard_inv (writeChar c s) = keyboard_inv s"
  "stdinLineReady (writeChar c s) = stdinLineReady s" "fdTable (writeChar c s) = fdTable s" "COLOR (writeChar c s) = COLOR s"
  "umem (fold writeChar cs s) = umem s" "tarBuf (fold writeChar cs s) = tarBuf s"
  by (rule writeChar_observed; simp add: pending_def keyboard_inv_def)+

text \<open>What a character leaves as it was.\<close>

definition same_system :: "'a proc_scheme \<Rightarrow> 'a proc_scheme \<Rightarrow> bool" where
  "same_system s t \<longleftrightarrow>
     tarBuf t = tarBuf s \<and> fdTable t = fdTable s \<and> idt t = idt s \<and> tss t = tss s \<and> pending t = pending s \<and>
     keyboard_inv t = keyboard_inv s \<and> stdinLineReady t = stdinLineReady s \<and> COLOR t = COLOR s"

lemma user_out:
  assumes "console_inv s"
  shows "\<exists>t. file_out (user_stdout (syscallDispatcher lc dev polls heap) u p swr) cs s = Inr t \<and>
    term_view t = fold (term_put (COLOR s)) cs (term_view s) \<and> console_inv t \<and>
    umem t = (if cs = [] then umem s else (umem s)(p := last cs)) \<and> same_system s t"
  using assms
proof (induction cs arbitrary: s)
  case Nil
  then show ?case by (simp add: same_system_def)
next
  case (Cons c cs)
  let ?m = "s\<lparr>umem := (umem s)(p := c)\<rparr>"
  let ?s = "writeChar c ?m"
  have m: "console_inv ?m" "term_view ?m = term_view s" using Cons.prems by (simp_all add: console_inv_def term_view_def)
  have v: "term_view ?s = term_put (COLOR s) c (term_view s)" "console_inv ?s" "COLOR ?s = COLOR s"
    using view_writeChar [OF m(1), of c] writeChar_keeps [OF m(1), of c] m(2) by simp_all
  have "same_system s ?s" by (simp add: same_system_def pending_def keyboard_inv_def)
  moreover obtain t where t: "file_out (user_stdout (syscallDispatcher lc dev polls heap) u p swr) cs ?s = Inr t"
      "term_view t = fold (term_put (COLOR ?s)) cs (term_view ?s)" "console_inv t"
      "umem t = (if cs = [] then umem ?s else (umem ?s)(p := last cs))" "same_system ?s t"
    using Cons.IH [OF v(2)] by blast
  ultimately show ?case
    using v by (intro exI [where x = t]) (auto simp: user_stdout_def user_put_writes same_system_def)
qed

lemma user_exit_never:
  "user_exit (syscallDispatcher lc dev polls heap) u status s = Inr (None, s)"
  by (simp add: user_exit_def syscall_number_back dispatch_known(5) int80_frame_def sys_exit_def syscall_macros)

section \<open>The first instruction\<close>

lemma mem_poke: "c_mem (poke a v c) b = (if b = a then v else c_mem c b)" "c_esp (poke a v c) = c_esp c"
  by (simp_all add: poke_def)

lemma mem_pushes:
  "b \<noteq> c_esp c - 4 \<Longrightarrow> c_mem (push v c) b = c_mem c b"
  by (simp add: push_def)

lemma enterUsermode_enters:
  assumes "{dw c 2 - 4, dw c 2 - 8} \<inter> (\<lambda>i. c_esp c - i) ` {4, 8, 12, 16, 20} = {}"
  defines "d \<equiv> enterUsermode c"
  shows "c_eip d = dw c 1 \<and> c_cs d = 0x1B \<and> c_ss d = 0x23 \<and> c_ds d = 0x23 \<and> c_es d = 0x23 \<and>
    c_esp d = dw c 2 - 8 \<and> dw d 0 = 0 \<and> dw d 1 = dw c 3 \<and> interrupts_on d = interrupts_on c \<and>
    c_esp (take_gate ts g None d) = tss_esp0 ts - 20"
proof -
  have ne: "dw c 2 - 4 \<noteq> c_esp c - i" "dw c 2 - 8 \<noteq> c_esp c - i" if "i \<in> {4, 8, 12, 16, 20}" for i
    using assms(1) that by auto
  let ?top = "dw c 2"
  define c5 where "c5 = c\<lparr>c_eax := dw c 1, c_edx := dw c 3, c_ebx := (c_ebx c AND NOT 0xFFFF) OR 0x23,
      c_ds := 0x23, c_es := 0x23, c_fs := 0x23, c_gs := 0x23, c_ecx := ?top - 8, c_mem := (c_mem c)(?top - 4 := dw c 3, ?top - 8 := 0)\<rparr>"
  define e where "e = fold push [0x23, ?top - 8, c_eflags c, 0x1B, dw c 1] c5"
  have d: "d = iretd e"
    by (simp add: d_def enterUsermode_def e_def c5_def poke_def Let_def)
  have st: "dw e 0 = dw c 1" "dw e (Suc 0) = 0x1B" "dw e 2 = c_eflags c" "dw e 3 = ?top - 8" "dw e 4 = 0x23"
    by (simp_all add: e_def)
  have "c_mem e a = c_mem c5 a" if "a \<notin> (\<lambda>i. c_esp c - i) ` {4, 8, 12, 16, 20}" for a
    using that by (simp add: e_def mem_pushes c5_def)
  then have m: "c_mem e (?top - 8) = 0" "c_mem e (?top - 4) = dw c 3"
    using ne by (auto simp: c5_def)
  have f: "c_eip d = dw c 1" "c_cs d = 0x1B" "c_ss d = 0x23" "c_esp d = ?top - 8" "c_mem d = c_mem e"
      "c_eflags d = c_eflags c" "c_ds d = 0x23" "c_es d = 0x23"
    using st by (simp_all add: d iretd_def Let_def) (simp_all add: e_def c5_def push_def)
  show ?thesis
    using f m by (simp add: dw_def dword_def interrupts_on_def take_gate_def)
qed

section \<open>Properties\<close>

text \<open>
  C29. \<open>enterUsermode\<close> enters the program: ring 3, at its entry, with the data selectors of ring 3, on its own
  stack, where it finds a return address of 0 and its argument, with the interrupt flag of the kernel; and an
  interrupt then leaves that stack for the one that the task state names.
\<close>

theorem program_entered:
  assumes "{dw c 2 - 4, dw c 2 - 8} \<inter> (\<lambda>i. c_esp c - i) ` {4, 8, 12, 16, 20} = {}"
  defines "d \<equiv> enterUsermode c"
  shows "c_eip d = dw c 1 \<and> c_cs d = 0x1B \<and> c_ss d = 0x23 \<and> c_ds d = 0x23 \<and> c_es d = 0x23 \<and>
    c_esp d = dw c 2 - 8 \<and> dw d 0 = 0 \<and> dw d 1 = dw c 3 \<and> interrupts_on d = interrupts_on c \<and>
    c_esp (take_gate ts g None d) = tss_esp0 ts - 20"
  unfolding d_def by (rule enterUsermode_enters [OF assms(1)])

text \<open>
  C17. The program apps/hello.c: it prints its line through \<open>int 0x80\<close>, one call for each character, and changes
  nothing else but the byte on its stack; its \<open>exit\<close> does not return, and the shell that it starts never reads a
  line, for the interrupts are off.
\<close>

theorem hello_runs:
  fixes s :: "'a proc_scheme" and lc :: libc and dev :: device and polls :: "nat list" and heap :: u32
  assumes "console_inv s" "keyboard_inv s" "10 \<notin> set (pending s)" "13 \<notin> set (pending s)" "stdinLineReady s = 0"
    and "linked code s" "may_interrupt (take_gate (tss s) (idt s 0x80) None c) later"
  defines "dispatch \<equiv> syscallDispatcher lc dev polls heap"
  shows "\<exists>t. user_start (hello_main (user_stdout dispatch u p swr) res) dispatch u s = Inr (None, t) \<and>
    term_view t = fold (term_put (COLOR s)) (bytes ''hi\<newline>'') (term_view s) \<and> umem t = (umem s)(p := 10) \<and>
    tarBuf t = tarBuf s \<and> fdTable t = fdTable s \<and> stdin_get dev later t = Inl Blocked"
proof -
  obtain t where t: "file_out (user_stdout dispatch u p swr) (bytes ''hi\<newline>'') s = Inr t"
      "term_view t = fold (term_put (COLOR s)) (bytes ''hi\<newline>'') (term_view s)" "umem t = (umem s)(p := 10)" "same_system s t"
    using user_out [OF assms(1), where cs = "bytes ''hi\<newline>''"] unfolding dispatch_def by fastforce
  have "user_start (hello_main (user_stdout dispatch u p swr) res) dispatch u s = Inr (None, t)"
    unfolding user_start_def hello_main_def t(1) by (simp add: dispatch_def user_exit_never)
  moreover have "kread_impl dev later 0 1 t = Inl Blocked"
    using kread_starves [OF handler_polls [OF assms(6,7)], of t] assms(2-5) t(4) by (simp add: same_system_def)
  then have "stdin_get dev later t = Inl Blocked" by (simp add: stdin_get_def)
  ultimately show ?thesis using t(2-4) unfolding same_system_def by blast
qed

theorem program_entered_witness:
  "c_eip (enterUsermode (fold push [0x7000, 0xA0000, 0x180000, 0x10500] (ex_cpu 8))) = 0x180000"
proof -
  let ?c = "fold push [0x7000, 0xA0000, 0x180000, 0x10500] (ex_cpu 8)"
  have "{dw ?c 2 - 4, dw ?c 2 - 8} \<inter> (\<lambda>i. c_esp ?c - i) ` {4, 8, 12, 16, 20} = {}" by (simp add: ex_cpu_def)
  from program_entered [OF this] show ?thesis by simp
qed

theorem hello_runs_witness:
  "\<exists>t. user_start (hello_main (user_stdout (syscallDispatcher ex_libc ex_dev [] 0) (uregs_of (ex_cpu 0x1B)) 0x9000 0) 7)
      (syscallDispatcher ex_libc ex_dev [] 0) (uregs_of (ex_cpu 0x1B)) st_gates = Inr (None, t) \<and>
    umem t = (umem st_gates)(0x9000 := 10) \<and> stdin_get ex_dev ([0, 0, 0]) t = Inl Blocked"
proof -
  have "console_inv st_gates" by (simp add: st_gates_def) (simp add: st0_def)
  moreover have "may_interrupt (take_gate (tss st_gates) (idt st_gates 0x80) None (ex_cpu 0x1B)) ([0, 0, 0])"
    by (auto simp: may_interrupt_def)
  ultimately show ?thesis
    using hello_runs [OF _ st_gates_keyboard(1) _ _ st_gates_keyboard(3) ex_stub_facts(2), of "ex_cpu 0x1B" "[0, 0, 0]"]
      st_gates_keyboard(2)
    by fastforce
qed

end
