(* ===== verification/Loader.thy ===== *)
theory Loader
  imports Program
begin

text \<open>
  The ELF loader as a whole (src/binary.c): what an executable file means, as an image of memory, and that
  \<open>loadBinary\<close> puts this image there; then the line of the shell that names such a file, up to the first
  instruction of the program.
\<close>

section \<open>Executable files\<close>








section \<open>Loading is the image\<close>








section \<open>Segments that do not overlap\<close>








section \<open>From the line to the program\<close>










section \<open>Properties\<close>











end
