(* ===== verification/User_Calls.thy ===== *)
theory User_Calls
  imports Program Fd_Model
begin

text \<open>
  What a program can rely on: the whole interface of system calls - every number but \<open>exit\<close> and reading from
  descriptor 0 - against a specification over a file interface, the memory of the program, the screen and
  the end of the heap. The calls go through \<open>int 0x80\<close>, the stub on the stack and the dispatcher; the
  simulation is the interface of Simulation, interpreted on \<open>syscallDispatcher\<close>.
\<close>

section \<open>The specification\<close>

text \<open>What a program sees of the system.\<close>

record user_view =
  uv_api :: file_api
  uv_mem :: "u32 \<Rightarrow> u8"
  uv_screen :: terminal
  uv_color :: u8
  uv_brk :: u32
  uv_errno :: u32

datatype user_call =
    UOpen u32 u32 u32
  | UClose u32
  | URead u32 u32 u32
  | UWrite u32 u32 u32
  | ULseek u32 u32 u32
  | UFstat u32 u32
  | UIsatty u32
  | UGetpid
  | UKill u32 u32
  | USbrk u32
  | UNosys u32
  | UOther u32

text \<open>The number of a call and its arguments, as the wrappers of apps/user_syscalls.c load them.\<close>

fun call_number :: "user_call \<Rightarrow> u32" where
  "call_number (UOpen p flags md) = SYS_open"
| "call_number (UClose fd) = SYS_close"
| "call_number (URead fd buf n) = SYS_read"
| "call_number (UWrite fd buf n) = SYS_write"
| "call_number (ULseek fd pos wh) = SYS_lseek"
| "call_number (UFstat fd st) = SYS_fstat"
| "call_number (UIsatty fd) = SYS_isatty"
| "call_number UGetpid = SYS_getpid"
| "call_number (UKill pid sg) = SYS_kill"
| "call_number (USbrk n) = SYS_sbrk"
| "call_number (UNosys nr) = nr"
| "call_number (UOther nr) = nr"

fun call_args :: "user_call \<Rightarrow> u32 list" where
  "call_args (UOpen p flags md) = [p, flags, md]"
| "call_args (UClose fd) = [fd]"
| "call_args (URead fd buf n) = [fd, buf, n]"
| "call_args (UWrite fd buf n) = [fd, buf, n]"
| "call_args (ULseek fd pos wh) = [fd, pos, wh]"
| "call_args (UFstat fd st) = [fd, st]"
| "call_args (UIsatty fd) = [fd]"
| "call_args UGetpid = []"
| "call_args (UKill pid sg) = [pid, sg]"
| "call_args (USbrk n) = [n]"
| "call_args (UNosys nr) = []"
| "call_args (UOther nr) = []"

text \<open>The slot behind a descriptor.\<close>

definition slot_of :: "u32 \<Rightarrow> nat option" where
  "slot_of fd = (if 3 \<le> sint fd \<and> sint fd < int FD_MAX_FILES + 3 then Some (nat (sint fd - 3)) else None)"

text \<open>A call of the file interface, with what it reads put into the memory of the program.\<close>

definition file_call :: "u32 \<Rightarrow> fd_call \<Rightarrow> user_view \<Rightarrow> u32 \<times> user_view" where
  "file_call buf call v =
     (let ((r, bs), a) = fd_spec call (uv_api v) in (r, v\<lparr>uv_api := a, uv_mem := umem_store (uv_mem v) buf bs\<rparr>))"

definition shows_text :: "u8 list \<Rightarrow> user_view \<Rightarrow> user_view" where
  "shows_text cs v = v\<lparr>uv_screen := fold (term_put (uv_color v)) cs (uv_screen v)\<rparr>"

fun user_spec :: "libc \<Rightarrow> u32 \<Rightarrow> user_call \<Rightarrow> user_view \<Rightarrow> u32 \<times> user_view" where
  "user_spec lc heap (UOpen p flags md) v = file_call 0 (OpenF (the (umem_string (uv_mem v) p)) flags) v"
| "user_spec lc heap (UClose fd) v = (case slot_of fd of None \<Rightarrow> (- 1, v) | Some k \<Rightarrow> file_call 0 (CloseF k) v)"
| "user_spec lc heap (URead fd buf n) v =
     (case slot_of fd of None \<Rightarrow> (- 1, v) | Some k \<Rightarrow> file_call buf (ReadF k n) v)"
| "user_spec lc heap (UWrite fd buf n) v =
     (let cs = umem_bytes (uv_mem v) buf (unat n)
      in if fd = 1 \<or> fd = 2 then (n, shows_text cs v)
         else case slot_of fd of None \<Rightarrow> (- 1, v) | Some k \<Rightarrow> file_call 0 (WriteF k cs) v)"
| "user_spec lc heap (ULseek fd pos wh) v = (- 1, v\<lparr>uv_errno := ESPIPE lc\<rparr>)"
| "user_spec lc heap (UFstat fd st) v = (0, v\<lparr>uv_mem := umem_store (uv_mem v) st (stat_image lc)\<rparr>)"
| "user_spec lc heap (UIsatty fd) v = (if fd \<in> {0, 1, 2} then 1 else 0, v)"
| "user_spec lc heap UGetpid v = (1, v)"
| "user_spec lc heap (UKill pid sg) v = (- 1, v)"
| "user_spec lc heap (USbrk n) v = (let (r, b) = kbrk heap n (uv_brk v) in (r, v\<lparr>uv_brk := b\<rparr>))"
| "user_spec lc heap (UNosys nr) v = (- 1, v\<lparr>uv_errno := ENOSYS lc\<rparr>)"
| "user_spec lc heap (UOther nr) v =
     (- ENOSYS lc, shows_text (bytes ''Unhandled syscall: '' @ intToStr nr @ [10]) v)"

text \<open>
  The calls it covers: a path that is a string in the memory of the program, a call of the file interface
  that its specification covers, and no negative descriptor.
\<close>

fun user_ok :: "user_call \<Rightarrow> user_view \<Rightarrow> bool" where
  "user_ok (UOpen p flags md) v \<longleftrightarrow>
     (case umem_string (uv_mem v) p of None \<Rightarrow> False | Some f \<Rightarrow> fd_ok (OpenF f flags) (uv_api v))"
| "user_ok (URead fd buf n) v \<longleftrightarrow> 0 < sint fd \<and> unat n < 2 ^ 31"
| "user_ok (UWrite fd buf n) v \<longleftrightarrow> 0 \<le> sint fd \<and> unat n < 2 ^ 31"
| "user_ok (UNosys nr) v \<longleftrightarrow> SYS_times \<le> nr \<and> nr \<le> SYS_clock"
| "user_ok (UOther nr) v \<longleftrightarrow> SYSCALL_COUNT \<le> nr"
| "user_ok (UClose fd) v \<longleftrightarrow> True"
| "user_ok (ULseek fd pos wh) v \<longleftrightarrow> True"
| "user_ok (UFstat fd st) v \<longleftrightarrow> True"
| "user_ok (UIsatty fd) v \<longleftrightarrow> True"
| "user_ok UGetpid v \<longleftrightarrow> True"
| "user_ok (UKill pid sg) v \<longleftrightarrow> True"
| "user_ok (USbrk n) v \<longleftrightarrow> True"

section \<open>The calls of the code\<close>

text \<open>The registers of a call; those that carry no argument are the program's.\<close>

definition load_call :: "user_call \<Rightarrow> cpu \<Rightarrow> cpu" where
  "load_call call c =
     (let c1 = c\<lparr>c_eax := call_number call\<rparr>
      in case call_args call of
           [] \<Rightarrow> c1
         | [x] \<Rightarrow> c1\<lparr>c_ebx := x\<rparr>
         | [x, y] \<Rightarrow> c1\<lparr>c_ebx := x, c_ecx := y\<rparr>
         | x # y # z # _ \<Rightarrow> c1\<lparr>c_ebx := x, c_ecx := y, c_edx := z\<rparr>)"

text \<open>
  A call as the kernel answers it, and as the program sees it: what is in EAX when \<open>int 0x80\<close> is over. A
  call that does not return is \<open>Blocked\<close>.
\<close>

definition kernel_answers ::
  "libc \<Rightarrow> device \<Rightarrow> nat list \<Rightarrow> u32 \<Rightarrow> cpu \<times> user_call \<Rightarrow> 'a proc_scheme \<Rightarrow> fault + u32 \<times> 'a proc_scheme" where
  "kernel_answers lc dev polls heap x s =
     bindR (syscallDispatcher lc dev polls heap (int80_frame (uregs_of (load_call (snd x) (fst x)))) s)
       (\<lambda>(r, t). case r of None \<Rightarrow> Inl Blocked | Some v \<Rightarrow> Inr (v, t))"

definition program_sees ::
  "libc \<Rightarrow> device \<Rightarrow> nat list \<Rightarrow> u32 \<Rightarrow> (cpu \<Rightarrow> cpu) \<Rightarrow> cpu \<times> user_call \<Rightarrow> 'a proc_scheme \<Rightarrow>
     fault + u32 \<times> 'a proc_scheme" where
  "program_sees lc dev polls heap callee x s =
     bindR (int80 (syscallDispatcher lc dev polls heap) callee (load_call (snd x) (fst x)) s)
       (\<lambda>(r, t). case r of None \<Rightarrow> Inl Blocked | Some c' \<Rightarrow> Inr (c_eax c', t))"

definition user_rel :: "device \<Rightarrow> drive \<Rightarrow> nat \<Rightarrow> 'a proc_scheme \<Rightarrow> user_view \<Rightarrow> bool" where
  "user_rel dev d0 kk s v \<longleftrightarrow>
     fd_rel dev d0 kk s (uv_api v) \<and> umem s = uv_mem v \<and> console_inv s \<and> term_view s = uv_screen v \<and>
     COLOR s = uv_color v \<and> heap_brk s = uv_brk v \<and> errnum s = uv_errno v"

section \<open>What file calls leave alone\<close>

text \<open>The calls of fd.c change the archive, the table and the disk.\<close>

definition files_only :: "'a files_scheme \<Rightarrow> 'a files_scheme \<Rightarrow> bool" where
  "files_only s t \<longleftrightarrow> (\<exists>x b f. t = s\<lparr>trace := x, tarBuf := b, fdTable := f\<rparr>)"

lemma files_onlyI [intro!, simp]:
  "files_only s s" "files_only s (s\<lparr>fdTable := f\<rparr>)" "files_only s (s\<lparr>tarBuf := b\<rparr>)"
  "files_only s (s\<lparr>tarBuf := b, fdTable := f\<rparr>)"
proof -
  have "s = s\<lparr>trace := trace s, tarBuf := tarBuf s, fdTable := fdTable s\<rparr>"
    "s\<lparr>fdTable := f\<rparr> = s\<lparr>trace := trace s, tarBuf := tarBuf s, fdTable := f\<rparr>"
    "s\<lparr>tarBuf := b\<rparr> = s\<lparr>trace := trace s, tarBuf := b, fdTable := fdTable s\<rparr>"
    "s\<lparr>tarBuf := b, fdTable := f\<rparr> = s\<lparr>trace := trace s, tarBuf := b, fdTable := f\<rparr>"
    by simp_all
  then show "files_only s s" "files_only s (s\<lparr>fdTable := f\<rparr>)" "files_only s (s\<lparr>tarBuf := b\<rparr>)"
    "files_only s (s\<lparr>tarBuf := b, fdTable := f\<rparr>)"
    unfolding files_only_def by metis+
qed

lemma open_only: "open_file f flags s = Inr (r, t) \<Longrightarrow> files_only s t"
  by (auto simp: open_file_def bindR_Inr_iff Let_def split: if_splits option.splits)

lemma read_only:
  "read_file dev polls fd n s = Inr (r, bs, t) \<Longrightarrow> fd_index fd = Inr (Some k) \<Longrightarrow> fd \<noteq> 0 \<Longrightarrow> files_only s t"
  by (cases "fd_data (fdTable s k)") (auto simp: read_file_def Let_def split: if_splits)

lemma write_only:
  "write_file fd src n s = Inr (r, t) \<Longrightarrow> fd_index fd = Inr (Some k) \<Longrightarrow> fd \<notin> {1, 2} \<Longrightarrow> files_only s t"
  by (cases "fd_data (fdTable s k)") (auto simp: write_file_def Let_def split: if_splits)

lemma close_only: "files_only s (snd (close_file dev fd s))"
proof -
  obtain x b where q: "tarFlush dev s = s\<lparr>trace := x, tarBuf := b\<rparr>"
    using quiet_tarFlush unfolding quiet_def by blast
  have "files_only s ((tarFlush dev s)\<lparr>fdTable := f\<rparr>)" for f
    unfolding files_only_def by (intro exI [where x = x] exI [where x = b] exI [where x = f]) (simp add: q)
  then show ?thesis by (auto simp: close_file_def Let_def)
qed

lemma files_only_view:
  fixes s :: "'a proc_scheme"
  assumes "files_only s t"
  shows "umem t = umem s" "console_inv t = console_inv s" "term_view t = term_view s" "COLOR t = COLOR s"
    "heap_brk t = heap_brk s" "errnum t = errnum s"
proof -
  obtain x b f where "t = s\<lparr>trace := x, tarBuf := b, fdTable := f\<rparr>" using assms unfolding files_only_def by blast
  then show "umem t = umem s" "console_inv t = console_inv s" "term_view t = term_view s" "COLOR t = COLOR s"
    "heap_brk t = heap_brk s" "errnum t = errnum s"
    by (simp_all add: console_inv_def term_view_def)
qed

text \<open>What printing and the other variables leave alone.\<close>

lemma fd_rel_same:
  assumes "fd_rel dev d0 kk s a" "drive_after d0 kk (trace t) = drive_after d0 kk (trace s)"
    "tarBuf t = tarBuf s" "fdTable t = fdTable s"
  shows "fd_rel dev d0 kk t a"
  using assms same_drive [OF assms(2)] slot_rel_other [of s _ _ _ t] by (simp add: fd_rel_def)

lemma user_rel_fields:
  assumes "user_rel dev d0 kk s v"
  shows "user_rel dev d0 kk (s\<lparr>umem := m\<rparr>) (v\<lparr>uv_mem := m\<rparr>)"
    "user_rel dev d0 kk (s\<lparr>heap_brk := b\<rparr>) (v\<lparr>uv_brk := b\<rparr>)"
    "user_rel dev d0 kk (s\<lparr>errnum := e\<rparr>) (v\<lparr>uv_errno := e\<rparr>)"
  using assms by (auto simp: user_rel_def console_inv_def term_view_def elim: fd_rel_same)

lemma user_rel_prints:
  assumes "user_rel dev d0 kk s v"
  shows "user_rel dev d0 kk (fold writeChar cs s) (shows_text cs v)"
  using assms
proof (induction cs arbitrary: s v)
  case (Cons c cs)
  let ?s = "writeChar c s" and ?v = "shows_text [c] v"
  have f: "heap_brk ?s = heap_brk s" "errnum ?s = errnum s" "fdTable ?s = fdTable s" by (rule writeChar_observed; simp)+
  have "fd_rel dev d0 kk ?s (uv_api v)"
    by (rule fd_rel_same [of dev d0 kk s]) (use Cons.prems in \<open>simp_all add: user_rel_def f\<close>)
  then have "user_rel dev d0 kk ?s ?v"
    using Cons.prems by (simp add: user_rel_def shows_text_def view_writeChar writeChar_keeps f)
  from Cons.IH [OF this] show ?case by (simp add: shows_text_def)
qed (simp add: shows_text_def)

section \<open>The dispatcher answers as specified\<close>

lemma slot_of_fd:
  assumes "slot_of fd = Some k"
  shows "fd = of_nat k + 3" "k < FD_MAX_FILES" "fd_index fd = Inr (Some k)" "fd \<notin> {0, 1, 2}"
proof -
  have k: "3 \<le> sint fd" "sint fd < 11" "k = nat (sint fd - 3)"
    using assms by (simp_all add: slot_of_def split: if_splits)
  have "fd = word_of_int (int k + 3)" using k by simp
  then show "fd = of_nat k + 3" by (metis of_int_add of_int_numeral of_int_of_nat_eq)
  show "k < FD_MAX_FILES" using k by simp
  show "fd_index fd = Inr (Some k)" using k by (simp add: fd_index_def)
  show "fd \<notin> {0, 1, 2}" using k(1) by auto
qed

lemma no_slot:
  assumes "slot_of fd = None"
  shows "close_file dev fd s = (- 1, s)"
    and "0 < sint fd \<Longrightarrow> read_file dev polls fd n s = Inr (- 1, [], s)"
    and "0 \<le> sint fd \<Longrightarrow> fd \<notin> {1, 2} \<Longrightarrow> write_file fd src n s = Inr (- 1, s)"
proof -
  have out: "sint fd < 3 \<or> 11 \<le> sint fd" using assms by (auto simp: slot_of_def split: if_splits)
  have small: "fd = 0 \<or> fd = 1 \<or> fd = 2" if "0 \<le> sint fd" "sint fd < 3"
  proof -
    have "sint fd \<in> {0, 1, 2}" using that by auto
    moreover have "fd = word_of_int (sint fd)" by simp
    ultimately show ?thesis by (metis insertE empty_iff word_of_int_0 word_of_int_1 word_of_int_numeral)
  qed
  show "close_file dev fd s = (- 1, s)" using out by (auto simp: close_file_def)
  show "read_file dev polls fd n s = Inr (- 1, [], s)" if "0 < sint fd"
  proof (cases "sint fd < 3")
    case True
    then have "fd = 1 \<or> fd = 2" using small that by auto
    then show ?thesis by (auto simp: read_file_def)
  next
    case False
    then have "fd_index fd = Inr None" "fd \<notin> {0, 1, 2}" using out by (auto simp: fd_index_def)
    then show ?thesis by (simp add: read_file_def)
  qed
  show "write_file fd src n s = Inr (- 1, s)" if "0 \<le> sint fd" "fd \<notin> {1, 2}"
  proof (cases "sint fd < 3")
    case True
    then have "fd = 0" using small that by auto
    then show ?thesis by (simp add: write_file_def)
  next
    case False
    then have "fd_index fd = Inr None" "fd \<notin> {0, 1, 2}" using out by (auto simp: fd_index_def)
    then show ?thesis by (simp add: write_file_def)
  qed
qed

text \<open>A call of the file interface, once its code is known to touch the files only.\<close>

lemma file_part:
  fixes s :: "'a proc_scheme"
  assumes "user_rel dev d0 kk s v" "fd_ok call (uv_api v)"
    and "\<And>r bs t. do_fd_call dev polls call s = Inr ((r, bs), t) \<Longrightarrow> files_only s t"
  shows "\<exists>r bs t. do_fd_call dev polls call s = Inr ((r, bs), t) \<and> r = fst (file_call buf call v) \<and>
    user_rel dev d0 kk (t\<lparr>umem := umem_store (umem t) buf bs\<rparr>) (snd (file_call buf call v))"
proof -
  obtain r bs a where sp: "fd_spec call (uv_api v) = ((r, bs), a)" by (metis prod.exhaust)
  have "fd_rel dev d0 kk s (uv_api v)" using assms(1) by (simp add: user_rel_def)
  then obtain t where t: "do_fd_call dev polls call s = Inr ((r, bs), t)" "fd_rel dev d0 kk t a"
    using fds.simulates [OF _ assms(2), of dev d0 kk s polls] sp by auto
  have "user_rel dev d0 kk t (v\<lparr>uv_api := a\<rparr>)"
    using assms(1) t(2) files_only_view [OF assms(3) [OF t(1)]] by (simp add: user_rel_def)
  moreover have "umem t = uv_mem v"
    using assms(1) files_only_view [OF assms(3) [OF t(1)]] by (simp add: user_rel_def)
  ultimately show ?thesis
    using t(1) sp user_rel_fields(1) [of dev d0 kk t "v\<lparr>uv_api := a\<rparr>" "umem_store (umem t) buf bs"]
    by (simp add: file_call_def)
qed

text \<open>The frame that the dispatcher gets.\<close>

abbreviation call_regs :: "user_call \<Rightarrow> cpu \<Rightarrow> InterruptFrame" where
  "call_regs call c \<equiv> int80_frame (uregs_of (load_call call c))"

lemmas frame_defs = int80_frame_def uregs_of_def load_call_def Let_def

lemma frame_number: "orig_eax (call_regs call c) = call_number call"
  by (simp add: frame_defs split: list.split)

lemma dispatch_rest:
  "orig_eax regs = SYS_lseek \<Longrightarrow> syscallDispatcher lc dev polls heap regs s = sys_lseek lc regs s"
  "orig_eax regs = SYS_fstat \<Longrightarrow> syscallDispatcher lc dev polls heap regs s = sys_fstat lc regs s"
  "orig_eax regs = SYS_isatty \<Longrightarrow> syscallDispatcher lc dev polls heap regs s = sys_isatty regs s"
  "orig_eax regs = SYS_getpid \<Longrightarrow> syscallDispatcher lc dev polls heap regs s = sys_getpid regs s"
  "orig_eax regs = SYS_kill \<Longrightarrow> syscallDispatcher lc dev polls heap regs s = sys_kill regs s"
  by (simp_all add: syscallDispatcher_def syscallTable_def Let_def word_le_nat_alt)

lemma dispatch_nosys:
  assumes "SYS_times \<le> orig_eax regs" "orig_eax regs \<le> SYS_clock"
  shows "syscallDispatcher lc dev polls heap regs s = sys_nosys lc regs s"
proof -
  have "unat (orig_eax regs) \<in> set [11..<18]" using assms by (simp add: word_le_nat_alt) presburger
  moreover have "orig_eax regs = of_nat (unat (orig_eax regs))" by simp
  ultimately have "orig_eax regs \<in> of_nat ` set [11..<18]" by blast
  then show ?thesis
    by (auto simp: syscallDispatcher_def syscallTable_def nosys_handlers Let_def word_le_nat_alt upt_rec)
qed

lemma answers:
  "syscallDispatcher lc dev polls heap (call_regs call c) s = Inr (Some r, t) \<Longrightarrow>
     kernel_answers lc dev polls heap (c, call) s = Inr (r, t)"
  by (simp add: kernel_answers_def)

lemma open_answers:
  fixes s :: "'a proc_scheme"
  assumes "user_rel dev d0 kk s v" "user_ok (UOpen p flags md) v"
  shows "\<exists>t. kernel_answers lc dev polls heap (c, UOpen p flags md) s = Inr (fst (user_spec lc heap (UOpen p flags md) v), t) \<and>
    user_rel dev d0 kk t (snd (user_spec lc heap (UOpen p flags md) v))"
proof -
  obtain f where f: "umem_string (uv_mem v) p = Some f" "fd_ok (OpenF f flags) (uv_api v)"
    using assms(2) by (auto split: option.splits)
  have m: "umem s = uv_mem v" using assms(1) by (simp add: user_rel_def)
  obtain r bs t where t: "do_fd_call dev polls (OpenF f flags) s = Inr ((r, bs), t)"
      "r = fst (file_call 0 (OpenF f flags) v)"
      "user_rel dev d0 kk (t\<lparr>umem := umem_store (umem t) 0 bs\<rparr>) (snd (file_call 0 (OpenF f flags) v))"
    using file_part [OF assms(1) f(2), of polls 0] open_only by (fastforce simp: bindR_Inr_iff)
  have bs: "bs = []" "open_file f flags s = Inr (r, t)" using t(1) by (auto simp: bindR_Inr_iff)
  have "syscallDispatcher lc dev polls heap (call_regs (UOpen p flags md) c) s = Inr (Some r, t)"
    using f(1) m bs(2) by (subst dispatch_known(1)) (simp_all add: sys_open_def syscall_macros frame_defs)
  from answers [OF this] show ?thesis using t(2,3) f(1) bs(1) by auto
qed

lemma close_answers:
  fixes s :: "'a proc_scheme"
  assumes "user_rel dev d0 kk s v"
  shows "\<exists>t. kernel_answers lc dev polls heap (c, UClose fd) s = Inr (fst (user_spec lc heap (UClose fd) v), t) \<and>
    user_rel dev d0 kk t (snd (user_spec lc heap (UClose fd) v))"
proof -
  have d: "syscallDispatcher lc dev polls heap (call_regs (UClose fd) c) s =
      (let (r, t) = close_file dev fd s in Inr (Some r, t))"
    by (subst dispatch_known(2)) (simp_all add: sys_close_def syscall_macros frame_defs)
  show ?thesis
  proof (cases "slot_of fd")
    case None
    then show ?thesis using assms d no_slot(1) [OF None, of dev s] by (simp add: answers)
  next
    case (Some k)
    note fd = slot_of_fd [OF Some]
    have ok: "fd_ok (CloseF k) (uv_api v)" using fd(2) by simp
    obtain r bs t where t: "do_fd_call dev polls (CloseF k) s = Inr ((r, bs), t)" "r = fst (file_call 0 (CloseF k) v)"
        "user_rel dev d0 kk (t\<lparr>umem := umem_store (umem t) 0 bs\<rparr>) (snd (file_call 0 (CloseF k) v))"
      using file_part [OF assms ok, of polls 0] close_only [of s dev "of_nat k + 3"]
      by (fastforce simp: case_prod_beta Let_def)
    then have "bs = []" "close_file dev fd s = (r, t)" using fd(1) by (auto simp: case_prod_beta Let_def prod_eq_iff)
    then show ?thesis using t(2,3) d Some by (auto simp: answers)
  qed
qed

lemma read_answers:
  fixes s :: "'a proc_scheme"
  assumes "user_rel dev d0 kk s v" "user_ok (URead fd buf n) v"
  shows "\<exists>t. kernel_answers lc dev polls heap (c, URead fd buf n) s = Inr (fst (user_spec lc heap (URead fd buf n) v), t) \<and>
    user_rel dev d0 kk t (snd (user_spec lc heap (URead fd buf n) v))"
proof -
  have nz: "fd \<noteq> 0" "0 < sint fd" "unat n < 2 ^ 31" using assms(2) by auto
  have d: "syscallDispatcher lc dev polls heap (call_regs (URead fd buf n) c) s =
      bindR (read_file dev polls fd n s) (\<lambda>(r, bs, t). Inr (Some r, t\<lparr>umem := umem_store (umem t) buf bs\<rparr>))"
    using nz(1) by (subst dispatch_known(3)) (simp_all add: sys_read_def kread_impl_def syscall_macros frame_defs)
  show ?thesis
  proof (cases "slot_of fd")
    case None
    then show ?thesis using assms(1) d no_slot(2) [OF None nz(2), of dev polls n s] by (simp add: answers)
  next
    case (Some k)
    note fd = slot_of_fd [OF Some]
    have ok: "fd_ok (ReadF k n) (uv_api v)" using fd(2) nz(3) by simp
    have only: "files_only s t" if "do_fd_call dev polls (ReadF k n) s = Inr ((r, bs), t)" for r bs t
      using that read_only [OF _ fd(3)] fd(1) nz(1) by (auto simp: bindR_Inr_iff)
    obtain r bs t where t: "do_fd_call dev polls (ReadF k n) s = Inr ((r, bs), t)" "r = fst (file_call buf (ReadF k n) v)"
        "user_rel dev d0 kk (t\<lparr>umem := umem_store (umem t) buf bs\<rparr>) (snd (file_call buf (ReadF k n) v))"
      using file_part [OF assms(1) ok, of polls buf] only by blast
    have "read_file dev polls fd n s = Inr (r, bs, t)" using t(1) fd(1) by (auto simp: bindR_Inr_iff)
    then show ?thesis using t(2,3) d Some by (auto simp: answers)
  qed
qed

lemma write_answers:
  fixes s :: "'a proc_scheme"
  assumes "user_rel dev d0 kk s v" "user_ok (UWrite fd buf n) v"
  shows "\<exists>t. kernel_answers lc dev polls heap (c, UWrite fd buf n) s = Inr (fst (user_spec lc heap (UWrite fd buf n) v), t) \<and>
    user_rel dev d0 kk t (snd (user_spec lc heap (UWrite fd buf n) v))"
proof -
  let ?cs = "umem_bytes (uv_mem v) buf (unat n)"
  have m: "umem s = uv_mem v" using assms(1) by (simp add: user_rel_def)
  have ok: "0 \<le> sint fd" "unat n < 2 ^ 31" using assms(2) by auto
  have d: "syscallDispatcher lc dev polls heap (call_regs (UWrite fd buf n) c) s =
      bindR (write_file fd ?cs n s) (\<lambda>(r, t). Inr (Some r, t))"
    by (subst dispatch_known(4)) (simp_all add: sys_write_def syscall_macros frame_defs m)
  consider "fd = 1 \<or> fd = 2" | "fd \<notin> {1, 2}" "slot_of fd = None" | k where "slot_of fd = Some k" by blast
  then show ?thesis
  proof cases
    case 1
    then have "write_file fd ?cs n s = Inr (n, fold writeChar ?cs s)" by (auto simp: write_file_def)
    then show ?thesis using d user_rel_prints [OF assms(1), of ?cs] 1 by (auto simp: answers Let_def)
  next
    case 2
    then show ?thesis using assms(1) d no_slot(3) [OF 2(2) ok(1) 2(1), of ?cs n s] by (simp add: answers Let_def)
  next
    case (3 k)
    note fd = slot_of_fd [OF 3]
    have okw: "fd_ok (WriteF k ?cs) (uv_api v)" using fd(2) ok(2) by simp
    have only: "files_only s t" if "do_fd_call dev polls (WriteF k ?cs) s = Inr ((r, bs), t)" for r bs t
      using that write_only [OF _ fd(3)] fd(1,4) by (auto simp: bindR_Inr_iff)
    obtain r bs t where t: "do_fd_call dev polls (WriteF k ?cs) s = Inr ((r, bs), t)" "r = fst (file_call 0 (WriteF k ?cs) v)"
        "user_rel dev d0 kk (t\<lparr>umem := umem_store (umem t) 0 bs\<rparr>) (snd (file_call 0 (WriteF k ?cs) v))"
      using file_part [OF assms(1) okw, of polls 0] only by blast
    have "bs = []" "write_file fd ?cs n s = Inr (r, t)" using t(1) fd(1) by (auto simp: bindR_Inr_iff)
    then show ?thesis using t(2,3) d fd(4) 3 by (auto simp: answers Let_def)
  qed
qed

text \<open>The calls that have no file in them.\<close>

lemma kbrk_answers:
  fixes s :: "'a proc_scheme"
  assumes "user_rel dev d0 kk s v"
  shows "\<exists>t. kernel_answers lc dev polls heap (c, USbrk n) s = Inr (fst (user_spec lc heap (USbrk n) v), t) \<and>
    user_rel dev d0 kk t (snd (user_spec lc heap (USbrk n) v))"
proof -
  obtain r b where k: "kbrk heap n (uv_brk v) = (r, b)" by fastforce
  have "heap_brk s = uv_brk v" using assms by (simp add: user_rel_def)
  then have "syscallDispatcher lc dev polls heap (call_regs (USbrk n) c) s = Inr (Some r, s\<lparr>heap_brk := b\<rparr>)"
    using k by (subst dispatch_known(6)) (simp_all add: sys_sbrk_def syscall_macros frame_defs)
  from answers [OF this] show ?thesis using user_rel_fields(2) [OF assms] k by simp
qed

lemma writeStr_fold: "cstring cs \<Longrightarrow> writeStr cs s = fold writeChar cs s"
  by (induction cs arbitrary: s) simp_all

lemma other_answers:
  fixes s :: "'a proc_scheme"
  assumes "user_rel dev d0 kk s v" "SYSCALL_COUNT \<le> nr"
  shows "\<exists>t. kernel_answers lc dev polls heap (c, UOther nr) s = Inr (fst (user_spec lc heap (UOther nr) v), t) \<and>
    user_rel dev d0 kk t (snd (user_spec lc heap (UOther nr) v))"
proof -
  let ?cs = "bytes ''Unhandled syscall: '' @ intToStr nr @ [10]"
  have nr: "orig_eax (call_regs (UOther nr) c) = nr" using frame_number [of "UOther nr" c] by simp
  have w: "writeStr ?cs s = fold writeChar ?cs s" by (rule writeStr_fold) (simp add: cstring_intToStr)
  have "syscallDispatcher lc dev polls heap (call_regs (UOther nr) c) s = Inr (Some (- ENOSYS lc), fold writeChar ?cs s)"
    using dispatch_unknown [of "call_regs (UOther nr) c" lc dev polls heap s] assms(2) unfolding nr w by simp
  from answers [OF this] show ?thesis
    using user_rel_prints [OF assms(1), of ?cs] unfolding user_spec.simps fst_conv snd_conv by blast
qed

lemma plain_answers:
  fixes s :: "'a proc_scheme"
  assumes "user_rel dev d0 kk s v" "user_ok call v"
    and "call \<in> {ULseek fd pos wh, UFstat fd st, UIsatty fd, UGetpid, UKill pid sg, UNosys nr}"
  shows "\<exists>t. kernel_answers lc dev polls heap (c, call) s = Inr (fst (user_spec lc heap call v), t) \<and>
    user_rel dev d0 kk t (snd (user_spec lc heap call v))"
proof -
  note rel = assms(1) user_rel_fields [OF assms(1)]
  have m: "umem s = uv_mem v" using assms(1) by (simp add: user_rel_def)
  consider "call = ULseek fd pos wh" | "call = UFstat fd st" | "call = UIsatty fd" | "call = UGetpid" | "call = UKill pid sg"
    | "call = UNosys nr" using assms(3) by blast
  then show ?thesis
  proof cases
    case 1
    have "syscallDispatcher lc dev polls heap (call_regs call c) s = Inr (Some (- 1), s\<lparr>errnum := ESPIPE lc\<rparr>)"
      unfolding 1 by (subst dispatch_rest(1)) (simp_all add: sys_lseek_def syscall_macros frame_defs)
    from answers [OF this] show ?thesis using rel by (simp add: 1)
  next
    case 2
    have "syscallDispatcher lc dev polls heap (call_regs call c) s =
        Inr (Some 0, s\<lparr>umem := umem_store (umem s) st (stat_image lc)\<rparr>)"
      unfolding 2 by (subst dispatch_rest(2)) (simp_all add: sys_fstat_def syscall_macros frame_defs)
    from answers [OF this] show ?thesis using rel by (simp add: 2 m)
  next
    case 3
    have "syscallDispatcher lc dev polls heap (call_regs call c) s = Inr (Some (if fd \<in> {0, 1, 2} then 1 else 0), s)"
      unfolding 3 by (subst dispatch_rest(3)) (simp_all add: sys_isatty_def syscall_macros frame_defs)
    from answers [OF this] show ?thesis using rel by (simp add: 3)
  next
    case 4
    have "syscallDispatcher lc dev polls heap (call_regs call c) s = Inr (Some 1, s)"
      unfolding 4 by (subst dispatch_rest(4)) (simp_all add: sys_getpid_def syscall_macros frame_defs)
    from answers [OF this] show ?thesis using rel by (simp add: 4)
  next
    case 5
    have "syscallDispatcher lc dev polls heap (call_regs call c) s = Inr (Some (- 1), s)"
      unfolding 5 by (subst dispatch_rest(5)) (simp_all add: sys_kill_def syscall_macros frame_defs)
    from answers [OF this] show ?thesis using rel by (simp add: 5)
  next
    case 6
    have "syscallDispatcher lc dev polls heap (call_regs call c) s = Inr (Some (- 1), s\<lparr>errnum := ENOSYS lc\<rparr>)"
      using assms(2) unfolding 6
      by (subst dispatch_nosys) (simp_all add: frame_number sys_nosys_def syscall_macros)
    from answers [OF this] show ?thesis using rel by (simp add: 6)
  qed
qed

lemma kernel_answers_simulates:
  fixes s :: "'a proc_scheme"
  assumes "user_rel dev d0 kk s v" "user_ok call v"
  shows "\<exists>t. kernel_answers lc dev polls heap (c, call) s = Inr (fst (user_spec lc heap call v), t) \<and>
    user_rel dev d0 kk t (snd (user_spec lc heap call v))"
proof (cases call)
  case UOpen
  with assms show ?thesis by (simp only: open_answers)
next
  case UClose
  with assms show ?thesis by (simp only: close_answers)
next
  case URead
  with assms show ?thesis by (simp only: read_answers)
next
  case UWrite
  with assms show ?thesis by (simp only: write_answers)
next
  case USbrk
  with assms show ?thesis by (simp only: kbrk_answers)
next
  case (UOther nr)
  with assms(2) have "SYSCALL_COUNT \<le> nr" by simp
  with assms UOther show ?thesis by (simp only: other_answers)
qed (use plain_answers [OF assms] in blast)+

section \<open>On the stack\<close>

text \<open>The program sees the number of its call; the system is where the answer left it.\<close>

lemma program_sees_number:
  assumes "cdecl callee"
  shows "program_sees lc dev polls heap callee x s =
    bindR (kernel_answers lc dev polls heap x s) (\<lambda>(r, t). Inr (call_number (snd x), t))"
proof -
  let ?c = "load_call (snd x) (fst x)"
  obtain c' where c': "same_regs ?c c'"
      "int80 (syscallDispatcher lc dev polls heap) callee ?c s =
        bindR (int80Handler (syscallDispatcher lc dev polls heap) (uregs_of ?c) s) (\<lambda>(u, t). Inr (map_option (\<lambda>_. c') u, t))"
    using int80_handler [OF assms] by blast
  have "c_eax c' = call_number (snd x)"
    using c'(1) by (simp add: same_regs_def load_call_def Let_def split: list.splits)
  then show ?thesis
    unfolding program_sees_def kernel_answers_def c'(2) int80_lost
    by (cases "syscallDispatcher lc dev polls heap (int80_frame (uregs_of ?c)) s") (auto split: option.split)
qed

lemma program_run:
  assumes "cdecl callee"
  shows "run_calls (program_sees lc dev polls heap callee) xs s =
    bindR (run_calls (kernel_answers lc dev polls heap) xs s) (\<lambda>(rs, t). Inr (map (call_number \<circ> snd) xs, t))"
  by (rule run_calls_outputs [where g = "call_number \<circ> snd"]) (simp add: program_sees_number [OF assms])

interpretation user_calls: simulation "kernel_answers lc dev polls heap" "\<lambda>x. user_spec lc heap (snd x)"
    "\<lambda>x. user_ok (snd x)" "user_rel dev d0 kk"
  for lc dev polls heap d0 kk
  by unfold_locales (metis kernel_answers_simulates prod.collapse)

section \<open>Properties\<close>

text \<open>
  C3. The interface of system calls: whatever list of calls a program makes - files by descriptor, the screen,
  the heap, the calls that are not implemented and numbers out of the table - the kernel answers each as the
  specification says, never faults, and leaves the files, the disk, the memory of the program, the screen and
  the heap as it says; the program finds the number of its call in EAX instead of the answer.
\<close>

theorem user_calls_refine:
  fixes s :: "'a proc_scheme"
  assumes "user_rel dev d0 kk s v" "cdecl callee"
    and "admissible (\<lambda>x. user_ok (snd x)) (\<lambda>x. user_spec lc heap (snd x)) xs v"
  shows "\<exists>t. run_calls (kernel_answers lc dev polls heap) xs s =
        Inr (fst (run_spec (\<lambda>x. user_spec lc heap (snd x)) xs v), t) \<and>
      run_calls (program_sees lc dev polls heap callee) xs s = Inr (map (call_number \<circ> snd) xs, t) \<and>
      user_rel dev d0 kk t (snd (run_spec (\<lambda>x. user_spec lc heap (snd x)) xs v))"
  using user_calls.run_simulates [OF assms(1,3), of polls] by (auto simp: program_run [OF assms(2)])

text \<open>A program that copies the beginning of a file to the screen and to the disk.\<close>

definition ex_umem :: "u32 \<Rightarrow> u8" where
  "ex_umem = (\<lambda>p. 0)(0x1000 := 97)"

lemma ex_path: "umem_string ex_umem 0x1000 = Some (bytes ''a'')"
proof -
  have "umem_string ex_umem 0x1001 = Some []" by (subst umem_string.simps) (simp add: ex_umem_def)
  then show ?thesis by (subst umem_string.simps) (simp add: ex_umem_def)
qed

definition st_user :: proc where
  "st_user = st_disk\<lparr>umem := ex_umem\<rparr>"

definition ex_user_view :: user_view where
  "ex_user_view = \<lparr>uv_api = ex_api, uv_mem = ex_umem, uv_screen = term_view st_disk, uv_color = COLOR st_disk,
     uv_brk = heap_brk st_disk, uv_errno = errnum st_disk\<rparr>"

lemma ex_user_rel: "user_rel ex_dev ex_drive 2 st_user ex_user_view"
proof -
  have "fd_rel ex_dev ex_drive 2 st_user ex_api"
    by (rule fd_rel_same [OF ex_api_rel]) (simp_all add: st_user_def)
  moreover have "console_inv st_disk" using ex_view_rel by (simp add: sh_rel_def)
  ultimately show ?thesis
    by (simp add: user_rel_def ex_user_view_def) (simp add: st_user_def console_inv_def term_view_def)
qed

definition ex_user_calls :: "(cpu \<times> user_call) list" where
  "ex_user_calls = map (Pair (ex_cpu 0x1B))
     [UOpen 0x1000 0 0, URead 3 0x2000 3, UWrite 1 0x2000 3, UWrite 3 0x2000 2, UClose 3, UClose 3, UGetpid]"

lemma ex_user_run:
  "admissible (\<lambda>x. user_ok (snd x)) (\<lambda>x. user_spec ex_libc 0x200000 (snd x)) ex_user_calls ex_user_view"
  "fst (run_spec (\<lambda>x. user_spec ex_libc 0x200000 (snd x)) ex_user_calls ex_user_view) = [3, 3, 3, 2, 0, - 1, 1]"
  "api_disk (uv_api (snd (run_spec (\<lambda>x. user_spec ex_libc 0x200000 (snd x)) ex_user_calls ex_user_view))) =
     [(bytes ''a'', bytes ''helhe''), (bytes ''b'', [])]"
  by (simp_all add: ex_user_calls_def ex_user_view_def ex_path file_call_def shows_text_def ex_api_def ex_files_def
      file_a_def file_b_def api_create_def api_free_def file_index_def slot_of_def span_def upt_rec Let_def umem_bytes_def ex_umem_def ex_path [unfolded ex_umem_def])


theorem user_calls_refine_witness:
  "\<exists>t. run_calls (kernel_answers ex_libc ex_dev [] 0x200000) ex_user_calls st_user = Inr ([3, 3, 3, 2, 0, - 1, 1], t) \<and>
     run_calls (program_sees ex_libc ex_dev [] 0x200000 ex_callee) ex_user_calls st_user = Inr ([0, 2, 3, 3, 1, 1, 7], t) \<and>
     archive (disk_buffer ex_drive 2 t) [(bytes ''a'', bytes ''helhe''), (bytes ''b'', [])]"
proof -
  have n: "map (call_number \<circ> snd) ex_user_calls = [0, 2, 3, 3, 1, 1, 7]" by (simp add: ex_user_calls_def)
  show ?thesis
    using user_calls_refine [OF ex_user_rel ex_stub_facts(1) ex_user_run(1), of "[]"]
    unfolding ex_user_run(2) n user_rel_def fd_rel_def ex_user_run(3) by blast
qed

end
