(* ===== verification/Served.thy ===== *)
theory Served
  imports Loader User_Calls
begin

text \<open>
  A program at work: from the lines of a session and the line that names the program, through its system
  calls, to the files on the disk. This puts the shell (Session), the loader (Loader) and the interface of system
  calls (User_Calls) together; what links them is that a line of the shell leaves descriptors, program memory
  and heap alone.
\<close>

section \<open>The view that a program starts with\<close>




section \<open>Properties\<close>







end
