(* ===== verification/Handoff.thy ===== *)
theory Handoff
  imports Boot
begin

text \<open>
  What comes before \<open>kmain\<close> and below it: the boot sector (bl/bootloader.asm), the first instructions of the
  kernel (src/boot.asm), and the instructions that load the tables into the processor (src/gdt_flush.asm,
  src/tss_flush.asm, \<open>loadIdt\<close> of src/interrupts.asm). The BIOS is a parameter: its disk service and its memory
  map. Real mode memory is a map from physical addresses to bytes.
\<close>

section \<open>The BIOS\<close>



section \<open>The boot sector\<close>

record loader = machine +
  l_mem :: buffer
  l_tty :: "u8 list"
  BOOT_DRIVE :: u8

text \<open>\<open>log\<close> prints a text with \<open>int 0x10\<close>, up to its NUL.\<close>

definition log_text :: "string \<Rightarrow> 'a loader_scheme \<Rightarrow> 'a loader_scheme" where
  "log_text msg l = l\<lparr>l_tty := l_tty l @ bytes msg\<rparr>"

definition log_ok :: "'a loader_scheme \<Rightarrow> 'a loader_scheme" where
  "log_ok l = l\<lparr>l_tty := l_tty l @ bytes ''ok'' @ [13, 10]\<rparr>"




definition A20 :: "device \<Rightarrow> 'a loader_scheme \<Rightarrow> 'a loader_scheme" where
  "A20 dev l =
     (let l1 = log_text ''A20...'' l; (al, l2) = inb dev 0x92 l1
      in log_ok (outb 0x92 (al OR 2) l2))"


text \<open>\<open>gdtStart\<close>: three descriptors, written out in 16 bit words.\<close>

definition boot_gdt :: "nat \<Rightarrow> GdtEntry" where
  "boot_gdt n =
     (if n = 0 then \<lparr>limitLow = 0, baseLow = 0, baseMiddle = 0, access = 0, granularity = 0, baseHigh = 0\<rparr>
      else \<lparr>limitLow = 0xFFFF, baseLow = 0, baseMiddle = 0, access = (if n = 1 then 0x9A else 0x92),
             granularity = 0xCF, baseHigh = 0\<rparr>)"


definition sti :: "cpu \<Rightarrow> cpu" where
  "sti c = c\<lparr>c_eflags := set_bit 9 (c_eflags c)\<rparr>"


section \<open>The entry of the kernel\<close>



section \<open>The memory map\<close>













section \<open>Loading the tables\<close>

text \<open>The registers of the processor that hold the tables.\<close>

record sysregs =
  gdtr_limit :: u16
  gdtr_base :: u32
  idtr_limit :: u16
  idtr_base :: u32
  task_reg :: u16

text \<open>
  What the processor checks when a selector of ring 0 is loaded: the descriptor is inside the table, present,
  and a writable data segment, a code segment, or a free TSS of 32 bits. \<open>ga\<close> is the address of the array
  \<open>gdt\<close>, the only table that is read here.
\<close>

definition in_table :: "u32 \<Rightarrow> sysregs \<Rightarrow> u16 \<Rightarrow> bool" where
  "in_table ga r selector \<longleftrightarrow>
     gdtr_base r = ga \<and> selector AND 7 = 0 \<and> selector \<noteq> 0 \<and> unat selector + 7 \<le> unat (gdtr_limit r)"

definition sel_entry :: "(nat \<Rightarrow> GdtEntry) \<Rightarrow> u16 \<Rightarrow> GdtEntry" where
  "sel_entry t selector = t (unat selector div 8)"

text \<open>The processor marks a segment that is loaded as accessed, and a TSS as busy.\<close>

definition mark :: "u8 \<Rightarrow> u16 \<Rightarrow> 'a descs_scheme \<Rightarrow> 'a descs_scheme" where
  "mark b selector s =
     s\<lparr>gdt := (gdt s)(unat selector div 8 := (sel_entry (gdt s) selector)\<lparr>access := access (sel_entry (gdt s) selector) OR b\<rparr>)\<rparr>"

text \<open>\<open>None\<close> is a general protection fault.\<close>

definition load_data :: "u32 \<Rightarrow> sysregs \<Rightarrow> u16 \<Rightarrow> 'a descs_scheme \<Rightarrow> 'a descs_scheme option" where
  "load_data ga r selector s =
     (if in_table ga r selector \<and> access (sel_entry (gdt s) selector) AND 0xFA = 0x92
      then Some (mark 1 selector s) else None)"

definition load_code :: "u32 \<Rightarrow> sysregs \<Rightarrow> u16 \<Rightarrow> 'a descs_scheme \<Rightarrow> 'a descs_scheme option" where
  "load_code ga r selector s =
     (if in_table ga r selector \<and> access (sel_entry (gdt s) selector) AND 0xF8 = 0x98
      then Some (mark 1 selector s) else None)"

text \<open>
  \<open>gdtFlush\<close> with the address of \<open>gdtp\<close>: \<open>lgdt\<close>, the five segment registers, and a far jump for CS.
\<close>

definition gdtFlush ::
  "u32 \<Rightarrow> cpu \<times> sysregs \<times> 'a descs_scheme \<Rightarrow> (cpu \<times> sysregs \<times> 'a descs_scheme) option" where
  "gdtFlush ga x =
     (case x of (c, r, s) \<Rightarrow>
        let r1 = r\<lparr>gdtr_limit := gdtp_limit s, gdtr_base := gdtp_base s\<rparr>
        in Option.bind (load_data ga r1 0x10 s)
          (\<lambda>s1. Option.bind (load_code ga r1 0x08 s1)
            (\<lambda>s2. Some (c\<lparr>c_eax := (c_eax c AND 0xFFFF0000) OR 0x10, c_cs := 0x08, c_ss := 0x10, c_ds := 0x10,
                         c_es := 0x10, c_fs := 0x10, c_gs := 0x10\<rparr>, r1, s2))))"

text \<open>\<open>tssFlush\<close>: \<open>ltr\<close> with the fifth selector.\<close>

definition tssFlush ::
  "u32 \<Rightarrow> cpu \<times> sysregs \<times> 'a descs_scheme \<Rightarrow> (cpu \<times> sysregs \<times> 'a descs_scheme) option" where
  "tssFlush ga x =
     (case x of (c, r, s) \<Rightarrow>
        let ax = (5 * 8) OR 0 :: u16
        in if in_table ga r ax \<and> access (sel_entry (gdt s) ax) AND 0x9F = 0x89
           then Some (c\<lparr>c_eax := (c_eax c AND 0xFFFF0000) OR ucast ax\<rparr>, r\<lparr>task_reg := ax\<rparr>, mark 2 ax s)
           else None)"

text \<open>\<open>loadIdt\<close> with the address of \<open>idtp\<close>: \<open>lidt\<close> and \<open>sti\<close>.\<close>

definition loadIdt :: "u32 \<Rightarrow> cpu \<times> sysregs \<times> 'a traps_scheme \<Rightarrow> cpu \<times> sysregs \<times> 'a traps_scheme" where
  "loadIdt idtp x =
     (case x of (c, r, s) \<Rightarrow>
        (sti (c\<lparr>c_edx := idtp\<rparr>), r\<lparr>idtr_limit := idtp_limit s, idtr_base := idtp_base s\<rparr>, s))"

text \<open>\<open>initIdt\<close> and \<open>initGdt\<close> with the calls at their ends.\<close>

definition initIdt_loads ::
  "(stub \<Rightarrow> u32) \<Rightarrow> u32 \<Rightarrow> u32 \<Rightarrow> cpu \<times> sysregs \<times> 'a traps_scheme \<Rightarrow> cpu \<times> sysregs \<times> 'a traps_scheme" where
  "initIdt_loads addr idt_addr idtp x = (case x of (c, r, s) \<Rightarrow> loadIdt idtp (c, r, initIdt addr idt_addr s))"

definition initGdt_loads ::
  "u32 \<Rightarrow> u32 \<Rightarrow> u32 \<Rightarrow> cpu \<times> sysregs \<times> 'a descs_scheme \<Rightarrow> (cpu \<times> sysregs \<times> 'a descs_scheme) option" where
  "initGdt_loads ga ta stack_top x =
     (case x of (c, r, s) \<Rightarrow> Option.bind (gdtFlush ga (c, r, initGdt ga ta stack_top s)) (tssFlush ga))"

text \<open>What the loads read in the table that \<open>initGdt\<close> wrote, and what they mark.\<close>

lemma initGdt_table:
  "gdt (initGdt ga ta stk s) = (gdt s)(0 := gdt_entry 0 0 0 0, 1 := gdt_entry 0 0xFFFFFFFF 0x9A 0xCF,
      2 := gdt_entry 0 0xFFFFFFFF 0x92 0xCF, 3 := gdt_entry 0 0xFFFFFFFF 0xFA 0xCF,
      4 := gdt_entry 0 0xFFFFFFFF 0xF2 0xCF, 5 := gdt_entry ta SIZEOF_TSS 0xE9 0)"
  "gdtp_limit (initGdt ga ta stk s) = 47" "gdtp_base (initGdt ga ta stk s) = ga"
  by (simp_all add: initGdt_def setTssGate_def setGdtGate_def Let_def)

lemma initGdt_accesses:
  "access (gdt (initGdt ga ta stk s) 1) = 0x9A" "access (gdt (initGdt ga ta stk s) 2) = 0x92"
  "access (gdt (initGdt ga ta stk s) (Suc 0)) = 0x9A"
  "access (gdt (initGdt ga ta stk s) 5) = 0xE9"
  by (simp_all add: initGdt_table)

definition loaded_marks :: "'a descs_scheme \<Rightarrow> 'a descs_scheme" where
  "loaded_marks s = mark 2 0x28 (mark 1 0x08 (mark 1 0x10 s))"

lemma loads_succeed:
  "initGdt_loads ga ta stk (c, r, s) =
     Some (c\<lparr>c_eax := (c_eax c AND 0xFFFF0000 OR 0x10) AND 0xFFFF0000 OR 0x28, c_cs := 8, c_ss := 0x10, c_ds := 0x10,
             c_es := 0x10, c_fs := 0x10, c_gs := 0x10\<rparr>,
           r\<lparr>gdtr_limit := 47, gdtr_base := ga, task_reg := 0x28\<rparr>,
           loaded_marks (initGdt ga ta stk s))"
  by (simp add: initGdt_loads_def gdtFlush_def tssFlush_def load_data_def load_code_def in_table_def mark_def
      sel_entry_def loaded_marks_def initGdt_accesses initGdt_table(2,3) Let_def)

lemma boot_gdt_flat: "boot_gdt 1 = gdt_entry 0 0xFFFFFFFF 0x9A 0xCF" "boot_gdt 2 = gdt_entry 0 0xFFFFFFFF 0x92 0xCF"
  by (simp_all add: boot_gdt_def gdt_entry_def)

text \<open>Marks leave what a descriptor says, but for its two bits.\<close>

lemma marked_entry [simp]:
  "seg_base (e\<lparr>access := a\<rparr>) = seg_base e" "seg_limit (e\<lparr>access := a\<rparr>) = seg_limit e"
  "seg_last (e\<lparr>access := a\<rparr>) = seg_last e"
  by (simp_all add: seg_base_def seg_limit_def seg_last_def seg_flags_def)

lemma loaded_entries:
  "map (seg_base \<circ> gdt (loaded_marks s)) ns = map (seg_base \<circ> gdt s) ns"
  "map (seg_last \<circ> gdt (loaded_marks s)) ns = map (seg_last \<circ> gdt s) ns"
  "tss (loaded_marks s) = tss s"
  by (simp_all add: loaded_marks_def mark_def sel_entry_def)

lemma loaded_accesses:
  "map access (map (gdt (loaded_marks (initGdt ga ta stk s))) [0..<6]) = [0, 0x9B, 0x93, 0xFA, 0xF2, 0xEB]"
  "map (seg_dpl \<circ> gdt (loaded_marks (initGdt ga ta stk s))) [0..<6] = [0, 0, 0, 3, 3, 3]"
  by (simp_all add: loaded_marks_def mark_def sel_entry_def initGdt_table seg_dpl_def upt_rec)

lemma loaded_idt: "idt (loaded_marks (s :: 'a traps_scheme)) = idt s"
  by (simp add: loaded_marks_def mark_def)

lemma initIdt_pointer: "idtp_limit (initIdt addr ia s) = 2047" "idtp_base (initIdt addr ia s) = ia"
proof -
  have gate: "idtp_limit (setIdtGate n b t) = idtp_limit t" "idtp_base (setIdtGate n b t) = idtp_base t"
      "idtp_limit (setIdtGateWithFlags n b fl t) = idtp_limit t" "idtp_base (setIdtGateWithFlags n b fl t) = idtp_base t"
      "idtp_limit (remapPic t) = idtp_limit t" "idtp_base (remapPic t) = idtp_base t"
    for n b fl and t :: "'a traps_scheme"
    by (simp_all add: setIdtGate_def setIdtGateWithFlags_def remapPic_def port_io_shape)
  have gates: "idtp_limit (fold (\<lambda>i. setIdtGate (g i) (h i)) xs t) = idtp_limit t"
      "idtp_base (fold (\<lambda>i. setIdtGate (g i) (h i)) xs t) = idtp_base t"
    for g :: "'b \<Rightarrow> u8" and h xs and t :: "'a traps_scheme"
    by (induction xs arbitrary: t) (simp_all add: gate)
  have gates': "idtp_limit (fold (\<lambda>i. setIdtGate i (h i)) xs t) = idtp_limit t"
      "idtp_base (fold (\<lambda>i. setIdtGate i (h i)) xs t) = idtp_base t" for h xs and t :: "'a traps_scheme"
    by (induction xs arbitrary: t) (simp_all add: gate)
  show "idtp_limit (initIdt addr ia s) = 2047" "idtp_base (initIdt addr ia s) = ia"
    by (simp_all add: initIdt_def Let_def gate gates gates' del: fold_simps)
qed

section \<open>Properties\<close>

text \<open>
  C18. The tables are loaded: \<open>initIdt\<close> and \<open>initGdt\<close>, with the assembly they end in, raise no protection fault
  from any state; the processor then has both tables, flat segments and the task register, with interrupts on,
  reads flat segments for ring 0 and ring 3 - the first two as in the table of the boot sector - and a TSS with
  the kernel stack, and has marked what it loaded. The I/O map base of the TSS is left 0.
\<close>

theorem tables_are_loaded:
  fixes s :: "'a traps_scheme"
  shows "\<exists>c' r' t. initGdt_loads ga ta stk (initIdt_loads addr ia idtp (c, r, s)) = Some (c', r', t) \<and>
    interrupts_on c' \<and> c_cs c' = 8 \<and> map (\<lambda>f. f c') [c_ss, c_ds, c_es, c_fs, c_gs] = replicate 5 0x10 \<and>
    r' = \<lparr>gdtr_limit = 47, gdtr_base = ga, idtr_limit = 2047, idtr_base = ia, task_reg = 0x28\<rparr> \<and>
    map (seg_base \<circ> gdt t) [1, 2, 3, 4, 5] = [0, 0, 0, 0, ta] \<and>
    map (seg_last \<circ> gdt t) [1, 2, 3, 4, 5] = [0xFFFFFFFF, 0xFFFFFFFF, 0xFFFFFFFF, 0xFFFFFFFF, SIZEOF_TSS] \<and>
    map (\<lambda>n. (seg_base (boot_gdt n), seg_last (boot_gdt n))) [1, 2] = map (\<lambda>n. (seg_base (gdt t n), seg_last (gdt t n))) [1, 2] \<and>
    map access (map (gdt t) [0..<6]) = [0, 0x9B, 0x93, 0xFA, 0xF2, 0xEB] \<and>
    map (seg_dpl \<circ> gdt t) [0..<6] = [0, 0, 0, 3, 3, 3] \<and>
    tss_ss0 (tss t) = 0x10 \<and> tss_esp0 (tss t) = stk \<and> iomapBase (tss t) = 0 \<and> idt t = idt (initIdt addr ia s)"
proof -
  let ?s = "initIdt addr ia s"
  let ?c = "sti (c\<lparr>c_edx := idtp\<rparr>)"
  define t where "t = loaded_marks (initGdt ga ta stk ?s)"
  have i: "idtp_limit ?s = 2047" "idtp_base ?s = ia" by (simp_all add: initIdt_pointer)
  obtain c' r' where l: "initGdt_loads ga ta stk (initIdt_loads addr ia idtp (c, r, s)) = Some (c', r', t)"
      "c' = ?c\<lparr>c_eax := (c_eax ?c AND 0xFFFF0000 OR 0x10) AND 0xFFFF0000 OR 0x28, c_cs := 8, c_ss := 0x10, c_ds := 0x10,
             c_es := 0x10, c_fs := 0x10, c_gs := 0x10\<rparr>"
      "r' = r\<lparr>idtr_limit := 2047, idtr_base := ia, gdtr_limit := 47, gdtr_base := ga, task_reg := 0x28\<rparr>"
    by (simp add: initIdt_loads_def loadIdt_def loads_succeed t_def i)
  have on: "interrupts_on c'" by (simp add: l(2) sti_def interrupts_on_def bit_simps)
  have boot: "map (\<lambda>n. (seg_base (boot_gdt n), seg_last (boot_gdt n))) [1, 2] = [(0, 0xFFFFFFFF), (0, 0xFFFFFFFF)]"
    unfolding list.map boot_gdt_flat by (simp add: seg_last_def)
  have seg: "map (seg_base \<circ> gdt t) [1, 2, 3, 4, 5] = [0, 0, 0, 0, ta]"
      "map (seg_last \<circ> gdt t) [1, 2, 3, 4, 5] = [0xFFFFFFFF, 0xFFFFFFFF, 0xFFFFFFFF, 0xFFFFFFFF, SIZEOF_TSS]"
    unfolding t_def loaded_entries
    using initGdt_segments(1) [where ga = ga and ta = ta and stk = stk and s = ?s]
      initGdt_segments(2) [where ga = ga and ta = ta and stk = stk and s = ?s] by simp_all
  have ts: "tss_ss0 (tss t) = 0x10" "tss_esp0 (tss t) = stk" "iomapBase (tss t) = 0"
    by (simp_all add: t_def loaded_entries initGdt_tss)
  have "idt t = idt ?s" by (simp add: t_def loaded_idt)
  moreover have "map access (map (gdt t) [0..<6]) = [0, 0x9B, 0x93, 0xFA, 0xF2, 0xEB]"
      "map (seg_dpl \<circ> gdt t) [0..<6] = [0, 0, 0, 3, 3, 3]"
    unfolding t_def by (rule loaded_accesses)+
  moreover have "r' = \<lparr>gdtr_limit = 47, gdtr_base = ga, idtr_limit = 2047, idtr_base = ia, task_reg = 0x28\<rparr>"
    by (simp add: l(3))
  moreover have "c_cs c' = 8" "map (\<lambda>f. f c') [c_ss, c_ds, c_es, c_fs, c_gs] = replicate 5 0x10" by (simp_all add: l(2) numeral_eq_Suc)
  moreover have "map (\<lambda>n. (seg_base (boot_gdt n), seg_last (boot_gdt n))) [1, 2] =
      map (\<lambda>n. (seg_base (gdt t n), seg_last (gdt t n))) [1, 2]"
    unfolding boot using seg by simp
  ultimately show ?thesis using l(1) on seg ts by (intro exI conjI)
qed


text \<open>What the services of the boot sector leave in memory.\<close>

lemma log_fields [simp]:
  "l_mem (log_text msg l) = l_mem l" "BOOT_DRIVE (log_text msg l) = BOOT_DRIVE l"
  "l_mem (log_ok l) = l_mem l" "BOOT_DRIVE (log_ok l) = BOOT_DRIVE l"
  "l_mem (A20 dev l) = l_mem l"
  by (simp_all add: log_text_def log_ok_def A20_def case_prod_beta Let_def port_io_shape)











end
