(* ===== verification/Power_Cycle.thy ===== *)
theory Power_Cycle
  imports Handoff
begin

text \<open>
  The machine from power on to power off, and on again: the boot sector, the start of the kernel and a session
  in one run; what the kernel never writes on the disk; and what the next start finds.
\<close>

section \<open>The sectors outside the archive\<close>

context sector_store
begin

lemma wr_others:
  assumes "inv s" "\<And>i. i < n \<Longrightarrow> addr_ok (l + of_nat i)" "\<And>i. i < n \<Longrightarrow> size_ok (b i)" "\<And>i. i < n \<Longrightarrow> m \<noteq> l + of_nat i"
  shows "inv (for_to n (\<lambda>i. wr (l + of_nat i) (b i)) s) \<and> sector (for_to n (\<lambda>i. wr (l + of_nat i) (b i)) s) m = sector s m"
  using assms(2-)
proof (induction n)
  case (Suc n)
  then show ?case using wr_inv wr_data by simp
qed (simp add: assms(1))

end

definition archive_sector :: "u32 \<Rightarrow> bool" where
  "archive_sector l \<longleftrightarrow> TAR_START_LBA \<le> l \<and> l < TAR_START_LBA + of_nat TAR_MAX_SECTORS"

lemma archive_sector_nth: "i < TAR_MAX_SECTORS \<Longrightarrow> archive_sector (TAR_START_LBA + of_nat i)"
proof -
  assume i: "i < TAR_MAX_SECTORS"
  then have "unat (TAR_START_LBA + of_nat i) = 101 + i"
    by (simp add: unat_word_ariths unat_of_nat take_bit_nat_eq_self)
  then show ?thesis using i by (simp add: archive_sector_def word_less_nat_alt word_le_nat_alt)
qed

lemma tarFlush_others:
  assumes "ata_ready dev d0 k s" "\<not> archive_sector l"
  shows "ata_sector d0 k (tarFlush dev s) l = ata_sector d0 k s l"
proof -
  have "tarFlush dev s = for_to TAR_MAX_SECTORS
      (\<lambda>i. ataWrite dev (TAR_START_LBA + of_nat i) (load_words (tarBuf s) (i * 512) 256)) s"
    using tarFlush_writes [of dev TAR_MAX_SECTORS s] by (simp add: tarFlush_def)
  then show ?thesis
    using ata.wr_others [OF assms(1), of TAR_MAX_SECTORS TAR_START_LBA "\<lambda>i. load_words (tarBuf s) (i * 512) 256" l]
      tar_lba archive_sector_nth assms(2) by fastforce
qed

definition others_are :: "device \<Rightarrow> drive \<Rightarrow> nat \<Rightarrow> (u32 \<Rightarrow> u16 list) \<Rightarrow> 'a machine_scheme \<Rightarrow> bool" where
  "others_are dev d0 k f s \<longleftrightarrow> ata_ready dev d0 k s \<and> (\<forall>l. \<not> archive_sector l \<longrightarrow> ata_sector d0 k s l = f l)"

lemma others_same:
  "drive_after d0 k (trace t) = drive_after d0 k (trace s) \<Longrightarrow> others_are dev d0 k f t = others_are dev d0 k f s"
  using same_drive(1) [of d0 k t s dev] by (simp add: others_are_def ata_sector_def)


lemma tarLoad_sectors: "ata_ready dev d0 k s \<Longrightarrow> ata_sector d0 k (tarLoad dev s) = ata_sector d0 k s"
  using tarLoad_prefix [of dev d0 k s, OF _ order_refl] by (simp add: tarLoad_def)

interpretation disk_kept: kernel_kept "others_are dev d0 k f" dev for dev d0 k f
proof unfold_locales
  fix s :: "'a proc_scheme" assume s: "others_are dev d0 k f s"
  have r: "ata_ready dev d0 k s" using s by (simp add: others_are_def)
  show "others_are dev d0 k f (tarLoad dev s)" "others_are dev d0 k f (tarFlush dev s)"
    using s tarLoad_disk(1) [OF r] tarLoad_sectors [OF r] tarFlush_disk(1) [OF r] tarFlush_others [OF r]
    by (simp_all add: others_are_def)
  have step: "others_are dev d0 k f t" if "drive_after d0 k (trace t) = drive_after d0 k (trace s)" for t :: "'a proc_scheme"
    using others_same [OF that] s by simp
  show "others_are dev d0 k f (outb p v s)" "others_are dev d0 k f (outw p w s)" if "p \<notin> {0x1F0..0x1F7}" for p v w
    by (rule step, use that in auto)+
  show "others_are dev d0 k f (writeChar c s)" "others_are dev d0 k f (clearScreen s)"
      "others_are dev d0 k f (keyboardHandler kdev s)" "others_are dev d0 k f (snd (getInput s))" for c kdev
    by (rule step; simp add: drive_clearScreen drive_keyboardHandler getInput_def)+
qed (simp_all add: others_are_def ata_ready_def ata_sector_def)

section \<open>The sectors through the start\<close>


section \<open>The machine\<close>












section \<open>Properties\<close>

text \<open>
  C7. The disk outside the archive is never written: in every state that the running system reaches - by lines of
  the shell, system calls of programs, keys and interrupts - the drive is idle again, and the boot sector, the
  image of the kernel and everything behind the archive hold what they held.
\<close>

theorem kernel_image_kept:
  assumes "ata_ready dev d0 k s" "reachable code dev callee s t" "\<not> archive_sector l"
  shows "ata_ready dev d0 k t \<and> ata_sector d0 k t l = ata_sector d0 k s l"
proof -
  have "others_are dev d0 k (ata_sector d0 k s) s" using assms(1) by (simp add: others_are_def)
  from disk_kept.P_reachable [OF assms(2) this] show ?thesis using assms(3) by (simp add: others_are_def)
qed





theorem kernel_image_kept_witness:
  "ata_sector ex_drive 2 (print ex_env ''/$ '' [] st_disk) 1 = ata_sector ex_drive 2 st_disk 1"
proof -
  have "reachable ex_code ex_dev ex_callee st_disk (print ex_env ''/$ '' [] st_disk)"
    by (rule reachable_step) (rule step_prompt)
  moreover have "\<not> archive_sector 1" by (simp add: archive_sector_def word_le_nat_alt)
  ultimately show ?thesis using kernel_image_kept [OF st_disk_facts(1)] by blast
qed


end
