(* ===== verification/Walks.thy ===== *)
theory Walks
  imports Tar_Disk
begin

text \<open>
  When the walks over the archive end. A walk that starts at the first header stays on multiples of 512, so
  there are 1024 places for a header in the buffer: a walk that has not stopped after that many steps has come
  back to a header and never stops. Whether it stops is decided by looking at 1025 headers.
\<close>

section \<open>Loops over finitely many states\<close>

text \<open>The states of a loop, and a loop that comes back.\<close>

lemma funpow_cycle:
  fixes f :: "'a \<Rightarrow> 'a"
  assumes "(f ^^ i) x = (f ^^ j) x" "i < j" "j \<le> n"
  shows "\<exists>m\<le>n. (f ^^ k) x = (f ^^ m) x"
proof (induction k rule: less_induct)
  case (less k)
  show ?case
  proof (cases "k \<le> n")
    case False
    let ?d = "k - j"
    have "(f ^^ k) x = (f ^^ ?d) ((f ^^ j) x)"
      using False assms(3) funpow_add [of ?d j f] by simp
    also have "\<dots> = (f ^^ (?d + i)) x" by (simp add: funpow_add assms(1) [symmetric])
    finally have "(f ^^ k) x = (f ^^ (?d + i)) x" .
    moreover have "?d + i < k" using assms(2,3) False by simp
    ultimately show ?thesis using less.IH by metis
  qed blast
qed

lemma while_option_steps:
  assumes "I s" "\<And>x. I x \<Longrightarrow> b x \<Longrightarrow> I (c x)" "finite {x. I x \<and> b x}" "card {x. I x \<and> b x} \<le> n"
  shows "while_option b c s = None \<longleftrightarrow> (\<forall>k\<le>n. b ((c ^^ k) s))"
proof
  assume "while_option b c s = None"
  then have "\<nexists>k. \<not> b ((c ^^ k) s)" unfolding while_option_def by (auto split: if_splits)
  then show "\<forall>k\<le>n. b ((c ^^ k) s)" by blast
next
  assume b: "\<forall>k\<le>n. b ((c ^^ k) s)"
  have I: "I ((c ^^ k) s)" if "k \<le> n" for k
    using that by (induction k) (auto simp: assms(1,2) b)
  let ?f = "\<lambda>k. (c ^^ k) s"
  have "?f ` {..n} \<subseteq> {x. I x \<and> b x}" using I b by auto
  from card_mono [OF assms(3) this] have "card (?f ` {..n}) \<le> n" using assms(4) by (rule order_trans)
  then have "\<not> inj_on ?f {..n}" using card_image [of ?f "{..n}"] by auto
  then obtain i j where ij: "?f i = ?f j" "i < j" "j \<le> n"
    unfolding inj_on_def by (metis atMost_iff linorder_neqE_nat)
  have "b ((c ^^ k) s)" for k using funpow_cycle [OF ij, of k] b by auto
  then show "while_option b c s = None" by (simp add: while_option_def)
qed

section \<open>The walk\<close>

lemma file_bytes_blocks: "512 dvd file_bytes buf p"
proof -
  let ?b = "ceilDiv (sint (header_size buf p)) 512 + 1"
  let ?w = "word_of_int (?b * 512) :: u32"
  have w: "?w = push_bit 9 (word_of_int ?b)" by (simp add: push_bit_eq_mult)
  have "take_bit 9 (sint ?w) = uint (take_bit 9 ?w)"
    by (rule bit_eqI) (auto simp: bit_simps w)
  also have "take_bit 9 ?w = 0" unfolding w by (simp only: take_bit_push_bit) simp
  also have "uint (0 :: u32) = 0" by simp
  finally have "sint ?w mod 512 = 0" by (simp add: take_bit_eq_mod)
  then show ?thesis by (simp add: file_bytes_def Let_def dvd_eq_mod_eq_0)
qed

lemma tarNext_blocks: "512 dvd cur \<Longrightarrow> 0 \<le> cur \<Longrightarrow> 512 dvd tarNext buf (nat cur)"
  using file_bytes_blocks by (simp add: tarNext_def)

text \<open>There are 1024 headers in the buffer.\<close>

lemma header_places:
  "finite {cur. 512 dvd cur \<and> header_in cur}" "card {cur. 512 dvd cur \<and> header_in cur} \<le> 1024"
proof -
  have "{cur. 512 dvd cur \<and> header_in cur} \<subseteq> (\<lambda>k. 512 * int k) ` {..<1024}"
  proof (rule subsetI, clarify)
    fix cur assume "512 dvd cur" "header_in cur"
    then obtain k where k: "cur = 512 * k" "0 \<le> k" "k < 1024" by (auto simp: header_in_def)
    then show "cur \<in> (\<lambda>k. 512 * int k) ` {..<1024}" by (intro image_eqI [where x = "nat k"]) auto
  qed
  note sub = this
  have fin: "finite ((\<lambda>k. 512 * int k) ` {..<1024 :: nat})" by simp
  show "finite {cur. 512 dvd cur \<and> header_in cur}" by (rule finite_subset [OF sub fin])
  have "card ((\<lambda>k. 512 * int k) ` {..<1024 :: nat}) \<le> card {..<1024 :: nat}" by (rule card_image_le) simp
  then show "card {cur. 512 dvd cur \<and> header_in cur} \<le> 1024"
    using card_mono [OF fin sub] by simp
qed

text \<open>The decision: does the walk stop within \<open>n\<close> headers?\<close>

fun walk_stops :: "nat \<Rightarrow> buffer \<Rightarrow> int \<Rightarrow> bool" where
  "walk_stops 0 buf cur \<longleftrightarrow> False"
| "walk_stops (Suc n) buf cur \<longleftrightarrow>
     (if header_in cur \<and> tarValid buf (nat cur) then walk_stops n buf (tarNext buf (nat cur)) else True)"

lemma walk_stops_iff:
  "walk_stops n buf cur \<longleftrightarrow>
     (\<exists>k<n. \<not> (header_in (((\<lambda>cur. tarNext buf (nat cur)) ^^ k) cur) \<and>
               tarValid buf (nat (((\<lambda>cur. tarNext buf (nat cur)) ^^ k) cur))))"
proof (induction n arbitrary: cur)
  case (Suc n)
  then show ?case by (simp add: Ex_less_Suc2 funpow_Suc_right del: funpow.simps(2))
qed simp

lemma walk_None:
  assumes "\<And>cur. b cur \<Longrightarrow> header_in cur" "512 dvd cur"
  shows "while_option b (\<lambda>cur. tarNext buf (nat cur)) cur = None \<longleftrightarrow>
    (\<forall>k\<le>1024. b (((\<lambda>cur. tarNext buf (nat cur)) ^^ k) cur))"
proof (rule while_option_steps [where I = "\<lambda>cur. 512 dvd cur"])
  have sub: "{x. 512 dvd x \<and> b x} \<subseteq> {x. 512 dvd x \<and> header_in x}" using assms(1) by auto
  show "finite {x. 512 dvd x \<and> b x}" by (rule finite_subset [OF sub header_places(1)])
  show "card {x. 512 dvd x \<and> b x} \<le> 1024"
    using card_mono [OF header_places(1) sub] header_places(2) by simp
  show "512 dvd tarNext buf (nat x)" if "512 dvd x" "b x" for x
    using tarNext_blocks that assms(1) [OF that(2)] by (simp add: header_in_def)
qed (rule assms(2))

lemma tarGetEnd_diverges: "tarGetEnd buf = Inl Diverges \<longleftrightarrow> \<not> walk_stops 1025 buf 0"
proof -
  let ?w = "while_option (\<lambda>cur. header_in cur \<and> tarValid buf (nat cur)) (\<lambda>cur. tarNext buf (nat cur)) 0"
  have "tarGetEnd buf = Inl Diverges \<longleftrightarrow> ?w = None" by (auto simp: tarGetEnd_def split: option.split)
  also have "\<dots> \<longleftrightarrow> \<not> walk_stops 1025 buf 0"
    unfolding walk_stops_iff by (subst walk_None) (auto simp: less_Suc_eq_le [symmetric])
  finally show ?thesis .
qed

text \<open>A search stops where the walk does, or before.\<close>

lemma strcmp_eq_returns: "strcmp_eq buf p cs \<noteq> Inl Diverges"
  by (induction cs arbitrary: p) auto

lemma tarFind_returns:
  assumes "walk_stops 1025 buf 0"
  shows "tarFind buf f \<noteq> Inl Diverges"
proof -
  let ?b = "\<lambda>cur. header_in cur \<and> tarValid buf (nat cur) \<and> strcmp_eq buf (nat cur) f = Inr False"
  have "while_option ?b (\<lambda>cur. tarNext buf (nat cur)) 0 \<noteq> None"
    using assms unfolding walk_stops_iff by (subst walk_None) (auto simp: less_Suc_eq_le [symmetric])
  then obtain cur where w: "while_option ?b (\<lambda>cur. tarNext buf (nat cur)) 0 = Some cur" by blast
  show ?thesis
    using strcmp_eq_returns [of buf "nat cur" f]
    by (cases "strcmp_eq buf (nat cur) f") (auto simp: tarFind_def w)
qed

lemma tarRead_returns: "walk_stops 1025 buf 0 \<Longrightarrow> tarRead buf f \<noteq> Inl Diverges"
  using tarFind_returns [of buf f] by (cases "tarFind buf f") (auto simp: tarRead_def split: option.split)

lemma tarRm_returns: "walk_stops 1025 buf 0 \<Longrightarrow> tarRm buf f \<noteq> Inl Diverges"
  using tarFind_returns [of buf f] tarRead_returns [of buf f]
  by (cases "tarFind buf f"; cases "tarRead buf f") (auto simp: tarRm_def tarReadFile_def Let_def split: option.splits if_splits)

lemma tarTouch_returns:
  assumes "walk_stops 1025 buf 0"
  shows "tarTouch buf f \<noteq> Inl Diverges"
proof -
  have "tarGetEnd buf \<noteq> Inl Diverges" using assms by (simp add: tarGetEnd_diverges del: walk_stops.simps)
  then show ?thesis
    using tarRead_returns [OF assms, of f]
    by (cases "tarRead buf f"; cases "tarGetEnd buf") (auto simp: tarTouch_def tarReadFile_def strcpy_to_def split: if_splits)
qed

text \<open>Headers whose sizes are small enough to move the walk forward.\<close>

lemma forward_stops:
  assumes "\<And>p. tarValid buf p \<Longrightarrow> 0 < file_bytes buf p"
  shows "tarGetEnd buf \<noteq> Inl Diverges"
proof -
  let ?b = "\<lambda>cur. header_in cur \<and> tarValid buf (nat cur)" and ?c = "\<lambda>cur. tarNext buf (nat cur)"
  have "\<exists>t. while_option ?b ?c 0 = Some t"
  proof (rule measure_while_option_Some [where P = "\<lambda>cur. True" and f = "\<lambda>cur. nat (int TAR_BUF_SIZE - cur)"])
    fix cur :: int assume b: "?b cur"
    have "cur < tarNext buf (nat cur)" using b assms [of "nat cur"] by (simp add: tarNext_def header_in_def)
    then show "True \<and> nat (int TAR_BUF_SIZE - tarNext buf (nat cur)) < nat (int TAR_BUF_SIZE - cur)"
      using b by (simp add: header_in_def)
  qed simp
  then show ?thesis by (auto simp: tarGetEnd_def split: option.split)
qed

section \<open>The listing\<close>

text \<open>A result that is no endless loop, and an operation on the state that also leaves the archive as it is.\<close>

definition returns :: "fault + 'a \<Rightarrow> bool" where
  "returns r \<longleftrightarrow> r \<noteq> Inl Diverges"

lemma returns_simps [simp]: "returns (Inr x)" "returns (Inl e) \<longleftrightarrow> e \<noteq> Diverges"
  by (simp_all add: returns_def)

lemma returns_bindR [intro]: "returns m \<Longrightarrow> (\<And>x. m = Inr x \<Longrightarrow> returns (f x)) \<Longrightarrow> returns (bindR m f)"
  by (cases m) (auto simp: returns_def)

definition archive_kept :: "'a tarfs_scheme \<Rightarrow> fault + 'a tarfs_scheme \<Rightarrow> bool" where
  "archive_kept s r \<longleftrightarrow> returns r \<and> (\<forall>t. r = Inr t \<longrightarrow> tarBuf t = tarBuf s)"

lemma archive_kept_bindR:
  assumes "archive_kept s m" "\<And>t. tarBuf t = tarBuf s \<Longrightarrow> archive_kept t (f t)"
  shows "archive_kept s (bindR m f)"
proof (cases m)
  case (Inl e)
  then show ?thesis using assms(1) by (simp add: archive_kept_def)
next
  case (Inr t)
  then have t: "tarBuf t = tarBuf s" using assms(1) by (simp add: archive_kept_def)
  from assms(2) [OF this] show ?thesis unfolding Inr bindR_simps archive_kept_def t .
qed

lemma vsfmtWrite_returns: "returns (vsfmtWrite fmt args)"
proof (induction "length fmt" arbitrary: fmt args rule: less_induct)
  case less
  have step: "returns (bindR (vsfmtWrite cs as) (\<lambda>x. Inr (g x)))" "returns (vsfmtWrite cs as)"
    if "length cs < length fmt" for cs as and g :: "u8 list \<Rightarrow> u8 list"
    using less [OF that, of as] by (cases "vsfmtWrite cs as"; simp)+
  show ?case
  proof (cases fmt)
    case (Cons c cs)
    obtain padChar width cs' where conv: "conversion cs = (padChar, width, cs')" by (cases "conversion cs") auto
    have rest: "length r < length fmt" if "cs' = d # r" for d r
      using conversion_shorter [of padChar width d r cs] conv that Cons by simp
    show ?thesis
      unfolding Cons vsfmtWrite.simps(2) conv Let_def
      using step rest Cons by (cases cs') (auto split: list.split fmt_arg.split)
  qed simp
qed

lemma fmtWrite_kept: "archive_kept s (fmtWrite fmt args s)"
  using vsfmtWrite_returns [of fmt args]
  by (cases "vsfmtWrite fmt args") (auto simp: archive_kept_def fmtWrite_def returns_def)

lemma cstr_at_returns: "returns (cstr_at buf p)"
proof (induction buf p rule: cstr_at.induct)
  case (1 buf p)
  have "returns (bindR m (\<lambda>x. Inr (g x)))" if "returns m" for m :: "fault + u8 list" and g :: "u8 list \<Rightarrow> u8 list"
    using that by (cases m) simp_all
  then show ?case using 1 by (simp add: cstr_at.simps [of buf p])
qed

lemma archive_kept_read: "returns m \<Longrightarrow> (\<And>x. archive_kept s (f x)) \<Longrightarrow> archive_kept s (bindR m f)"
  by (cases m) (auto simp: archive_kept_def returns_def)

lemma list_entry_kept: "archive_kept s (list_entry long p s)"
proof -
  have sub: "returns (is_subfile buf q name)" for buf q name by (simp add: is_subfile_def)
  have same: "archive_kept s (Inr s)" by (simp add: archive_kept_def)
  show ?thesis
    unfolding list_entry_def Let_def
    by (rule archive_kept_read [OF cstr_at_returns], rule archive_kept_read [OF sub])
      (simp add: same fmtWrite_kept archive_kept_bindR del: bytes_simps)
qed

lemma list_walk_returns:
  assumes "walk_stops n (tarBuf s) cur"
  shows "\<exists>r. while_option
       (\<lambda>r. case r of Inl e \<Rightarrow> False | Inr (cur, t) \<Rightarrow> header_in cur \<and> tarValid (tarBuf t) (nat cur))
       (\<lambda>r. bindR r (\<lambda>(cur, t). bindR (list_entry long (nat cur) t)
              (\<lambda>t'. Inr (tarNext (tarBuf t') (nat cur), t'))))
       (Inr (cur, s)) = Some r \<and> returns r"
  using assms
proof (induction n arbitrary: cur s)
  case (Suc n)
  have kept: "archive_kept s (list_entry long (nat cur) s)" by (rule list_entry_kept)
  show ?case
  proof (cases "header_in cur \<and> tarValid (tarBuf s) (nat cur)")
    case True
    show ?thesis
    proof (cases "list_entry long (nat cur) s")
      case (Inl e)
      then show ?thesis
        using True kept by (subst while_option_unfold, subst while_option_unfold) (simp add: archive_kept_def)
    next
      case (Inr t)
      then have "tarBuf t = tarBuf s" using kept by (simp add: archive_kept_def)
      then show ?thesis
        using True Suc.IH [of t "tarNext (tarBuf t) (nat cur)"] Suc.prems Inr
        by (subst while_option_unfold) simp
    qed
  next
    case False
    then show ?thesis by (subst while_option_unfold) auto
  qed
qed simp

lemma tarList_returns:
  assumes "walk_stops 1025 (tarBuf s) 0"
  shows "tarList flag s \<noteq> Inl Diverges"
proof -
  let ?title = "bindR (fmtWrite (bytes ''Directory listing of /\<newline>'') [] s) (\<lambda>s1.
      bindR (fmtWrite (bytes ''type  size      lastModify             name\<newline>'') [] s1) (\<lambda>s2.
      fmtWrite (bytes ''===== ========= ====================== =================='') [] s2))"
  have title: "archive_kept s ?title" by (intro archive_kept_bindR fmtWrite_kept)
  have same: "archive_kept s (Inr s)" by (simp add: archive_kept_def)
  have "returns (tarList flag s)"
    unfolding tarList_def Let_def
  proof (rule returns_bindR)
    show "returns (if flag = bytes ''-l'' then ?title else Inr s)" using title by (simp add: archive_kept_def)
    fix s0 assume s0: "(if flag = bytes ''-l'' then ?title else Inr s) = Inr s0"
    have "archive_kept s (if flag = bytes ''-l'' then ?title else Inr s)" using title same by simp
    then have t: "tarBuf s0 = tarBuf s" unfolding s0 by (simp add: archive_kept_def)
    obtain r where r: "while_option
       (\<lambda>r. case r of Inl e \<Rightarrow> False | Inr (cur, t) \<Rightarrow> header_in cur \<and> tarValid (tarBuf t) (nat cur))
       (\<lambda>r. bindR r (\<lambda>(cur, t). bindR (list_entry (flag = bytes ''-l'') (nat cur) t)
              (\<lambda>t'. Inr (tarNext (tarBuf t') (nat cur), t'))))
       (Inr (0, s0)) = Some r" "returns r"
      using list_walk_returns [of 1025 s0 0 "flag = bytes ''-l''"] assms unfolding t by blast
    show "returns (case while_option
           (\<lambda>r. case r of Inl e \<Rightarrow> False | Inr (cur, t) \<Rightarrow> header_in cur \<and> tarValid (tarBuf t) (nat cur))
           (\<lambda>r. bindR r (\<lambda>(cur, t). bindR (list_entry (flag = bytes ''-l'') (nat cur) t)
                  (\<lambda>t'. Inr (tarNext (tarBuf t') (nat cur), t'))))
           (Inr (0, s0)) of
         None \<Rightarrow> Inl Diverges
       | Some r \<Rightarrow> bindR r (\<lambda>(cur, t). if header_in cur then Inr t else Inl OutOfBounds))"
      unfolding r(1) option.case using r(2) by (cases r) auto
  qed
  then show ?thesis by (simp add: returns_def)
qed

end
