(* ===== verification/Listing.thy ===== *)
theory Listing
  imports Idt
begin

text \<open>
  The long listing of \<open>tarList\<close> (\<open>ls -l\<close>): what it prints for an archive, from the headers as they are in the
  buffer. The conversions \<open>%8d\<close>, \<open>%02d\<close> and \<open>%04d\<close> of the formatter pad on the left.
\<close>

section \<open>Padding\<close>

definition pad :: "u8 \<Rightarrow> nat \<Rightarrow> u8 list \<Rightarrow> u8 list" where
  "pad c w txt = replicate (w - length txt) c @ txt"

lemma vsfmtWrite_wide:
  "vsfmtWrite (37 # 56 # 100 # cs) (ArgInt n # args) =
     bindR (vsfmtWrite cs args) (\<lambda>out. Inr (pad 32 8 (intToStr n) @ out))"
  "vsfmtWrite (37 # 48 # 50 # 100 # cs) (ArgInt n # args) =
     bindR (vsfmtWrite cs args) (\<lambda>out. Inr (pad 48 2 (intToStr n) @ out))"
  "vsfmtWrite (37 # 48 # 52 # 100 # cs) (ArgInt n # args) =
     bindR (vsfmtWrite cs args) (\<lambda>out. Inr (pad 48 4 (intToStr n) @ out))"
  by (simp_all add: vsfmtWrite.simps(2) conversion_def is_digit_def pad_def Let_def)

lemma cstring_pad: "c \<noteq> 0 \<Longrightarrow> cstring txt \<Longrightarrow> cstring (pad c w txt)"
  by (auto simp: pad_def cstring_def)

lemma length_pad: "length (pad c w txt) = max w (length txt)"
  by (simp add: pad_def)

section \<open>One line\<close>

definition number :: "nat \<Rightarrow> u8 list" where
  "number n = intToStr (of_nat n)"

definition date_text :: "Datetime \<Rightarrow> u8 list" where
  "date_text dt =
     pad 48 2 (number (month dt)) @ bytes ''-'' @ pad 48 2 (number (day dt)) @ bytes ''-'' @ pad 48 4 (number (year dt)) @
     bytes '' at '' @ pad 48 2 (number (hour dt)) @ bytes '':'' @ pad 48 2 (number (minute dt)) @ bytes '':'' @
     pad 48 2 (number (second dt))"

definition long_line :: "buffer \<Rightarrow> nat \<Rightarrow> tar_file \<Rightarrow> u8 list" where
  "long_line buf p e =
     (if visible (fst e)
      then bytes ''\<newline>'' @ type_text (buf (p + AT_TYPE)) @ bytes ''   '' @
           pad 32 8 (intToStr (of_nat (length (snd e)))) @ bytes '' '' @
           date_text (unix2date (oct2bin (field buf (p + AT_TIME) 11))) @ bytes '' '' @ fst e
      else [])"

lemma long_format:
  assumes "cstring name"
  shows "vsfmtWrite (bytes ''   %8d %02d-%02d-%04d at %02d:%02d:%02d %s'')
      [ArgInt sz, int_arg mo, int_arg d, int_arg y, int_arg h, int_arg mi, int_arg se, ArgStr name] =
    Inr (bytes ''   '' @ pad 32 8 (intToStr sz) @ bytes '' '' @ pad 48 2 (number mo) @ bytes ''-'' @ pad 48 2 (number d) @
      bytes ''-'' @ pad 48 4 (number y) @ bytes '' at '' @ pad 48 2 (number h) @ bytes '':'' @ pad 48 2 (number mi) @
      bytes '':'' @ pad 48 2 (number se) @ bytes '' '' @ name)"
  using assms by (simp add: vsfmtWrite_char vsfmtWrite_wide vsfmtWrite_s int_arg_def number_def)

lemma type_text_literal:
  "vsfmtWrite (type_text t) [] = Inr (type_text t)" "length (type_text t) = 4" "cstring (type_text t)"
  by (simp_all add: type_text_def vsfmtWrite_char)

lemma list_entry_long:
  assumes "entry_at (tarBuf s) p e" "fst e \<noteq> []"
  shows "list_entry True p s = Inr (writeStr (long_line (tarBuf s) p e) s) \<and> cstring (long_line (tarBuf s) p e)"
proof -
  let ?dt = "unix2date (oct2bin (field (tarBuf s) (p + AT_TIME) 11))"
  have n: "cstr_at (tarBuf s) p = Inr (fst e)"
    using assms(1) span_bounds(3) [of "length (snd e)"] by (intro cstr_at_field) (auto simp: entry_at_def)
  have name: "cstring (fst e)" "length (fst e) < 100" "header_size (tarBuf s) p = of_nat (length (snd e))"
    using assms(1) by (simp_all add: entry_at_def)
  have num: "length (intToStr k) \<le> 11" for k by (rule intToStr_length)
  let ?line = "bytes ''   '' @ pad 32 8 (intToStr (of_nat (length (snd e)))) @ bytes '' '' @ date_text ?dt @ bytes '' '' @ fst e"
  have len: "length ?line < 256"
    using name(2) num [of "of_nat (length (snd e))"] num [of "of_nat (month ?dt)"] num [of "of_nat (day ?dt)"]
      num [of "of_nat (year ?dt)"] num [of "of_nat (hour ?dt)"] num [of "of_nat (minute ?dt)"] num [of "of_nat (second ?dt)"]
    by (simp add: length_pad date_text_def number_def)
  have fmt: "fmtWrite (bytes ''   %8d %02d-%02d-%04d at %02d:%02d:%02d %s'')
      [ArgInt (header_size (tarBuf s) p), int_arg (month ?dt), int_arg (day ?dt), int_arg (year ?dt), int_arg (hour ?dt),
       int_arg (minute ?dt), int_arg (second ?dt), ArgStr (fst e)] t = Inr (writeStr ?line t)" for t :: "'a tarfs_scheme"
    by (rule fmtWrite_ok [OF _ len]) (simp add: long_format [OF name(1)] name(3) date_text_def del: bytes_simps)
  have nl: "fmtWrite (bytes ''\<newline>'') [] t = Inr (writeStr (bytes ''\<newline>'') t)" for t :: "'a tarfs_scheme"
    by (rule fmtWrite_ok) (simp_all add: vsfmtWrite_char)
  have ty: "fmtWrite (type_text c) [] t = Inr (writeStr (type_text c) t)" for c and t :: "'a tarfs_scheme"
    by (rule fmtWrite_ok) (simp_all add: type_text_literal)
  have cs: "cstring ?line"
    using name(1) by (simp add: date_text_def number_def cstring_pad cstring_intToStr)
  define line where "line = ?line"
  note opaque = line_def [symmetric]
  have long: "long_line (tarBuf s) p e =
      (if visible (fst e) then bytes ''\<newline>'' @ type_text (tarBuf s (p + AT_TYPE)) @ line else [])"
    by (simp add: long_line_def line_def)
  have "list_entry True p s = Inr (if visible (fst e)
      then writeStr line (writeStr (type_text (tarBuf s (p + AT_TYPE))) (writeStr (bytes ''\<newline>'') s)) else s)"
    using n assms(2) by (simp add: list_entry_def is_subfile_def Let_def nl ty fmt [unfolded opaque] visible_def del: bytes_simps)
  moreover have "cstring (bytes ''\<newline>'')" by simp
  ultimately show ?thesis
    using cs by (simp add: long opaque writeStr_append type_text_literal del: bytes_simps)
qed

section \<open>The listing\<close>

definition long_title :: "u8 list" where
  "long_title = bytes ''Directory listing of /\<newline>'' @ bytes ''type  size      lastModify             name\<newline>'' @
     bytes ''===== ========= ====================== ==================''"

lemma tarList_long:
  assumes "archive (tarBuf s) es" "\<forall>e\<in>set es. fst e \<noteq> []"
  shows "tarList (bytes ''-l'') s = Inr (writeStr (long_title @ listing_of (long_line (tarBuf s)) 0 es) s)"
proof -
  have lit: "fmtWrite (bytes w) [] t = Inr (writeStr (bytes w) t)"
    if "list_all (\<lambda>c. c \<noteq> 0 \<and> c \<noteq> 37) (bytes w)" "length w < 256" for w and t :: "'a tarfs_scheme"
    using that by (intro fmtWrite_ok vsfmtWrite_only_text) simp_all
  let ?a = "bytes ''Directory listing of /\<newline>''" and ?b = "bytes ''type  size      lastModify             name\<newline>''"
    and ?c = "bytes ''===== ========= ====================== ==================''"
  let ?t = "writeStr long_title s"
  have parts: "fmtWrite ?a [] t = Inr (writeStr ?a t)" "fmtWrite ?b [] t = Inr (writeStr ?b t)"
      "fmtWrite ?c [] t = Inr (writeStr ?c t)" for t :: "'a tarfs_scheme"
    by (rule lit; simp)+
  have cs: "cstring ?a" "cstring ?b" "cstring ?c" by simp_all
  have title: "bindR (fmtWrite ?a [] s) (\<lambda>s1. bindR (fmtWrite ?b [] s1) (\<lambda>s2. fmtWrite ?c [] s2)) = Inr ?t"
    by (simp only: parts bindR_simps long_title_def writeStr_append cs)
  have t: "tarBuf ?t = tarBuf s" by simp
  have entry: "list_entry True p u = Inr (writeStr (long_line (tarBuf ?t) p e) u) \<and> cstring (long_line (tarBuf ?t) p e)"
    if "tarBuf u = tarBuf ?t" "entry_at (tarBuf ?t) p e" "fst e \<noteq> []" for p e u
    using list_entry_long [of u p e] that by simp
  have "entries_at (tarBuf ?t) 0 es" "zero_from (tarBuf ?t) (end_of 0 es)" using assms(1) by (simp_all add: archive_def)
  from tarList_walk [OF this assms(2) entry]
  have "tarList (bytes ''-l'') s = Inr (writeStr (listing_of (long_line (tarBuf ?t)) 0 es) ?t)"
    using assms(1) zero_from_end [of "tarBuf s" "end_of 0 es"]
    by (simp add: tarList_def title archive_def del: bytes_simps)
  moreover have "cstring long_title" by (simp only: long_title_def cstring_simps cs simp_thms)
  ultimately show ?thesis by (simp add: writeStr_append)
qed

end
