(* ===== verification/Dates.thy ===== *)
theory Dates
  imports Tar_Numbers "HOL-Library.Product_Lexorder"
begin

text \<open>
  Dates in their order: first the year, then the month, down to the seconds. The order makes the dates a
  \<open>linorder\<close> of the library, and \<open>unix2date\<close> (src/ustar.c) keeps it: a later time has a later date.
\<close>

section \<open>The order of dates\<close>

definition date_key :: "('a :: linorder) Datetime_ext \<Rightarrow> nat \<times> nat \<times> nat \<times> nat \<times> nat \<times> nat \<times> 'a" where
  "date_key dt = (year dt, month dt, day dt, hour dt, minute dt, second dt, Datetime.more dt)"

lemma date_key_inj: "date_key x = date_key y \<longleftrightarrow> x = y"
  by (cases x; cases y) (auto simp: date_key_def)

instantiation Datetime_ext :: (linorder) linorder
begin

definition less_eq_Datetime_ext :: "'a Datetime_ext \<Rightarrow> 'a Datetime_ext \<Rightarrow> bool" where
  "x \<le> y \<longleftrightarrow> date_key x \<le> date_key y"

definition less_Datetime_ext :: "'a Datetime_ext \<Rightarrow> 'a Datetime_ext \<Rightarrow> bool" where
  "x < y \<longleftrightarrow> date_key x < date_key y"

instance
  by intro_classes
    (auto simp: less_eq_Datetime_ext_def less_Datetime_ext_def date_key_inj [symmetric])

end

section \<open>Seconds are counted in that order\<close>

lemma days_before_year_mono: "1970 \<le> y \<Longrightarrow> y < y' \<Longrightarrow> days_before_year (Suc y) \<le> days_before_year y'"
proof (induction y')
  case (Suc y')
  then show ?case by (cases "y = y'") auto
qed simp

lemma days_before_month_mono: "m < m' \<Longrightarrow> days_before_month leap (Suc m) \<le> days_before_month leap m'"
proof (induction m')
  case (Suc m')
  then show ?case by (cases "m = m'") auto
qed simp

text \<open>The days since 1970 and the seconds of the day.\<close>

definition day_number :: "Datetime \<Rightarrow> nat" where
  "day_number dt =
     days_before_year (year dt) + days_before_month (leap_year (year dt)) (month dt - 1) + (day dt - 1)"

lemma day_number_year:
  assumes "valid_date dt"
  shows "day_number dt < days_before_year (Suc (year dt))"
proof -
  let ?l = "leap_year (year dt)"
  have v: "1970 \<le> year dt" "month dt - 1 < 12" "day dt - 1 < days_in_month ?l (month dt - 1)"
    using assms by (auto simp: valid_date_def)
  have "days_before_month ?l (month dt - 1) + (day dt - 1) < days_before_month ?l (Suc (month dt - 1))"
    using v(3) by simp
  also have "\<dots> \<le> days_before_month ?l 12" using v(2) by (rule days_before_month_mono)
  finally show ?thesis using v(1) by (simp add: day_number_def days_of_the_months days_in_year_def)
qed

lemma day_number_less:
  assumes "valid_date dt" "valid_date du" "(year dt, month dt, day dt) < (year du, month du, day du)"
  shows "day_number dt < day_number du"
proof (cases "year dt < year du")
  case True
  have "1970 \<le> year dt" using assms(1) by (simp add: valid_date_def)
  then have "days_before_year (Suc (year dt)) \<le> days_before_year (year du)"
    using True by (rule days_before_year_mono)
  then show ?thesis using day_number_year [OF assms(1)] by (simp add: day_number_def)
next
  case False
  then have y: "year du = year dt" "month dt < month du \<or> month dt = month du \<and> day dt < day du"
    using assms(3) by auto
  have v: "1 \<le> month dt" "1 \<le> day dt" "day dt \<le> days_in_month (leap_year (year dt)) (month dt - 1)"
    using assms(1) by (simp_all add: valid_date_def)
  show ?thesis
  proof (cases "month dt < month du")
    case True
    let ?l = "leap_year (year dt)"
    have "days_before_month ?l (month dt - 1) + (day dt - 1) < days_before_month ?l (Suc (month dt - 1))"
      using v(2,3) by simp
    also have "\<dots> \<le> days_before_month ?l (month du - 1)"
      using True v(1) by (intro days_before_month_mono) simp
    finally show ?thesis by (simp add: day_number_def y(1))
  qed (use y(2) v(2) in \<open>auto simp: day_number_def y(1)\<close>)
qed

lemma date_seconds_day:
  "date_seconds dt = day_number dt * 86400 + (hour dt * 3600 + minute dt * 60 + second dt)"
  by (simp add: date_seconds_def day_number_def algebra_simps)

lemma date_seconds_less:
  assumes "valid_date dt" "valid_date du" "dt < du"
  shows "date_seconds dt < date_seconds du"
proof (cases "(year dt, month dt, day dt) < (year du, month du, day du)")
  case True
  from day_number_less [OF assms(1,2) this] have "day_number dt * 86400 + 86400 \<le> day_number du * 86400" by simp
  moreover have "hour dt * 3600 + minute dt * 60 + second dt < 86400"
    using assms(1) by (simp add: valid_date_def)
  ultimately show ?thesis by (simp add: date_seconds_day)
next
  case False
  have eq: "(year dt, month dt, day dt) = (year du, month du, day du)"
    using assms(3) False by (auto simp: less_Datetime_ext_def date_key_def)
  then have "(hour dt, minute dt, second dt) < (hour du, minute du, second du)"
    using assms(3) by (auto simp: less_Datetime_ext_def date_key_def)
  then have "hour dt * 3600 + minute dt * 60 + second dt < hour du * 3600 + minute du * 60 + second du"
    using assms(1,2) by (auto simp: valid_date_def)
  moreover have "day_number dt = day_number du" using eq by (simp add: day_number_def)
  ultimately show ?thesis by (simp add: date_seconds_day)
qed

lemma unix2date_mono: "unix2date t \<le> unix2date u \<longleftrightarrow> t \<le> u"
proof -
  have less: "t < u" if "unix2date t < unix2date u" for t u
    using date_seconds_less [OF _ _ that] unix2date_spec [of t] unix2date_spec [of u]
    by (simp add: word_less_nat_alt)
  have "t \<le> u" if "unix2date t \<le> unix2date u"
  proof (cases "unix2date t = unix2date u")
    case True
    then have "unat t = unat u" using unix2date_spec [of t] unix2date_spec [of u] by metis
    then show ?thesis by (simp add: word_le_nat_alt)
  qed (use that less [of t u] in \<open>simp add: order_le_less\<close>)
  moreover have "unix2date t \<le> unix2date u" if "t \<le> u"
  proof (rule ccontr)
    assume "\<not> unix2date t \<le> unix2date u"
    then have "u < t" by (intro less) simp
    with that show False by simp
  qed
  ultimately show ?thesis by blast
qed

end
