(* ===== verification/Spec2Isabelle.thy ===== *)
theory Spec2Isabelle
  imports Fd_Model Interleaving Races Served Power_Cycle Walks Listing Dates
begin

text \<open>
  LanternOS is a small kernel for 32 bit PCs: it starts in src/src/kernel.c, sets up its interrupt and
  segment tables, reads a tar archive from an ATA disk into memory, and runs a shell on the text screen.
  The shell works on the files of the archive and starts ELF programs, which call the kernel through
  interrupt 0x80. This library is a model of the C code of the kernel with the theorems that say what
  the code does. Paths below are relative to the root of the repository.

  The parts, in the order of the theories:

  \<^item> Lantern_Prelude: the C integer types as words, the bytes of string literals, the result type
    \<open>fault + 'a\<close> (\<open>OutOfBounds\<close> when code leaves its arrays, \<open>BadPointer\<close> when it follows a pointer
    that was never set, \<open>Diverges\<close> for a loop that does not end, \<open>Blocked\<close> for a loop that still waits
    for a key), \<open>bindR\<close>, counted loops (\<open>for_to\<close>), and the interface \<open>keeps_invariant\<close>.
  \<^item> Port_IO (include/io.h): \<open>outb\<close>, \<open>inb\<close>, \<open>outw\<close>, \<open>inw\<close> over a history of port accesses. The hardware
    is the parameter \<open>dev\<close>, which answers a read from the history.
  \<^item> Console (src/io.c): text page, cursor and colour; \<open>writeChar\<close>, \<open>writeStr\<close>, \<open>scroll\<close>,
    \<open>clearScreen\<close> and the cursor registers. An abstract terminal (\<open>term_put\<close>) is what they implement.
  \<^item> Keyboard (src/io.c): scancode tables, \<open>keyboardHandler\<close> and \<open>getInput\<close> over the ring buffer, which
    implements the interface \<open>key_queue\<close>.
  \<^item> Format (src/io.c): \<open>atoi\<close>, the number texts, the formatter \<open>vsfmtWrite\<close>, the scanner \<open>vsfmtGet\<close>, and
    the line editor \<open>fmtGet\<close>.
  \<^item> Ata (src/ata.c): the PIO driver. The documented behaviour of a drive is a state machine over the port
    history (\<open>drive_step\<close>, \<open>ata_drive\<close>); over every device that behaves so the driver implements the
    interface \<open>sector_store\<close>. \<open>pio_drive\<close> is such a device.
  \<^item> Tar_Numbers, Ustar, Archive, Tar_Disk (src/ustar.c): the octal fields and the calendar; the
    operations on the archive in \<open>tarBuf\<close>, with a header pointer as an offset; what a well-formed archive
    is (\<open>archive buf es\<close>: the buffer holds the files \<open>es\<close> and then zeros), the interface \<open>file_store\<close> and
    its interpretation; \<open>tarLoad\<close> and \<open>tarFlush\<close> against the drive, the listing and the printing of files.
    Dates has the order of the calendar, Walks decides when the walks over the headers end (\<open>walk_stops\<close>), and
    Listing is what \<open>ls -l\<close> prints.
  \<^item> Fd (src/fd.c): the table of eight open files; an open file is a \<open>byte_source\<close>.
  \<^item> Gdt (src/gdt.c), Idt (src/idt.c): the descriptor tables as the processor reads them, PIC and timer
    programming, the interrupt dispatcher and the panic screen.
  \<^item> Kmem (src/mem.c), Sys (src/sys.c): the kernel heap; memory size, reboot and shutdown.
  \<^item> Syscalls (src/syscalls.c, src/int80.asm, apps/user_syscalls.c): standard input, the macros that
    unpack the arguments, the system calls with their table and dispatcher, the entry stub, and the calls on the
    program's side.
  \<^item> Binary (src/binary.c): the ELF loader. Shell (src/sh.c, src/kernel.c): the tokenizer, the commands, one
    turn of the shell loop (\<open>sh_turn\<close>), and the start of the kernel (\<open>kmain\<close>).
  \<^item> Kernel_Runs: lemmas on system calls and shell commands that run through several parts. Examples: the
    archive, the drive and the states on which the theorems are tried.
  \<^item> Simulation: the interface \<open>simulation\<close> - an operation, its specification, the calls that are admissible,
    the relation of the states - with the run of a list of calls. Three parts have such a specification:
    Fd_Model (src/fd.c: files with positions, \<open>fd_spec\<close>), Session (src/sh.c: what a line does to the files
    in memory, the files on the disk and the screen, \<open>line_spec\<close>, under the conditions \<open>line_ok\<close>), and User_Calls
    (src/syscalls.c: what a program sees of files, memory, screen and heap, \<open>user_spec\<close>).
  \<^item> Stubs (src/interrupts.asm, src/int80.asm): the processor with its stack, the gates, the entry stubs of all
    interrupts, \<open>sendInterrupt\<close>, \<open>userPanic\<close> and the entry of system calls.
  \<^item> Reachable: the running system as a step relation (\<open>kernel_step\<close>: turns of the shell, prompts, characters
    read, system calls, interrupts), and what every operation keeps as interfaces: \<open>shell_kept\<close> for
    the lines of a session, \<open>kernel_kept\<close> for all steps and a property
    that may speak of the drive, \<open>kernel_property\<close>, which gives it, for one that does not look at the ports.
  \<^item> Boot (src/kernel.c): what \<open>kmain\<close> leaves behind, and the kernel from there through a session.
  \<^item> Handoff (bl/bootloader.asm, src/boot.asm, src/gdt_flush.asm, src/tss_flush.asm): the boot sector over a
    BIOS, the memory map it passes, the entry of the kernel, and the loading of the tables with the checks of the
    processor; \<open>initIdt_loads\<close> and \<open>initGdt_loads\<close> put these loads at the ends of \<open>initIdt\<close> and \<open>initGdt\<close>.
  \<^item> Interleaving (src/ata.c, src/ustar.c): the transfers once more as programs of port accesses, and their runs
    with interrupts in between (\<open>interleaved\<close>).
  \<^item> Statements, Races (src/io.c): operations as sequences of loads and stores of shared variables, and their runs
    with interrupts between any two (\<open>interrupted\<close>), with rules for assertions that every interrupt keeps;
    \<open>getInput\<close> and \<open>writeChar\<close>, which share the ring buffer, the cursor and the page with the keyboard interrupt.
  \<^item> Program (src/ring3.asm, include/api.h, apps/app_stub.c, apps/hello.c and the streams of src/syscalls.c):
    entering ring 3, the function table, and a program from its start to its \<open>exit\<close>.
  \<^item> Loader (src/binary.c): what an executable file means (\<open>elf_executable\<close>, \<open>program_image\<close>), that \<open>loadBinary\<close> makes it
    so, and the line of the shell that starts it. Served goes on with the system calls of the program (\<open>started_view\<close>).
  \<^item> Power_Cycle: the boot sector, \<open>kmain\<close> and a session as one run (\<open>power_on\<close>) over a BIOS that reads the drive the kernel
    uses (\<open>firmware\<close>), the sectors that are never written, and the next start.

  The state is one chain of records, each part adding its variables to those of the parts it calls:
  \<open>machine\<close>, \<open>console\<close>, \<open>keyboard\<close>, \<open>tarfs\<close>, \<open>files\<close>, \<open>descs\<close>, \<open>traps\<close>, \<open>proc\<close>. An operation is
  polymorphic in the rest of the chain, so a caller uses it on its own state. The registers and the stack of
  the processor are the record \<open>cpu\<close> of Stubs, next to that state; its table registers are \<open>sysregs\<close> of
  Handoff. The bits by which the processor marks a descriptor as accessed or busy are in Handoff only: Boot and
  Reachable speak of the descriptors as the code writes them.

  The properties of the program are numbered C1 to C40, the most comprehensive first. C1 to C17 are about the
  kernel as a whole and its specifications: the machine from power on to power off and on again (C1, in Power_Cycle),
  the shell (C2, C5), the system calls of a program (C3), the descriptor table (C4, C14), what holds in every
  reachable state (C6, and C7 for the disk), the start (C8, C9), operations that are interrupted (C10 to C12), the
  walks over the archive (C13), and programs: C15 (Loader) from the line of the shell to the first instruction,
  C16 (Served) on to the effect of the system calls, C17 the run of one of them to its end. But for C13 they stand
  in Power_Cycle, Boot, Handoff, Session, User_Calls, Fd_Model, Reachable, Interleaving, Races, Loader, Served and
  Program. C18 (Handoff) is the loading of the tables; C27 to C29, C37 and C38 (Stubs, Program) are about the way
  into the kernel and out of it. The others stand below: archive and disk (C19 to C23), screen, keyboard and line
  editor (C24 to C26), standard input (C30), and text, numbers, dates and panic screen (C31 to C35). C36 to C40 state
  what the code does where that differs from its intent: C36 (Races) is the backspace that leaves the text page,
  C37 the gate that leaves a program, and the shell after it, without a keyboard, C39 why \<open>cat >\<close> and \<open>echo >\<close>
  lose their data, C40 what a descriptor reads after the archive has moved; C3 includes that the entry stub
  restores EAX over the result of every call. Theorems without a number are consequences for single commands
  and further boundary cases.

  Loops and bounds. Loops with a counter are folds or structural recursions. The walks over the headers of
  the archive and the wait of \<open>reboot\<close> need not end: they are \<open>while_option\<close>, whose \<open>None\<close> is \<open>Diverges\<close>;
  on a well-formed archive the walks are proved to return (C19 to C21), and C13 decides for every buffer whether
  they do: 1025 steps are enough, because there are 1024 places for a header. The loops that wait for a key take a schedule, the number of keyboard interrupts before each poll;
  when it is used up the result is \<open>Blocked\<close>, and C26 and C30 give a schedule that is enough for each line.
  The polls of the driver count down from the code's 10000; \<open>ata_ready\<close> asks of a drive that it is busy for
  fewer. The kernel is built without optimisation, so signed overflow is the wrap-around of the machine.

  Parameters: the hardware \<open>dev\<close>; the services of the BIOS (\<open>bios\<close>); what picolibc supplies (\<open>libc\<close>, \<open>sh_printf\<close>, and the text a \<open>scanf\<close>
  stored); addresses that the linker sets (\<open>code\<close> says which stub lies where); the processor's CPUID; what the
  compiled C function of an interrupt leaves in the registers it may spoil (\<open>callee\<close>, with \<open>cdecl\<close>); and, in
  Shell alone, raising an interrupt from C (\<open>trap\<close>), for which Reachable and Boot put \<open>shell_trap\<close>.

  Not modelled: picolibc, the switch of the processor mode in the boot sector beyond the segments it leaves, the
  timing of delay loops, interrupts between two statements of an operation other than at the polls for a key, in
  the transfers of Interleaving and in the operations of Races, and the unreachable end of \<open>kmain\<close>. The memory of programs (\<open>umem\<close>) and the
  text page are kept apart from the kernel's own arrays, and a pointer argument of a system call is taken to lie in
  the former; the theorem \<open>image_covers_programs\<close> says where the linked image reaches. A shell token that the line
  does not have is \<open>BadPointer\<close>, also where the code would find the pointer of an earlier line.
\<close>

section \<open>The archive\<close>

text \<open>
  C19. In a well-formed archive \<open>tarRead\<close> finds exactly the files that are there: the first of the
  name, with its length and the place of its bytes, and -1 for every other name.
\<close>

theorem tarRead_finds:
  assumes "archive buf es" "cstring f"
  shows "case map_of es f of
      None \<Rightarrow> tarRead buf f = Inr (- 1, None)
    | Some d \<Rightarrow> \<exists>q. tarRead buf f = Inr (of_nat (length d), Some q) \<and> field buf q (length d) = d \<and>
        q + length d \<le> TAR_BUF_SIZE"
  using tarRead_archive [OF assms] by (simp split: option.split)

theorem tarRead_finds_witness:
  "\<exists>q. tarRead ex_buf (bytes ''a'') = Inr (5, Some q) \<and>
     field ex_buf q (length (bytes ''hello'')) = bytes ''hello'' \<and> q + 5 \<le> TAR_BUF_SIZE"
  using tarRead_finds [OF ex_archive, of "bytes ''a''"] ex_files_facts(1) by simp

text \<open>
  C20. \<open>tarTouch\<close> appends an empty file: when the name is new and shorter than its field, and two
  sectors are left, the buffer afterwards holds the old files and then the new one.
\<close>

theorem tarTouch_appends:
  assumes "archive buf es" "map_of es f = None" "cstring f" "length f < 100"
    "end_of 0 es + 1024 \<le> TAR_BUF_SIZE"
  shows "\<exists>buf'. tarTouch buf f = Inr (1, buf') \<and> archive buf' (es @ [(f, [])])"
  by (rule tarTouch_archive [OF assms])

theorem tarTouch_appends_witness:
  "\<exists>buf'. tarTouch ex_buf (bytes ''c'') = Inr (1, buf') \<and> archive buf' (ex_files @ [(bytes ''c'', [])])"
  using tarTouch_appends [OF ex_archive ex_files_facts(3)] ex_files_facts(5) by simp

text \<open>
  C21. \<open>tarRm\<close> deletes the first file of the name: the files behind it move down over its header and
  sectors, in their order, and zeros follow the last one.
\<close>

theorem tarRm_deletes:
  assumes "archive buf es" "cstring f" "map_of es f = Some d"
  shows "\<exists>buf'. tarRm buf f = Inr (1, buf') \<and> archive buf' (remove_file f es)"
  by (rule tarRm_archive [OF assms])

theorem tarRm_deletes_witness:
  "\<exists>buf'. tarRm ex_buf (bytes ''a'') = Inr (1, buf') \<and> archive buf' [file_b]"
  using tarRm_deletes [OF ex_archive _ ex_files_facts(1)] by (simp add: ex_files_def file_a_def)

text \<open>
  The archive is a store of named files: creating a file and deleting it again leaves the content
  of every file as it was, and a well-formed archive.
\<close>

theorem touch_then_rm:
  assumes "good_archive buf" "1024 \<le> free_bytes buf" "cstring f" "length f < 100" "content buf f = None"
  shows "\<exists>b1 b2. outcome (tarTouch buf f) = Some b1 \<and> outcome (tarRm b1 f) = Some b2 \<and>
    good_archive b2 \<and> content b2 = content buf"
  using tar.create_remove [OF assms(1,2) _ assms(5)] assms(3,4) by simp

theorem touch_then_rm_witness:
  "\<exists>b1 b2. outcome (tarTouch ex_buf (bytes ''c'')) = Some b1 \<and> outcome (tarRm b1 (bytes ''c'')) = Some b2 \<and>
    good_archive b2 \<and> content b2 = content ex_buf"
  using touch_then_rm [of ex_buf "bytes ''c''"] ex_archive ex_files_facts(3-5)
  by (auto simp: good_archive_def free_bytes_archive [OF ex_archive] content_map [OF ex_archive])

text \<open>
  C39. \<open>tarEdit\<close> never writes the new content: \<open>tarTouch\<close> returns 1 for a file it created, which
  \<open>tarEdit\<close> takes for an error. The file ends up empty, at the end of the archive, and the result is 1.
\<close>

theorem tarEdit_loses_data:
  assumes "archive buf es" "cstring f" "map_of es f = Some d" "distinct (map fst es)"
  shows "\<exists>buf'. tarEdit buf f data len = Inr (1, buf') \<and> archive buf' (remove_file f es @ [(f, [])])"
  by (rule tarEdit_archive [OF assms])

theorem tarEdit_loses_data_witness:
  "\<exists>buf'. tarEdit ex_buf (bytes ''a'') (bytes ''new'') 3 = Inr (1, buf') \<and>
     archive buf' [file_b, (bytes ''a'', [])]"
  using tarEdit_loses_data [OF ex_archive _ ex_files_facts(1,4), of "bytes ''new''" 3]
  by (simp add: ex_files_def file_a_def)

text \<open>
  C23. \<open>tarFlush\<close> and \<open>tarLoad\<close> are inverse over a drive: every byte of the buffer comes back from the
  disk, whatever the buffer held in between.
\<close>

theorem flush_then_load:
  assumes "ata_ready dev d0 k s" "q < TAR_BUF_SIZE"
  shows "tarBuf (tarLoad dev ((tarFlush dev s)\<lparr>tarBuf := junk\<rparr>)) q = tarBuf s q"
  by (rule tarFlush_tarLoad [OF assms])

theorem flush_then_load_witness:
  "tarBuf (tarLoad ex_dev ((tarFlush ex_dev st0)\<lparr>tarBuf := empty_buf\<rparr>)) 257 = tarBuf st0 257"
  using flush_then_load [OF st0_facts(2), of 257 empty_buf] by simp

text \<open>
  C22. Over a drive that behaves as documented, the driver is a store of sectors: a sector that was
  written is read back with its 256 words, every other sector reads as before, and the drive is ready
  for the next command.
\<close>

theorem ata_write_then_read:
  assumes "ata_ready dev d0 k s" "a < 2 ^ 28" "b < 2 ^ 28" "length ws = 256"
  shows "fst (ataRead dev b (ataWrite dev a ws s)) = (if b = a then ws else fst (ataRead dev b s)) \<and>
    ata_ready dev d0 k (snd (ataRead dev b (ataWrite dev a ws s)))"
  using ata.rd_data [OF ata.wr_inv [OF assms(1,2,4)] assms(3)] ata.wr_data [OF assms(1,2,4)]
    ata.rd_data [OF assms(1,3)] ata.rd_inv [OF ata.wr_inv [OF assms(1,2,4)] assms(3)]
  by simp

theorem ata_write_then_read_witness:
  "fst (ataRead ex_dev 7 (ataWrite ex_dev 7 (replicate 256 0xBEEF) st0)) = replicate 256 0xBEEF"
  using ata_write_then_read [OF st0_facts(2), of 7 7 "replicate 256 0xBEEF"] by simp

text \<open>
  \<open>ataIdentify\<close> waits for a data request before it has sent a command: on an idle drive it reads the
  status register only, sends nothing, and returns 0.
\<close>

theorem ataIdentify_gives_up:
  assumes "ata_ready dev d0 k s"
  shows "fst (ataIdentify dev sh s) = Some 0 \<and>
    (\<exists>vs. trace (snd (ataIdentify dev sh s)) = map (InB ATA_SR) vs @ trace s)"
  by (rule ataIdentify_idle [OF assms])

theorem ataIdentify_gives_up_witness: "fst (ataIdentify ex_dev 0 st0) = Some 0"
  using ataIdentify_gives_up [OF st0_facts(2), of 0] by simp

text \<open>
  C13. Whether the walks over the headers end is decided by the first 1025 of them: the walk to the end loops
  exactly when it has not stopped by then, and when it stops so do the search, reading, deleting, creating and
  the listing. It stops when every header moves the walk forward; a size field with the digits
  37777777000 is read as -512 bytes, which makes the header its own successor.
\<close>

theorem walks_terminate:
  "(tarGetEnd (tarBuf s) = Inl Diverges \<longleftrightarrow> \<not> walk_stops 1025 (tarBuf s) 0) \<and>
   (walk_stops 1025 (tarBuf s) 0 \<longrightarrow>
      tarFind (tarBuf s) f \<noteq> Inl Diverges \<and> tarRead (tarBuf s) f \<noteq> Inl Diverges \<and>
      tarRm (tarBuf s) f \<noteq> Inl Diverges \<and> tarTouch (tarBuf s) f \<noteq> Inl Diverges \<and> tarList flag s \<noteq> Inl Diverges) \<and>
   ((\<forall>p. tarValid (tarBuf s) p \<longrightarrow> 0 < file_bytes (tarBuf s) p) \<longrightarrow> walk_stops 1025 (tarBuf s) 0) \<and>
   (tarValid (tarBuf s) 0 \<and> field (tarBuf s) AT_SIZE 11 = bytes ''37777777000'' \<longrightarrow> \<not> walk_stops 1025 (tarBuf s) 0)"
  (is "?a \<and> ?b \<and> ?c \<and> ?d")
proof (intro conjI)
  show ?a by (rule tarGetEnd_diverges)
  show ?b using tarFind_returns tarRead_returns tarRm_returns tarTouch_returns tarList_returns by blast
  show ?c using forward_stops [of "tarBuf s"] tarGetEnd_diverges [of "tarBuf s"] by blast
  show ?d using tarGetEnd_stuck [of "tarBuf s"] tarGetEnd_diverges [of "tarBuf s"] by blast
qed

definition stuck_buf :: buffer where
  "stuck_buf = write_bytes (write_bytes empty_buf AT_SIZE (bytes ''37777777000'')) AT_USTAR (bytes ''ustar'')"

lemma stuck_buf_facts: "tarValid stuck_buf 0" "field stuck_buf AT_SIZE 11 = bytes ''37777777000''"
proof -
  have "stuck_buf AT_TYPE = 0" by (simp add: stuck_buf_def write_bytes_apply empty_buf_def del: write_bytes.simps)
  then show "tarValid stuck_buf 0"
    by (simp add: tarValid_def stuck_buf_def field_at_write del: write_bytes.simps bytes_simps)
  show "field stuck_buf AT_SIZE 11 = bytes ''37777777000''"
    by (simp add: stuck_buf_def field_apart field_at_write del: write_bytes.simps bytes_simps)
qed

theorem walks_terminate_witness:
  "tarGetEnd stuck_buf = Inl Diverges \<and> walk_stops 1025 (tarBuf st0) 0 \<and> tarRm (tarBuf st0) (bytes ''zzz'') \<noteq> Inl Diverges"
proof -
  have "tarGetEnd stuck_buf = Inl Diverges"
    using walks_terminate [of "st0\<lparr>tarBuf := stuck_buf\<rparr>"] stuck_buf_facts by simp
  moreover have "tarGetEnd (tarBuf st0) = Inr (end_of 0 ex_files)" by (rule tarGetEnd_archive [OF st0_facts(3)])
  ultimately show ?thesis using walks_terminate [of st0] by simp
qed

text \<open>
  In particular the walk over an archive whose first header has that size field never ends.
\<close>

theorem walk_diverges:
  assumes "tarValid buf 0" "field buf AT_SIZE 11 = bytes ''37777777000''"
  shows "tarGetEnd buf = Inl Diverges"
  by (rule tarGetEnd_stuck [OF assms])

theorem walk_diverges_witness: "tarGetEnd stuck_buf = Inl Diverges"
  by (rule walk_diverges [OF stuck_buf_facts])

text \<open>
  The short listing prints the names of the files that are not inside a directory, in the order
  of the archive, each followed by two spaces, and changes nothing else.
\<close>

theorem tarList_prints:
  assumes "archive (tarBuf s) es" "\<forall>e\<in>set es. fst e \<noteq> []" "flag \<noteq> bytes ''-l''"
  shows "tarList flag s = Inr (writeStr (listing es) s)"
  by (rule tarList_archive [OF assms])

theorem tarList_prints_witness: "tarList [] st0 = Inr (writeStr (bytes ''a  b  '') st0)"
  using tarList_prints [OF st0_facts(3) ex_files_facts(6), of "[]"]
  by (simp add: listing_def ex_files_def file_a_def file_b_def visible_def)

text \<open>
  The long listing, \<open>ls -l\<close>: a title and then, for each file that is not inside a directory, a line with its
  type, its size in eight columns, the date of its last change, and its name, in the order of the archive.
\<close>

theorem long_listing:
  assumes "archive (tarBuf s) es" "\<forall>e\<in>set es. fst e \<noteq> []"
  shows "tarList (bytes ''-l'') s = Inr (writeStr (long_title @ listing_of (long_line (tarBuf s)) 0 es) s)"
  by (rule tarList_long [OF assms])

theorem long_listing_witness:
  "tarList (bytes ''-l'') st0 =
     Inr (writeStr (long_title @ long_line ex_buf 0 file_a @ long_line ex_buf 1024 file_b) st0)"
proof -
  have "tarBuf st0 = ex_buf" by (simp add: st0_def ex_state_def)
  then show ?thesis
    using long_listing [OF st0_facts(3) ex_files_facts(6)]
    by (simp add: ex_files_def file_a_def span_def del: bytes_simps)
qed

section \<open>Open files\<close>

text \<open>
  \<open>read\<close> on an open file over a well-formed archive stores at the program's buffer the bytes of the
  file from the position on, as many as were asked for and are left, returns their number and moves
  the position by it.
\<close>

theorem read_syscall:
  assumes "archive (tarBuf s) es" "fd_on s k es j pos" "f_ebx regs = of_nat k + 3"
    "pos + unat (f_edx regs) < 2 ^ 32" "m = min (unat (f_edx regs)) (length (snd (es ! j)) - pos)"
  shows "\<exists>s'. sys_read dev polls regs s = Inr (Some (of_nat m), s') \<and> fd_on s' k es j (pos + m) \<and>
    tarBuf s' = tarBuf s \<and> umem_bytes (umem s') (f_ecx regs) m = take m (drop pos (snd (es ! j)))"
  unfolding assms(5) by (rule sys_read_file [OF assms(1-4)])

theorem read_syscall_witness:
  "\<exists>s'. sys_read ex_dev [] (ex_regs 3 0x200000 100) (st_open 2) = Inr (Some 3, s') \<and>
     umem_bytes (umem s') 0x200000 3 = bytes ''llo''"
  using read_syscall [OF st_open_archive(1) st_open_on [of 2], of "ex_regs 3 0x200000 100" 3 ex_dev "[]"]
  by (auto simp: ex_regs_def ex_files_facts file_a_def)

text \<open>
  \<open>write\<close> and then \<open>close\<close>: the program's bytes replace those of the file from the position on, no
  further than the file goes, and after \<open>close\<close> the archive on the disk has the new content.
\<close>

theorem write_close_persists:
  assumes "ata_ready dev d0 kk s" "archive (tarBuf s) es" "fd_on s k es j pos"
    "pos < length (snd (es ! j))" "pos + unat (f_edx wr) < 2 ^ 32"
    "f_ebx wr = of_nat k + 3" "f_ebx cl = of_nat k + 3"
    "m = min (unat (f_edx wr)) (length (snd (es ! j)) - pos)"
    "new = take pos (snd (es ! j)) @ umem_bytes (umem s) (f_ecx wr) m @ drop (pos + m) (snd (es ! j))"
  shows "\<exists>s1 s2. sys_write wr s = Inr (Some (of_nat m), s1) \<and> sys_close dev cl s1 = Inr (Some 0, s2) \<and>
    isInUse (fdTable s2 k) = 0 \<and> archive (disk_buffer d0 kk s2) (es[j := (fst (es ! j), new)])"
  unfolding assms(8,9) by (rule sys_write_close [OF assms(1-7)])

theorem write_close_persists_witness:
  "\<exists>s1 s2. sys_write (ex_regs 3 0x200000 2) (st_open 1) = Inr (Some 2, s1) \<and>
     sys_close ex_dev (ex_regs 3 0 0) s1 = Inr (Some 0, s2) \<and>
     archive (disk_buffer ex_drive 2 s2) [(bytes ''a'', [104, 0, 0, 108, 111]), file_b]"
  using write_close_persists [OF st_open_archive(2,1) st_open_on [of 1], of "ex_regs 3 0x200000 2"
      "ex_regs 3 0 0" 2 "[104, 0, 0, 108, 111]"]
proof -
  have m: "umem_bytes (umem (st_open 1)) 0x200000 2 = [0, 0]"
    by (simp add: umem_bytes_def st_open_def upt_rec)
  have new: "[104, 0, 0, 108, 111] = take 1 (snd (ex_files ! 0)) @ umem_bytes (umem (st_open 1)) 0x200000 2 @
      drop (1 + 2) (snd (ex_files ! 0))"
    unfolding m by (simp add: ex_files_def file_a_def)
  have f: "ex_files[0 := (fst (ex_files ! 0), [104, 0, 0, 108, 111])] =
      [(bytes ''a'', [104, 0, 0, 108, 111]), file_b]"
    by (simp add: ex_files_def file_a_def)
  have on: "fd_on (st_open 1) 0 ex_files 0 1" using st_open_on [of 1] by simp
  have "length (snd (ex_files ! 0)) = 5" by (simp add: ex_files_def file_a_def)
  then have "\<exists>s1 s2. sys_write (ex_regs 3 0x200000 2) (st_open 1) = Inr (Some (of_nat 2), s1) \<and>
     sys_close ex_dev (ex_regs 3 0 0) s1 = Inr (Some 0, s2) \<and>
     isInUse (fdTable s2 0) = 0 \<and>
     archive (disk_buffer ex_drive 2 s2) (ex_files[0 := (fst (ex_files ! 0), [104, 0, 0, 108, 111])])"
    using new
    by (intro write_close_persists [OF st_open_archive(2,1) on]) (simp_all add: ex_regs_def)
  then show ?thesis unfolding f by auto
qed

text \<open>
  Reading in pieces: whatever the sizes of the reads, the pieces joined are the rest of the file, as
  far as the sizes go.
\<close>

theorem reads_join:
  assumes "fd_inv k es j s" "\<forall>n\<in>set ns. n < 2 ^ 31"
  shows "rd_pieces (rd_fd dev polls k) ns s = take (sum_list ns) (fd_rest k es j s)"
  by (rule fd.rd_pieces_take [OF assms])

theorem reads_join_witness:
  "rd_pieces (rd_fd ex_dev [] 0) [1, 3, 9] (st_open 0) = bytes ''hello''"
proof -
  have "fd_inv 0 ex_files 0 (st_open 0)"
    using st_open_archive(1) st_open_on [of 0] by (auto simp: fd_inv_def)
  moreover have "fd_rest 0 ex_files 0 (st_open 0) = bytes ''hello''"
    by (simp add: fd_rest_def st_open_def ex_files_facts file_a_def)
  ultimately show ?thesis using reads_join [of 0 ex_files 0 "st_open 0" "[1, 3, 9]" ex_dev "[]"] by simp
qed

text \<open>
  The bound check of \<open>read\<close> adds position and count at 32 bits. Inside a file, the count
  \<open>2 ^ 32 - position\<close> passes the check and the copy leaves the archive buffer.
\<close>

theorem read_count_wraps:
  assumes "archive (tarBuf s) es" "fd_on s k es j pos" "0 < pos" "pos < length (snd (es ! j))"
  shows "read_file dev polls (of_nat k + 3) (- of_nat pos) s = Inl OutOfBounds"
  by (rule read_wraps [OF assms])

theorem read_count_wraps_witness: "read_file ex_dev [] 3 (- 1) (st_open 1) = Inl OutOfBounds"
  using read_count_wraps [OF st_open_archive(1) st_open_on [of 1], of ex_dev "[]"]
  by (simp add: ex_files_facts file_a_def)

text \<open>
  A negative descriptor passes every test of \<open>read\<close> and \<open>write\<close>, which then index below the
  table; \<open>close\<close> rejects it.
\<close>

theorem negative_descriptor:
  assumes "sint fd < 0"
  shows "read_file dev polls fd count s = Inl OutOfBounds \<and> write_file fd src count s = Inl OutOfBounds \<and>
    close_file dev fd s = (- 1, s)"
  by (intro conjI negative_fd [OF assms])

theorem negative_descriptor_witness:
  "read_file ex_dev [] (- 1) 4 st0 = Inl OutOfBounds \<and> write_file (- 1) [] 4 st0 = Inl OutOfBounds \<and>
    close_file ex_dev (- 1) st0 = (- 1, st0)"
  using negative_descriptor [of "- 1" ex_dev "[]" 4 st0 "[]"] by simp

text \<open>
  \<open>open\<close> on a file of the archive, without truncation, takes the lowest free slot and returns its
  number plus 3, with the position at the start of the file; when all eight slots are taken it
  returns -1 and changes nothing.
\<close>

theorem open_takes_slot:
  assumes "archive (tarBuf s) es" "map_of es f = Some d" "flags AND O_TRUNC = 0"
  shows "case free_slot (fdTable s) of
      None \<Rightarrow> open_file f flags s = Inr (- 1, s)
    | Some k \<Rightarrow> \<exists>s' j. open_file f flags s = Inr (of_nat k + 3, s') \<and> tarBuf s' = tarBuf s \<and>
        j < length es \<and> es ! j = (f, d) \<and> fd_on s' k es j 0 \<and> dirty (fdTable s' k) = 0"
  using open_no_slot [OF assms] open_fd_on [OF assms] by (simp split: option.split)

theorem open_takes_slot_witness:
  "\<exists>s' j. open_file (bytes ''a'') 0 (st_open 0) = Inr (4, s') \<and> fd_on s' 1 ex_files j 0"
proof -
  have "free_slot (fdTable (st_open 0)) = Some 1"
    by (simp add: free_slot_def st_open_def closed_fd_def upt_rec)
  then show ?thesis
    using open_takes_slot [OF st_open_archive(1) ex_files_facts(1), of 0 0] by auto
qed

section \<open>Shell commands\<close>

text \<open>
  \<open>cat f\<close> reloads the archive from the disk and types the bytes of the file that are not NUL; when
  the file is not there, the test of the size never fails and a pointer that was never set is followed.
\<close>

theorem cat_prints:
  assumes "ata_ready dev d0 k s" "archive (disk_buffer d0 k s) es" "cstring f" "f \<noteq> bytes ''>''"
    "tokenize line 16 = [bytes ''cat'', f]"
  shows "sh_turn env trap dev line input s =
    (case map_of es f of
       None \<Rightarrow> Inl BadPointer
     | Some d \<Rightarrow> Inr (Next (writeStr (filter (\<lambda>c. c \<noteq> 0) d) (tarLoad dev s))))"
  using cat_file [OF assms] by (simp split: option.split)

theorem cat_prints_witness:
  "sh_turn ex_env (\<lambda>n t. Inr (Returned t)) ex_dev (bytes ''cat  a'') [] st_disk =
     Inr (Next (writeStr (bytes ''hello'') (tarLoad ex_dev st_disk))) \<and>
   sh_turn ex_env (\<lambda>n t. Inr (Returned t)) ex_dev (bytes ''cat c'') [] st_disk = Inl BadPointer"
proof -
  have t: "tokenize (bytes ''cat  a'') 16 = [bytes ''cat'', bytes ''a'']"
    "tokenize (bytes ''cat c'') 16 = [bytes ''cat'', bytes ''c'']"
    by (simp_all add: tokenize_words)
  show ?thesis
    using cat_prints [OF st_disk_facts _ _ t(1), of ex_env "\<lambda>n t. Inr (Returned t)" "[]"]
      cat_prints [OF st_disk_facts _ _ t(2), of ex_env "\<lambda>n t. Inr (Returned t)" "[]"] ex_files_facts
    by simp
qed

text \<open>
  A command that takes an argument uses its second token without looking whether there is one.
\<close>

theorem missing_argument:
  assumes "tokenize line MAX_TOKENS = [c]" "c \<in> set (map bytes [''echo'', ''free'', ''panic'', ''ls'', ''rm'', ''cat'', ''touch''])"
  shows "sh_turn env trap dev line input s = Inl BadPointer"
  using assms(2)
  by (auto simp: sh_turn_def assms(1) cmd_echo_def cmd_free_def cmd_panic_def cmd_ls_def cmd_rm_def cmd_cat_def
      cmd_touch_def tok_def next_turn_def)

theorem missing_argument_witness: "sh_turn ex_env (\<lambda>n t. Inr (Returned t)) ex_dev (bytes '' rm '') [] st0 = Inl BadPointer"
  using missing_argument [of "bytes '' rm ''" "bytes ''rm''" ex_env "\<lambda>n t. Inr (Returned t)" ex_dev "[]" st0]
  by (simp add: tokenize_words)

text \<open>
  \<open>rm f\<close> deletes the file in memory and on the disk: afterwards both hold the archive without it,
  and the drive is ready.
\<close>

theorem rm_deletes_on_disk:
  assumes "ata_ready dev d0 k s" "archive (tarBuf s) es" "map_of es f = Some d"
    "\<forall>e\<in>set es. fst e \<noteq> []" "f \<noteq> bytes ''-l''" "tokenize line 16 = [bytes ''rm'', f]"
  shows "\<exists>s'. sh_turn env trap dev line input s = Inr (Next s') \<and> ata_ready dev d0 k s' \<and>
    archive (tarBuf s') (remove_file f es) \<and> archive (disk_buffer d0 k s') (remove_file f es)"
  by (rule rm_on_disk [OF assms])

theorem rm_deletes_on_disk_witness:
  "\<exists>s'. sh_turn ex_env (\<lambda>n t. Inr (Returned t)) ex_dev (bytes ''rm a'') [] st0 = Inr (Next s') \<and>
    archive (disk_buffer ex_drive 2 s') [file_b]"
proof -
  have t: "tokenize (bytes ''rm a'') 16 = [bytes ''rm'', bytes ''a'']" by (simp add: tokenize_words)
  have "remove_file (bytes ''a'') ex_files = [file_b]" by (simp add: ex_files_def file_a_def)
  then show ?thesis
    using rm_deletes_on_disk [OF st0_facts(2,3) ex_files_facts(1,6) _ t, of ex_env "\<lambda>n t. Inr (Returned t)" "[]"]
    by auto
qed

text \<open>
  \<open>touch f\<close> creates the file in memory and on the disk.
\<close>

theorem touch_creates_on_disk:
  assumes "ata_ready dev d0 k s" "archive (tarBuf s) es" "map_of es f = None" "cstring f"
    "length f < 100" "end_of 0 es + 1024 \<le> TAR_BUF_SIZE" "tokenize line 16 = [bytes ''touch'', f]"
  shows "\<exists>s'. sh_turn env trap dev line input s = Inr (Next s') \<and> ata_ready dev d0 k s' \<and>
    archive (tarBuf s') (es @ [(f, [])]) \<and> archive (disk_buffer d0 k s') (es @ [(f, [])])"
  by (rule touch_on_disk [OF assms])

theorem touch_creates_on_disk_witness:
  "\<exists>s'. sh_turn ex_env (\<lambda>n t. Inr (Returned t)) ex_dev (bytes ''touch c'') [] st0 = Inr (Next s') \<and>
    archive (disk_buffer ex_drive 2 s') (ex_files @ [(bytes ''c'', [])])"
proof -
  have t: "tokenize (bytes ''touch c'') 16 = [bytes ''touch'', bytes ''c'']" by (simp add: tokenize_words)
  show ?thesis
    using touch_creates_on_disk [OF st0_facts(2,3) ex_files_facts(3) _ _ _ t, of ex_env "\<lambda>n t. Inr (Returned t)" "[]"]
      ex_files_facts(5) by auto
qed

text \<open>
  \<open>cat > f\<close> empties the file on the disk, whatever is typed: the input is lost.
\<close>

theorem cat_into_loses_input:
  assumes "ata_ready dev d0 k s" "archive (disk_buffer d0 k s) es" "map_of es f = Some d"
    "distinct (map fst es)" "length input < 256" "tokenize line 16 = [bytes ''cat'', bytes ''>'', f]"
  shows "\<exists>s'. sh_turn env trap dev line input s = Inr (Next s') \<and> ata_ready dev d0 k s' \<and>
    archive (disk_buffer d0 k s') (remove_file f es @ [(f, [])])"
  by (rule cat_into_file [OF assms])

theorem cat_into_loses_input_witness:
  "\<exists>s'. sh_turn ex_env (\<lambda>n t. Inr (Returned t)) ex_dev (bytes ''cat > a'') (bytes ''new'') st_disk =
      Inr (Next s') \<and>
    archive (disk_buffer ex_drive 2 s') [file_b, (bytes ''a'', [])]"
proof -
  have t: "tokenize (bytes ''cat > a'') 16 = [bytes ''cat'', bytes ''>'', bytes ''a'']"
    by (simp add: tokenize_words)
  have "remove_file (bytes ''a'') ex_files @ [(bytes ''a'', [])] = [file_b, (bytes ''a'', [])]"
    by (simp add: ex_files_def file_a_def)
  then show ?thesis
    using cat_into_loses_input [OF st_disk_facts ex_files_facts(1,4) _ t, of "bytes ''new''" ex_env
        "\<lambda>n t. Inr (Returned t)"]
    by auto
qed

text \<open>
  C31. \<open>tokenize\<close> yields the maximal runs of characters other than spaces, at most as many as asked for.
\<close>

theorem tokenize_splits:
  assumes "cstring str"
  shows "tokenize str m = take m (words_of [] str)"
  by (rule tokenize_words [OF assms])

theorem tokenize_splits_witness:
  "tokenize (bytes ''  free -m '') 16 = [bytes ''free'', bytes ''-m'']"
  using tokenize_splits [of "bytes ''  free -m ''" 16] by simp

section \<open>Keyboard and screen\<close>

text \<open>
  C25. The keys typed and not read yet are a queue of at most 255 characters: an interrupt appends the
  character of the scancode it reads, when there is one and there is room, and \<open>getInput\<close> takes the
  oldest, or returns 0 when there is none.
\<close>

theorem keys_are_a_queue:
  assumes "keyboard_inv s"
  shows "pending (keyboardHandler dev s) =
      (case typed s (ucast (dev (trace s) 0x60)) of
         Some c \<Rightarrow> if length (pending s) < 255 then pending s @ [c] else pending s
       | None \<Rightarrow> pending s) \<and>
    keyboard_inv (keyboardHandler dev s) \<and> keyboard_inv (snd (getInput s)) \<and>
    (case pending s of
       [] \<Rightarrow> getInput s = (0, s)
     | c # cs \<Rightarrow> fst (getInput s) = c \<and> pending (snd (getInput s)) = cs)"
  using pending_keyboardHandler [OF assms, of dev] keyboardHandler_keeps(1) [OF assms, of dev]
    getInput_keeps [OF assms] getInput_empty [OF _ assms] getInput_pending [OF assms]
  by (simp split: list.split)

theorem keys_are_a_queue_witness:
  "pending (keyboardHandler space_held st0) = [32]"
proof -
  have "keymap ! 57 = 32" by (simp add: keymap_def)
  then have "typed st0 0x39 = Some 32"
    by (simp add: typed_def modifier_key_def printable_def st0_def ex_state_def)
  then show ?thesis
    using keys_are_a_queue [of st0 space_held] by (simp add: st0_def space_held_def)
qed

text \<open>
  The modifier flags follow the scancode history: after every interrupt shift and control are the
  last press or release of their keys, caps lock is the parity of its presses, and \<open>arrow\<close> is the
  arrow key that is held.
\<close>

theorem modifiers_follow_history:
  assumes "modifiers_ok s"
  shows "modifiers_ok ((keyboardHandler dev ^^ n) s)"
  by (induction n) (simp_all add: assms modifiers_keyboardHandler)

theorem modifiers_follow_history_witness: "modifiers_ok ((keyboardHandler space_held ^^ 3) st0)"
  by (rule modifiers_follow_history)
    (simp add: modifiers_ok_def st0_def ex_state_def caps_on_def)

text \<open>
  The dispatcher acknowledges every interrupt request exactly once and returns; every other number
  stops the machine on the panic screen.
\<close>

theorem irq_acknowledged_once:
  "if int_no r = 0xFF \<or> 32 \<le> int_no r \<and> int_no r < 48 \<and> int_no r \<noteq> 34
   then \<exists>t. interruptDispatcher dev cr2 r s = Inr (Returned t) \<and> eoi_count (trace t) = Suc (eoi_count (trace s))
   else \<exists>t. isr_fault cr2 r s = Inr t \<and> interruptDispatcher dev cr2 r s = Inr (Halted t)"
proof (cases "int_no r = 0xFF \<or> 32 \<le> int_no r \<and> int_no r < 48 \<and> int_no r \<noteq> 34")
  case True
  then show ?thesis using dispatch_irq by simp
next
  case False
  then have "int_no r < 32 \<or> int_no r \<ge> 48 \<and> int_no r \<noteq> 0xFF \<or> int_no r = 34" by auto
  then show ?thesis
    using False dispatch_fault [of r dev cr2 s] isr_fault_prints [of cr2 r s] by (simp add: Let_def)
qed

text \<open>
  C35. The panic screen: whatever the fault and the registers, the message is typed in full on an empty
  screen, white on blue, except for the last cell, which gets a mark.
\<close>

theorem panic_screen:
  fixes s :: "'a console_scheme"
  shows "\<exists>t. isr_fault cr2 r s = Inr t \<and>
    (let screen = fold (term_put 0x1F) (panic_message cr2 r) (term_view (clearScreen (s\<lparr>COLOR := 0x1F\<rparr>)))
     in cells (term_view t) = (cells screen)(24 := (cells screen 24)(79 := (0x46, 0x4F))))"
proof -
  let ?screen = "fold (term_put 0x1F) (panic_message cr2 r) (term_view (clearScreen (s\<lparr>COLOR := 0x1F\<rparr>)))"
  obtain t and u :: "'a console_scheme" where t: "isr_fault cr2 r s = Inr t" "vram t 3998 = 0x46"
      "vram t 3999 = 0x4F" and u: "term_view u = ?screen"
      and same: "\<And>a. a \<noteq> 3998 \<Longrightarrow> a \<noteq> 3999 \<Longrightarrow> vram t a = vram u a"
    using isr_fault_screen [of cr2 r s] by blast
  have "table_of (vram t) y x = (if y = 24 \<and> x = 79 then (0x46, 0x4F) else table_of (vram u) y x)" for y x
  proof (cases "on_screen y x")
    case True
    then have "(y * 80 + x) * 2 + 1 < 3998" if "\<not> (y = 24 \<and> x = 79)"
      using that by (cases "y = 24") (auto simp: on_screen_def)
    then show ?thesis
      using True t(2,3) same [of "(y * 80 + x) * 2"] same [of "(y * 80 + x) * 2 + 1"]
      by (cases "y = 24 \<and> x = 79") (auto simp: table_of_def)
  next
    case False
    then show ?thesis by (auto simp: table_of_def on_screen_def)
  qed
  then have "cells (term_view t) = (cells (term_view u))(24 := (cells (term_view u) 24)(79 := (0x46, 0x4F)))"
    by (simp add: term_view_def fun_eq_iff)
  then show ?thesis using t(1) u by (auto simp: Let_def)
qed

text \<open>
  C24. The console implements the abstract terminal: on every string, and so through every line wrap,
  backspace and scroll, the picture and the cursor are those of the terminal.
\<close>

theorem console_refines_terminal:
  assumes "console_inv s" "cstring str"
  shows "term_view (writeStr str s) = fold (term_put (COLOR s)) str (term_view s)"
  by (rule view_writeStr [OF assms])

theorem console_refines_terminal_witness:
  "term_view (writeStr (bytes ''ok'') st0) = term_put 0x0F 107 (term_put 0x0F 111 (term_view st0))"
  using console_refines_terminal [of st0 "bytes ''ok''"] by (simp add: st0_def)

text \<open>
  Printing keeps the cursor on the screen and never writes outside the text page.
\<close>

theorem printing_stays_on_page:
  assumes "console_inv s" "a \<ge> 4000"
  shows "console_inv (writeStr str s) \<and> vram (writeStr str s) a = vram s a"
  using writeStr_keeps [OF assms(1)] writeStr_page [OF assms] by simp

theorem printing_stays_on_page_witness:
  "console_inv (writeStr (replicate 5000 10) st0) \<and> vram (writeStr (replicate 5000 10) st0) 4000 = vram st0 4000"
  using printing_stays_on_page [of st0 4000] by (simp add: st0_def)

section \<open>Formatted output and input\<close>

text \<open>
  C32. What \<open>sfmtWrite\<close> prints, \<open>vsfmtGet\<close> scans back with the same format: for every format of literal
  characters and \<open>%d\<close> conversions that are told apart, and all numbers but the smallest.
\<close>

theorem print_then_scan:
  assumes "good_pieces ps" "length ns = holes ps" "0x80000000 \<notin> set ns"
  shows "bindR (sfmtWrite (render ps) (map ArgInt ns)) (\<lambda>mem. vsfmtGet mem (render ps)) = Inr (map GotInt ns)"
  by (rule scan_printed [OF assms])

theorem print_then_scan_witness:
  "bindR (sfmtWrite (bytes ''x=%d, y=%d'') [ArgInt 17, ArgInt (- 4)]) (\<lambda>mem. vsfmtGet mem (bytes ''x=%d, y=%d'')) =
     Inr [GotInt 17, GotInt (- 4)]"
  using print_then_scan [of "[Lit 120, Lit 61, Dec, Lit 44, Lit 32, Lit 121, Lit 61, Dec]" "[17, - 4]"]
  by (simp add: is_digit_def del: vsfmtGet.simps)

text \<open>
  C33. Numbers: \<open>atoi\<close> reads back what \<open>intToStr\<close> prints, except for the smallest number, of which
  only the sign is printed; the digits of \<open>hexToStr\<close> have the value of the number, at every width.
\<close>

theorem printed_numbers:
  "atoi (intToStr n) = (if n = 0x80000000 then 0 else n) \<and> intToStr 0x80000000 = bytes ''-'' \<and>
   hex_value (hexToStr n w) = unat n"
proof -
  have "atoi (intToStr 0x80000000) = 0" unfolding intToStr_min by (simp add: atoi_def)
  then show ?thesis using atoi_intToStr [of n "[]"] hexToStr_value [of n w] intToStr_min by simp
qed

text \<open>
  C26. The line editor of \<open>fmtGet\<close>: a line that was typed ahead, with its backspaces, yields what the
  reference editor makes of it, leaves the keys after the newline, and shows its echo.
\<close>

theorem line_editor:
  assumes "keyboard_inv s" "console_inv s" "blocking s \<noteq> 0"
    and "pending s = cs @ 10 # later" "0 \<notin> set cs" "10 \<notin> set cs"
  shows "\<exists>s'. fmtGet_loop dev (replicate (Suc (length cs)) 0) [] s = Inr (fold edit_key cs [], s') \<and>
    pending s' = later \<and> term_view s' = fold (term_put (COLOR s)) (echo_all cs []) (term_view s)"
  by (rule fmtGet_typed_ahead [OF assms])

lemma st_keys_facts:
  "length ks < 256 \<Longrightarrow> pending (st_keys ks) = ks" "length ks < 256 \<Longrightarrow> keyboard_inv (st_keys ks)"
  "console_inv (st_keys ks)" "blocking (st_keys ks) = 1"
proof -
  show "pending (st_keys ks) = ks" if "length ks < 256"
    using that by (intro nth_equalityI)
      (simp_all add: pending_def st_keys_def st0_def ex_state_def ring_used_def ring_at_def)
qed (simp_all add: st_keys_def st0_def ex_state_def keyboard_inv_def console_inv_def)

theorem line_editor_witness:
  "\<exists>s'. fmtGet_loop ex_dev (replicate 5 0) [] (st_keys [108, 120, 8, 115, 10]) = Inr (bytes ''ls'', s')"
proof -
  have "fold edit_key [108, 120, 8, 115] [] = bytes ''ls''" by (simp add: edit_key_def)
  moreover have "replicate 5 0 = replicate (Suc (length [108, 120, 8, 115 :: u8])) (0 :: nat)"
    by (simp add: numeral_eq_Suc)
  moreover have "pending (st_keys [108, 120, 8, 115, 10]) = [108, 120, 8, 115] @ 10 # []"
    by (simp add: st_keys_facts)
  ultimately have "\<exists>s'. fmtGet_loop ex_dev (replicate 5 0) [] (st_keys [108, 120, 8, 115, 10]) =
      Inr (bytes ''ls'', s') \<and> pending s' = [] \<and>
      term_view s' = fold (term_put (COLOR (st_keys [108, 120, 8, 115, 10]))) (echo_all [108, 120, 8, 115] [])
        (term_view (st_keys [108, 120, 8, 115, 10]))"
    using line_editor [of "st_keys [108, 120, 8, 115, 10]" "[108, 120, 8, 115]" "[]" ex_dev]
    by (simp only: st_keys_facts) (simp del: fmtGet_loop.simps replicate.simps fold_simps echo_all.simps add: st_keys_facts)
  then show ?thesis by blast
qed

text \<open>
  In the mode the shell selects for \<open>cat >\<close> and \<open>echo\<close>, newlines are stored without a bound: with
  the enter key held down the store leaves the buffer of \<open>fmtGet\<close>.
\<close>

theorem nonblocking_line_overruns:
  assumes "keyboard_inv s" "pending s = []" "controlActive s = 0" "blocking s = 0"
  shows "fmtGet enter_held (replicate 257 1) fmt s = Inl OutOfBounds"
proof -
  have "fmtGet_loop enter_held (replicate (Suc 256) 1) [] s = Inl OutOfBounds"
    by (rule fmtGet_nonblocking_overrun [OF assms]) simp_all
  then show ?thesis by (simp add: fmtGet_def del: fmtGet_loop.simps)
qed

theorem nonblocking_line_overruns_witness:
  "fmtGet enter_held (replicate 257 1) (bytes ''%s'') (st0\<lparr>blocking := 0\<rparr>) = Inl OutOfBounds"
  by (rule nonblocking_line_overruns)
    (simp_all add: st0_def keyboard_inv_def ex_state_def pending_def ring_used_def)

section \<open>System calls\<close>

text \<open>
  C30. \<open>read\<close> on descriptor 0 with a line typed ahead: the bytes are those of the edited line with its
  newline, as many as were asked for; what is left of the line stays for the next call.
\<close>

theorem read_stdin_line:
  assumes "stdinLineReady s = 0" "keyboard_inv s" "console_inv s" "pending s = cs @ 10 # later"
    "0 \<notin> set cs" "10 \<notin> set cs" "13 \<notin> set cs" "length cs < 255"
    "line = fold line_key cs [] @ [10]" "m = min (unat count) (length line)"
  shows "\<exists>s'. kread_impl dev (replicate (Suc (length cs)) 0) 0 count s = Inr (of_nat m, take m line, s') \<and>
    stdinBufPos s' = of_nat m \<and> (stdinLineReady s' \<noteq> 0 \<longleftrightarrow> m < length line)"
proof -
  let ?polls = "replicate (Suc (length cs)) 0"
  obtain t where t: "readStdinLine dev ?polls s = Inr t" "stdinLineReady t = 1" "stdinBufPos t = 0"
      "stdinBufLen t = of_nat (length line)" "length line \<le> 255" "stdin_prefix t (length line) = line"
    using readStdinLine_typed [OF assms(2-8), of dev] assms(9) by auto
  have k: "kread_impl dev ?polls 0 count s = kread_impl dev ?polls 0 count t"
    using assms(1) t(1,2) by (simp add: kread_impl_def)
  have "\<exists>s'. kread_impl dev ?polls 0 count t =
      Inr (of_nat m, take m (drop 0 (stdin_prefix t (length line))), s') \<and>
      stdinBufPos s' = of_nat (0 + m) \<and> stdinBufLen s' = of_nat (length line) \<and> stdinBuf s' = stdinBuf t \<and>
      (stdinLineReady s' \<noteq> 0 \<longleftrightarrow> 0 + m < length line)"
    using kread_line [of t "length line" 0 dev ?polls count] t(2-5)
    unfolding assms(10) by (simp only: diff_zero) simp
  then show ?thesis unfolding k t(6) by auto
qed

theorem read_stdin_line_witness:
  "\<exists>s'. kread_impl ex_dev (replicate 5 0) 0 100 (st_keys [108, 120, 8, 115, 10]) =
     Inr (3, bytes ''ls'' @ [10], s')"
proof -
  have "fold line_key [108, 120, 8, 115] [] = bytes ''ls''" by (simp add: line_key_def)
  moreover have p: "replicate 5 0 = replicate (Suc (length [108, 120, 8, 115 :: u8])) (0 :: nat)"
    by (simp add: numeral_eq_Suc)
  moreover have "pending (st_keys [108, 120, 8, 115, 10]) = [108, 120, 8, 115] @ 10 # []"
    by (simp add: st_keys_facts)
  moreover have "stdinLineReady (st_keys [108, 120, 8, 115, 10]) = 0"
    by (simp add: st_keys_def st0_def ex_state_def)
  ultimately have "\<exists>s'. kread_impl ex_dev (replicate 5 0) 0 100 (st_keys [108, 120, 8, 115, 10]) =
      Inr (of_nat 3, take 3 (bytes ''ls'' @ [10]), s') \<and> stdinBufPos s' = of_nat 3 \<and>
      (stdinLineReady s' \<noteq> 0 \<longleftrightarrow> 3 < length (bytes ''ls'' @ [10]))"
    unfolding p by (intro read_stdin_line) (simp_all add: st_keys_facts)
  then show ?thesis by auto
qed

text \<open>
  A line of standard input is not bounded: with a key held down the store leaves \<open>stdinBuf\<close>.
\<close>

theorem stdin_line_overruns:
  assumes "keyboard_inv s" "pending s = []" "controlActive s = 0" "stdinLineReady s = 0"
  shows "kread_impl space_held (replicate 257 1) 0 count s = Inl OutOfBounds"
proof -
  have "readStdin_loop space_held (replicate (Suc 256) 1) 0 s = Inl OutOfBounds"
    by (rule readStdin_overrun [OF assms(1-3)]) simp_all
  then show ?thesis using assms(4) by (simp add: kread_impl_def readStdinLine_def del: readStdin_loop.simps)
qed

theorem stdin_line_overruns_witness: "kread_impl space_held (replicate 257 1) 0 1 st0 = Inl OutOfBounds"
  by (rule stdin_line_overruns) (simp_all add: st0_def, simp add: ex_state_def)

text \<open>
  A program never sees the result of a system call: the entry stub restores the saved EAX over it,
  so \<open>read\<close>, \<open>write\<close> and \<open>sbrk\<close> return the numbers of their calls, whatever the kernel did.
\<close>

theorem results_are_lost:
  "user_read dispatch u fd buf n s =
     bindR (dispatch (int80_frame (u\<lparr>u_eax := 2, u_ebx := fd, u_ecx := buf, u_edx := n\<rparr>)) s)
       (\<lambda>(r, s1). Inr (map_option (\<lambda>_. (2, None)) r, s1)) \<and>
   user_write dispatch u fd buf n s =
     bindR (dispatch (int80_frame (u\<lparr>u_eax := 3, u_ebx := fd, u_ecx := buf, u_edx := n\<rparr>)) s)
       (\<lambda>(r, s1). Inr (map_option (\<lambda>_. (3, None)) r, s1)) \<and>
   user_sbrk lc dispatch u inc s =
     bindR (dispatch (int80_frame (u\<lparr>u_eax := 10, u_ebx := inc\<rparr>)) s)
       (\<lambda>(r, s1). Inr (map_option (\<lambda>_. (10, None)) r, s1))"
  by (cases "dispatch (int80_frame (u\<lparr>u_eax := 2, u_ebx := fd, u_ecx := buf, u_edx := n\<rparr>)) s";
      cases "dispatch (int80_frame (u\<lparr>u_eax := 3, u_ebx := fd, u_ecx := buf, u_edx := n\<rparr>)) s";
      cases "dispatch (int80_frame (u\<lparr>u_eax := 10, u_ebx := inc\<rparr>)) s")
    (simp_all add: user_read_def user_write_def user_sbrk_def syscall_number_back check_ret_def
      case_prod_beta option.map_comp o_def)

section \<open>Tables and numbers\<close>

text \<open>
  C34. The date of a time stamp is the only one of the calendar with that many seconds since 1970, leap
  years included; the last one is in 2106, and a later time has a later date.
\<close>

theorem date_of_timestamp:
  "{dt. valid_date dt \<and> date_seconds dt = unat t} = {unix2date t} \<and> year (unix2date t) \<le> 2106 \<and>
   (unix2date t \<le> unix2date u \<longleftrightarrow> t \<le> u)"
proof -
  have "unat t < 2 ^ LENGTH(32)" by (rule unsigned_less)
  then have "dt = unix2date t" if "valid_date dt" "date_seconds dt = unat t" for dt
    using unix2date_inverse [OF that(1)] that(2) by simp
  then show ?thesis using unix2date_spec [of t] unix2date_year [of t] unix2date_mono [of t u] by auto
qed

text \<open>
  The octal fields of a header: a field of \<open>w\<close> digits holds the number modulo \<open>8 ^ w\<close>, so the 11
  digits of the size field hold every size, and \<open>bin2oct\<close> is exact.
\<close>

theorem octal_fields:
  "oct2bin (bin2oct_padded num w) = of_nat (unat num mod 8 ^ w) \<and> oct2bin (bin2oct_padded num 11) = num \<and>
   length (bin2oct_padded num w) = w"
  using oct2bin_padded_nat [of num w] by simp

text \<open>
  After \<open>initIdt\<close> every one of the 256 gates holds the address of the stub meant for its number, in
  the kernel's code segment; only the system call can be raised from ring 3.
\<close>

theorem idt_gates:
  fixes m :: u8
  shows "gate_addr (idt (initIdt addr ia s) (unat m)) = addr (stub_of m) \<and>
    sel (idt (initIdt addr ia s) (unat m)) = 0x08 \<and>
    gate_dpl (idt (initIdt addr ia s) (unat m)) = (if m = 0x80 then 3 else 0)"
  using initIdt_dpl [of addr ia s m] by (simp add: initIdt_gates)

text \<open>
  The descriptors of \<open>initGdt\<close>, as the processor reads them: flat code and data segments for ring 0
  and ring 3, and the TSS, whose kernel stack is the one given and whose I/O map base is left 0.
\<close>

theorem gdt_segments:
  "let t = initGdt ga ta stk s in
    map (seg_base \<circ> gdt t) [1, 2, 3, 4, 5] = [0, 0, 0, 0, ta] \<and>
    map (seg_last \<circ> gdt t) [1, 2, 3, 4, 5] = [0xFFFFFFFF, 0xFFFFFFFF, 0xFFFFFFFF, 0xFFFFFFFF, SIZEOF_TSS] \<and>
    map access (map (gdt t) [0..<6]) = [0, 0x9A, 0x92, 0xFA, 0xF2, 0xE9] \<and>
    map (seg_dpl \<circ> gdt t) [0..<6] = [0, 0, 0, 3, 3, 3] \<and>
    tss_ss0 (tss t) = 0x10 \<and> tss_esp0 (tss t) = stk \<and> iomapBase (tss t) = 0"
  using initGdt_segments(1) [where ga = ga and ta = ta and stk = stk and s = s]
    initGdt_segments(2-4) [where ga = ga and ta = ta and stk = stk and s = s]
  by (simp add: Let_def initGdt_tss del: upt_rec_numeral upt_Suc map_map list.map_comp)

text \<open>
  A program segment that is loaded holds the bytes of the file, then zeros up to its memory size;
  the rest of memory is as before. A memory size one below the file size is not rejected: all but one
  byte of memory is cleared.
\<close>

theorem segment_in_memory:
  assumes "p_type ph = 1" "unat (of_nat d + p_offset ph :: u32) + unat (p_filesz ph) \<le> TAR_BUF_SIZE"
  shows "(p_filesz ph \<le> p_memsz ph \<longrightarrow>
      (\<exists>s'. load_segment d ph s = Inr s' \<and> tarBuf s' = tarBuf s \<and>
        (\<forall>a. umem s' a =
           (let i = unat (a - p_vaddr ph)
            in if i < unat (p_filesz ph) then tarBuf s (unat (of_nat d + p_offset ph :: u32) + i)
               else if i < unat (p_memsz ph) then 0 else umem s a)))) \<and>
    (p_memsz ph = p_filesz ph - 1 \<longrightarrow>
      (\<exists>s'. load_segment d ph s = Inr s' \<and> (\<forall>a. a \<noteq> p_vaddr ph + p_filesz ph - 1 \<longrightarrow> umem s' a = 0)))"
  using load_segment_memory [OF assms] load_segment_wraps [OF assms] by blast

definition ex_segment :: "u32 \<Rightarrow> Elf32_Phdr" where
  "ex_segment n = \<lparr>p_type = 1, p_offset = 0, p_vaddr = 0x400000, p_filesz = 3, p_memsz = n\<rparr>"

theorem segment_in_memory_witness:
  "\<exists>s' s''. load_segment 512 (ex_segment 5) st0 = Inr s' \<and> umem s' 0x400001 = tarBuf st0 513 \<and>
     load_segment 512 (ex_segment 2) st0 = Inr s'' \<and> umem s'' 0 = 0"
proof -
  obtain s' where "load_segment 512 (ex_segment 5) st0 = Inr s'" "umem s' 0x400001 = tarBuf st0 513"
    using segment_in_memory [of "ex_segment 5" 512 st0] by (auto simp: ex_segment_def Let_def)
  moreover obtain s'' where "load_segment 512 (ex_segment 2) st0 = Inr s''" "umem s'' 0 = 0"
    using segment_in_memory [of "ex_segment 2" 512 st0] by (auto simp: ex_segment_def)
  ultimately show ?thesis by blast
qed

text \<open>
  The place of the kernel in memory. It starts at 0x10000 (src/linker.ld); its heap and the archive are arrays of it.
  So the image is larger than the free memory below 0xA0000: it covers the text page at 0xB8000, and the
  address at which programs are linked (apps/app.ld).
\<close>

theorem image_covers_programs:
  fixes heap arc fin :: u32
  assumes "0x10000 \<le> heap" "unat heap + unat HEAP_SIZE \<le> unat fin" "0x10000 \<le> arc" "unat arc + TAR_BUF_SIZE \<le> unat fin"
    and "unat heap + unat HEAP_SIZE \<le> unat arc \<or> unat arc + TAR_BUF_SIZE \<le> unat heap"
  shows "0x180000 \<le> unat (getUsedMem 0x10000 fin) \<and> {0xB8000..0xB8FA0} \<subseteq> {0x10000..<fin} \<and> 0x180000 \<in> {0x10000..<fin}"
proof -
  have le: "0x10000 \<le> unat heap" "0x10000 \<le> unat arc" using assms(1,3) by (simp_all add: word_le_nat_alt)
  then have "0x190000 \<le> unat fin" using assms(2,4,5) by auto
  then have e: "0x190000 \<le> fin" by (simp add: word_le_nat_alt)
  then have "unat (fin - 0x10000) = unat fin - 0x10000"
    by (subst unat_sub) (auto simp: word_le_nat_alt)
  then show ?thesis using e \<open>0x190000 \<le> unat fin\<close> by (auto simp: getUsedMem_def word_le_nat_alt word_less_nat_alt)
qed

theorem image_covers_programs_witness: "0x180000 \<le> unat (getUsedMem 0x10000 0x1A0000)"
  using image_covers_programs [of "0x1C000" "0x1A0000" "0x11C000"] by simp

text \<open>
  The blocks that \<open>kbrk\<close> gives out are in ascending order, do not overlap, and lie inside the heap.
\<close>

theorem heap_blocks:
  assumes "heap_ok base brk" "\<forall>n\<in>set ns. unat n < 2 ^ 31"
  shows "sorted_wrt (\<lambda>(a, n) (b, m). a + n \<le> b) (kbrk_blocks base ns brk) \<and>
    (\<forall>(a, n)\<in>set (kbrk_blocks base ns brk). unat brk \<le> a \<and> a + n \<le> unat base + 0x100000)"
  by (rule kbrk_blocks_spec [OF assms])

theorem heap_blocks_witness:
  "sorted_wrt (\<lambda>(a, n) (b, m). a + n \<le> b) (kbrk_blocks 0x200000 [4096, 0x200000, 8] 0x200000)"
  using heap_blocks [of "0x200000" "0x200000" "[4096, 0x200000, 8]"] by (simp add: heap_ok_def del: kbrk_blocks.simps)

end
